(* ===== verification/Prelude.thy ===== *)
theory Prelude
  imports Complex_Main "HOL-Library.Char_ord" "HOL-Library.List_Lexorder"
    "HOL-Library.Product_Lexorder" "HOL-Library.Multiset"
begin

text \<open>
  Shared vocabulary of the development: the types every component uses (time, UUIDs, Go
  errors), the outcome of a call to a remote service, and the generic lemmas on lists the
  component proofs rest on.

  A \<open>time.Time\<close> is its \<open>UnixNano\<close> value and a \<open>time.Duration\<close> a number of nanoseconds,
  both unbounded integers: the years whose nanosecond count leaves the signed 64-bit range
  (before 1678, after 2262) are outside the model. A \<open>uuid.UUID\<close> is its canonical text.
\<close>

type_synonym time = int
type_synonym duration = int
type_synonym uuid = string

text \<open>
  Go's \<open>error\<close> values. The sentinel errors are those of \<open>internal/domain/errors.go\<close>;
  \<open>PgError c\<close> is an error reported by PostgreSQL with SQLSTATE \<open>c\<close> (\<open>pgconn.PgError\<close>, whose
  message text is reduced to the code), \<open>Err\<close> any other error of a library with its
  message, and \<open>Wrap s e\<close> is \<open>fmt.Errorf("s: %w", e)\<close>.
\<close>

datatype err =
    ErrNotFound | ErrDuplicateKey | ErrInvalidChannel | ErrInvalidPriority
  | ErrInvalidRecipient | ErrInvalidContent | ErrNotCancellable | ErrBatchTooLarge
  | ErrTemplateNotFound | ErrTemplateMissingVar | ErrRateLimited | ErrCircuitOpen
  | PgError string | Err string | Wrap string err

text \<open>\<open>errors.Is\<close>: the error itself or one that it wraps.\<close>

fun err_is :: "err \<Rightarrow> err \<Rightarrow> bool" where
  "err_is (Wrap s e) t = (Wrap s e = t \<or> err_is e t)"
| "err_is e t = (e = t)"

text \<open>The text of an error, \<open>err.Error()\<close>.\<close>

primrec Error :: "err \<Rightarrow> string" where
  "Error ErrNotFound = ''not found''"
| "Error ErrDuplicateKey = ''duplicate idempotency key''"
| "Error ErrInvalidChannel = ''invalid channel: must be sms, email, or push''"
| "Error ErrInvalidPriority = ''invalid priority: must be high, normal, or low''"
| "Error ErrInvalidRecipient = ''recipient is required''"
| "Error ErrInvalidContent = ''content is required''"
| "Error ErrNotCancellable = ''notification cannot be cancelled in current status''"
| "Error ErrBatchTooLarge = ''batch size exceeds maximum of 1000''"
| "Error ErrTemplateNotFound = ''template not found''"
| "Error ErrTemplateMissingVar = ''template variable missing''"
| "Error ErrRateLimited = ''rate limited''"
| "Error ErrCircuitOpen = ''circuit breaker is open''"
| "Error (PgError c) = ''SQLSTATE '' @ c"
| "Error (Err s) = s"
| "Error (Wrap s e) = s @ '': '' @ Error e"

type_synonym 'a result = "err + 'a"

section \<open>Calls to a remote service\<close>

text \<open>
  PostgreSQL and Redis are reached over a network. What happens to one call is an outcome
  the service's environment chooses: the call is delivered and answered, the request is
  lost (or refused) before it is executed, or it is executed and only the reply is lost. In
  the last two cases the Go client returns an error. \<open>remote net f s\<close> performs the server
  command \<open>f\<close> under the next outcome of \<open>net\<close>.
\<close>

datatype fault = Delivered | LostRequest err | LostReply err

definition remote :: "('s \<Rightarrow> fault \<times> 's) \<Rightarrow> ('s \<Rightarrow> 'a \<times> 's) \<Rightarrow> 's \<Rightarrow> 'a result \<times> 's" where
  "remote net f s =
     (case net s of
        (Delivered, s1) \<Rightarrow> (let (x, s2) = f s1 in (Inr x, s2))
      | (LostRequest e, s1) \<Rightarrow> (Inl e, s1)
      | (LostReply e, s1) \<Rightarrow> (let (x, s2) = f s1 in (Inl e, s2)))"

text \<open>The \<open>error\<close> component of a result whose value is not used (\<open>cmd.Err()\<close>).\<close>

definition err_of :: "'a result \<Rightarrow> err option" where
  "err_of x = (case x of Inl e \<Rightarrow> Some e | Inr _ \<Rightarrow> None)"

named_theorems remote_simps \<open>equations that unfold calls to the services\<close>
named_theorems frame_simps \<open>what an operation leaves unchanged\<close>

section \<open>Generic lemmas\<close>

lemma err_is_refl [simp]: "err_is e e"
  by (cases e) simp_all

lemma err_of_simps [simp]:
  "err_of (Inl e) = Some e" "err_of (Inr x) = None"
  "(err_of y = None) = (\<exists>v. y = Inr v)" "(err_of y = Some e) = (y = Inl e)"
  by (auto simp: err_of_def split: sum.splits)

lemma remote_cases:
  assumes "remote net f s = (x, s')"
  obtains (delivered) s1 v where "net s = (Delivered, s1)" "f s1 = (v, s')" "x = Inr v"
  | (lost_request) e where "net s = (LostRequest e, s')" "x = Inl e"
  | (lost_reply) e s1 v where "net s = (LostReply e, s1)" "f s1 = (v, s')" "x = Inl e"
  using assms by (auto simp: remote_def split: prod.splits fault.splits)

lemma remote_delivered [remote_simps]:
  "net s = (Delivered, s1) \<Longrightarrow> remote net f s = (Inr (fst (f s1)), snd (f s1))"
  by (simp add: remote_def case_prod_beta)

lemma distinct_map_insort:
  "distinct (map f (insort x xs)) = (f x \<notin> f ` set xs \<and> distinct (map f xs))"
proof (induction xs)
  case Nil
  then show ?case by simp
next
  case (Cons y ys)
  then show ?case by (auto simp: set_insort_key)
qed

lemma distinct_map_take: "distinct (map f xs) \<Longrightarrow> distinct (map f (take n xs))"
  by (simp add: take_map [symmetric])

lemma distinct_map_drop: "distinct (map f xs) \<Longrightarrow> distinct (map f (drop n xs))"
  by (simp add: drop_map [symmetric])

lemma filter_unique_key:
  "distinct (map f xs) \<Longrightarrow> x \<in> set xs \<Longrightarrow> filter (\<lambda>y. f y = f x) xs = [x]"
  by (induction xs) (auto simp: filter_empty_conv rev_image_eqI)

lemma find_SomeD: "find P xs = Some x \<Longrightarrow> x \<in> set xs \<and> P x"
  by (induction xs) (auto split: if_splits)

lemma set_take_drop: "set xs = set (take n xs) \<union> set (drop n xs)"
  by (metis append_take_drop_id set_append)

lemma sorted_take_le_drop:
  assumes "sorted xs" "x \<in> set (take n xs)" "y \<in> set (drop n xs)"
  shows "x \<le> y"
  using assms by (metis append_take_drop_id sorted_append)

text \<open>Splitting a list at the first occurrence of a separator.\<close>

lemma split_at_separator:
  assumes "c \<notin> set xs"
  shows "takeWhile (\<lambda>x. x \<noteq> c) (xs @ c # ys) = xs" "dropWhile (\<lambda>x. x \<noteq> c) (xs @ c # ys) = c # ys"
  using assms by (induction xs) auto

end
