(* ===== verification/Domain.thy ===== *)
theory Domain
  imports Prelude
begin

text \<open>
  The entities of \<open>internal/domain\<close> and the queue message of \<open>internal/queue/message.go\<close>.
  \<open>Channel\<close>, \<open>Priority\<close> and \<open>Status\<close> are Go string types: any text can reach the code in a
  request, so they are strings here too, with the constants and the \<open>Valid\<close> methods of the
  source. A pointer field that may be \<open>nil\<close> is an option.
\<close>

section \<open>Definitions\<close>

type_synonym channel = string

definition ChannelSMS :: channel where "ChannelSMS = ''sms''"
definition ChannelEmail :: channel where "ChannelEmail = ''email''"
definition ChannelPush :: channel where "ChannelPush = ''push''"

definition Channel_Valid :: "channel \<Rightarrow> bool" where
  "Channel_Valid c = (c = ChannelSMS \<or> c = ChannelEmail \<or> c = ChannelPush)"

type_synonym priority = string

definition PriorityHigh :: priority where "PriorityHigh = ''high''"
definition PriorityNormal :: priority where "PriorityNormal = ''normal''"
definition PriorityLow :: priority where "PriorityLow = ''low''"

definition Priority_Valid :: "priority \<Rightarrow> bool" where
  "Priority_Valid p = (p = PriorityHigh \<or> p = PriorityNormal \<or> p = PriorityLow)"

definition Priority_Score :: "priority \<Rightarrow> int" where
  "Priority_Score p =
     (if p = PriorityHigh then 0
      else if p = PriorityNormal then 1
      else if p = PriorityLow then 2
      else 1)"

type_synonym status = string

definition StatusPending :: status where "StatusPending = ''pending''"
definition StatusScheduled :: status where "StatusScheduled = ''scheduled''"
definition StatusQueued :: status where "StatusQueued = ''queued''"
definition StatusProcessing :: status where "StatusProcessing = ''processing''"
definition StatusSent :: status where "StatusSent = ''sent''"
definition StatusFailed :: status where "StatusFailed = ''failed''"
definition StatusCancelled :: status where "StatusCancelled = ''cancelled''"

text \<open>
  Values of Go's \<open>interface{}\<close> decoded from JSON, and \<open>map[string]interface{}\<close> with its
  \<open>nil\<close> as \<open>None\<close>.
\<close>

datatype json =
  JNull | JBool bool | JNum rat | JStr string | JArr "json list" | JObj "(string \<times> json) list"

type_synonym vars = "(string \<times> json) list option"

record notification =
  n_ID :: uuid
  n_BatchID :: "uuid option"
  n_IdempotencyKey :: "string option"
  n_Recipient :: string
  n_Channel :: channel
  n_Content :: string
  n_Priority :: priority
  n_Status :: status
  n_TemplateID :: "uuid option"
  n_TemplateVars :: vars
  n_ScheduledAt :: "time option"
  n_ProviderMsgID :: "string option"
  n_Attempts :: int
  n_MaxAttempts :: int
  n_LastError :: "string option"
  n_SentAt :: "time option"
  n_CreatedAt :: time
  n_UpdatedAt :: time

record template =
  t_ID :: uuid
  t_Name :: string
  t_Channel :: channel
  t_Content :: string
  t_Variables :: "string list option"
  t_CreatedAt :: time
  t_UpdatedAt :: time

record message =
  m_NotificationID :: uuid
  m_Channel :: channel
  m_Priority :: priority
  m_ScheduledAt :: "time option"

text \<open>\<open>MessageFromNotification\<close> of \<open>internal/queue/redis/helpers.go\<close>.\<close>

definition MessageFromNotification :: "notification \<Rightarrow> message" where
  "MessageFromNotification n =
     \<lparr>m_NotificationID = n_ID n, m_Channel = n_Channel n, m_Priority = n_Priority n,
      m_ScheduledAt = n_ScheduledAt n\<rparr>"

section \<open>Lemmas\<close>

named_theorems status_defs \<open>the status constants\<close>

lemmas status_const_defs [status_defs] =
  StatusPending_def StatusScheduled_def StatusQueued_def StatusProcessing_def
  StatusSent_def StatusFailed_def StatusCancelled_def

lemmas channel_defs = ChannelSMS_def ChannelEmail_def ChannelPush_def
lemmas priority_defs = PriorityHigh_def PriorityNormal_def PriorityLow_def

text \<open>The constants of each type are pairwise different.\<close>

lemma status_neqs [simp]:
  "StatusProcessing \<noteq> StatusPending" "StatusProcessing \<noteq> StatusQueued"
  "StatusProcessing \<noteq> StatusScheduled" "StatusProcessing \<noteq> StatusSent"
  "StatusProcessing \<noteq> StatusFailed" "StatusProcessing \<noteq> StatusCancelled"
  "StatusSent \<noteq> StatusPending" "StatusSent \<noteq> StatusQueued" "StatusSent \<noteq> StatusProcessing"
  "StatusSent \<noteq> StatusFailed" "StatusSent \<noteq> StatusScheduled"
  "StatusQueued \<noteq> StatusProcessing" "StatusQueued \<noteq> StatusSent" "StatusQueued \<noteq> StatusFailed"
  "StatusQueued \<noteq> StatusScheduled" "StatusQueued \<noteq> StatusPending"
  "StatusFailed \<noteq> StatusPending" "StatusFailed \<noteq> StatusQueued"
  "StatusFailed \<noteq> StatusProcessing" "StatusFailed \<noteq> StatusSent"
  "StatusCancelled \<noteq> StatusPending" "StatusCancelled \<noteq> StatusQueued"
  "StatusCancelled \<noteq> StatusScheduled" "StatusScheduled \<noteq> StatusPending"
  "StatusScheduled \<noteq> StatusQueued"
  by (simp_all add: status_defs)

lemma Channel_Valid_consts [simp]:
  "Channel_Valid ChannelSMS" "Channel_Valid ChannelEmail" "Channel_Valid ChannelPush"
  by (simp_all add: Channel_Valid_def)

lemma Priority_Valid_consts [simp]:
  "Priority_Valid PriorityHigh" "Priority_Valid PriorityNormal" "Priority_Valid PriorityLow"
  by (simp_all add: Priority_Valid_def)

lemma Priority_Score_simps [simp]:
  "Priority_Score PriorityHigh = 0" "Priority_Score PriorityNormal = 1"
  "Priority_Score PriorityLow = 2"
  by (simp_all add: Priority_Score_def priority_defs)

lemma Priority_Score_range: "0 \<le> Priority_Score p \<and> Priority_Score p \<le> 2"
  by (simp add: Priority_Score_def)

end
