(* ===== verification/Postgres.thy ===== *)
theory Postgres
  imports Domain
begin

text \<open>
  The database: the tables of \<open>internal/migration/migrations\<close> with their constraints, and the
  SQL statements of \<open>internal/repository/postgres/queries.go\<close> and of
  \<open>internal/retry/deadletter.go\<close> as functions on the tables.

  PostgreSQL and pgx are not part of the repository. What the statements need of them is
  the parameter record \<open>pg\<close>: the outcome of the next call (see \<open>remote\<close>), the time
  \<open>NOW()\<close>, the resolution of \<open>TIMESTAMPTZ\<close>, which byte strings are text values and fit a
  \<open>VARCHAR(n)\<close>, what \<open>JSONB\<close> stores for a JSON value, the order in which a query without
  \<open>ORDER BY\<close> (or with ties) returns rows, and the planner's row estimate. The locale
  \<open>pg_server\<close> states what the code relies on.

  A statement either fails with an SQLSTATE and changes nothing, or has its effect. Several
  statements sent as one \<open>pgx.Batch\<close> run in one implicit transaction.
\<close>

section \<open>Tables\<close>

text \<open>
  A row of \<open>notifications\<close> is a notification whose \<open>template_vars\<close> column is the stored JSON
  (\<open>None\<close> is SQL \<open>NULL\<close>); the field \<open>n_TemplateVars\<close> of a row is not used.
\<close>

record nrow = notification +
  r_vars :: "json option"

record trow = template +
  r_variables :: json

record dead_letter =
  d_ID :: uuid
  d_NotificationID :: uuid
  d_LastError :: string
  d_Attempts :: int
  d_FailedAt :: time

record 'p pgdb =
  pg_conn :: 'p
  notifications :: "nrow list"
  templates :: "trow list"
  dead_letters :: "dead_letter list"

section \<open>The server as a parameter\<close>

record 'p pg =
  pg_net :: "'p \<Rightarrow> fault \<times> 'p"
  pg_now :: "'p \<Rightarrow> time"
  pg_ts :: "time \<Rightarrow> time"
  pg_text :: "string \<Rightarrow> bool"
  pg_varchar :: "nat \<Rightarrow> string \<Rightarrow> bool"
  pg_jsonb :: "json \<Rightarrow> json result"
  pg_order :: "'p \<Rightarrow> nrow list \<Rightarrow> nrow list"
  pg_reltuples :: "'p \<Rightarrow> int"

type_synonym ('p, 'a) stmt = "'p pgdb \<Rightarrow> 'a result \<times> 'p pgdb"

text \<open>A call of one statement (or one batch), over the network.\<close>

definition pg_call :: "'p pg \<Rightarrow> ('p, 'a) stmt \<Rightarrow> 'p pgdb \<Rightarrow> 'a result \<times> 'p pgdb" where
  "pg_call pg f s =
     (case remote (\<lambda>s. let (x, c) = pg_net pg (pg_conn s) in (x, s\<lparr>pg_conn := c\<rparr>)) f s of
        (Inl e, s') \<Rightarrow> (Inl e, s')
      | (Inr x, s') \<Rightarrow> (x, s'))"

text \<open>An implicit transaction: the statements in order, or no effect at all.\<close>

fun pg_all :: "('p, 'a) stmt list \<Rightarrow> ('p, unit) stmt" where
  "pg_all [] s = (Inr (), s)"
| "pg_all (f # fs) s =
     (case f s of
        (Inl e, _) \<Rightarrow> (Inl e, s)
      | (Inr _, s1) \<Rightarrow>
          (case pg_all fs s1 of (Inl e, _) \<Rightarrow> (Inl e, s) | (Inr x, s2) \<Rightarrow> (Inr x, s2)))"

definition pg_time :: "'p pg \<Rightarrow> 'p pgdb \<Rightarrow> time" where
  "pg_time pg s = pg_now pg (pg_conn s)"

section \<open>Constraints of the notifications table\<close>

definition status_check :: "status \<Rightarrow> bool" where
  "status_check st = (st \<in> {StatusPending, StatusScheduled, StatusQueued, StatusProcessing,
     StatusSent, StatusFailed, StatusCancelled})"

definition int4 :: "int \<Rightarrow> bool" where
  "int4 i = (- (2 ^ 31) \<le> i \<and> i < 2 ^ 31)"

definition opt_all :: "('a \<Rightarrow> bool) \<Rightarrow> 'a option \<Rightarrow> bool" where
  "opt_all P x = (case x of None \<Rightarrow> True | Some y \<Rightarrow> P y)"

text \<open>The column types and \<open>CHECK\<close> constraints a row violates, if any.\<close>

definition row_error :: "'p pg \<Rightarrow> nrow \<Rightarrow> err option" where
  "row_error pg r =
     (if \<not> (opt_all (pg_text pg) (n_IdempotencyKey r) \<and> pg_text pg (n_Recipient r) \<and>
             pg_text pg (n_Channel r) \<and> pg_text pg (n_Content r) \<and> pg_text pg (n_Priority r) \<and>
             pg_text pg (n_Status r) \<and> opt_all (pg_text pg) (n_ProviderMsgID r) \<and>
             opt_all (pg_text pg) (n_LastError r))
      then Some (PgError ''22021'')
      else if \<not> (int4 (n_Attempts r) \<and> int4 (n_MaxAttempts r)) then Some (PgError ''22003'')
      else if \<not> (opt_all (pg_varchar pg 255) (n_IdempotencyKey r) \<and> pg_varchar pg 320 (n_Recipient r) \<and>
                  pg_varchar pg 10 (n_Channel r) \<and> pg_varchar pg 10 (n_Priority r) \<and>
                  pg_varchar pg 20 (n_Status r) \<and> opt_all (pg_varchar pg 255) (n_ProviderMsgID r))
      then Some (PgError ''22001'')
      else if \<not> (Channel_Valid (n_Channel r) \<and> Priority_Valid (n_Priority r) \<and> status_check (n_Status r))
      then Some (PgError ''23514'')
      else None)"

text \<open>The unique indexes: the primary key and \<open>idempotency_key\<close>, where nulls are distinct.\<close>

definition key_taken :: "nrow \<Rightarrow> nrow list \<Rightarrow> bool" where
  "key_taken r rs =
     (\<exists>r' \<in> set rs. n_ID r' = n_ID r \<or> n_IdempotencyKey r \<noteq> None \<and> n_IdempotencyKey r' = n_IdempotencyKey r)"

definition template_missing :: "nrow \<Rightarrow> 'p pgdb \<Rightarrow> bool" where
  "template_missing r s =
     (case n_TemplateID r of None \<Rightarrow> False | Some t \<Rightarrow> t \<notin> t_ID ` set (templates s))"

section \<open>Statements on notifications\<close>

definition insertNotification :: "'p pg \<Rightarrow> nrow \<Rightarrow> ('p, unit) stmt" where
  "insertNotification pg r s =
     (case row_error pg r of
        Some e \<Rightarrow> (Inl e, s)
      | None \<Rightarrow>
          if key_taken r (notifications s) then (Inl (PgError ''23505''), s)
          else if template_missing r s then (Inl (PgError ''23503''), s)
          else (Inr (), s\<lparr>notifications := notifications s @ [r]\<rparr>))"

text \<open>\<open>SELECT ... WHERE P ORDER BY key LIMIT lmt\<close>; without \<open>ORDER BY\<close> the key is constant.\<close>

definition select_where ::
  "'p pg \<Rightarrow> (nrow \<Rightarrow> bool) \<Rightarrow> (nrow \<Rightarrow> int) \<Rightarrow> nat \<Rightarrow> ('p, nrow list) stmt" where
  "select_where pg P key lmt s =
     (Inr (take lmt (sort_key key (pg_order pg (pg_conn s) (filter P (notifications s))))), s)"

text \<open>\<open>UPDATE notifications SET f WHERE P RETURNING *\<close>; one invalid row fails the statement.\<close>

fun first_error :: "'p pg \<Rightarrow> nrow list \<Rightarrow> err option" where
  "first_error pg [] = None"
| "first_error pg (r # rs) = (case row_error pg r of Some e \<Rightarrow> Some e | None \<Rightarrow> first_error pg rs)"

definition update_where ::
  "'p pg \<Rightarrow> (nrow \<Rightarrow> bool) \<Rightarrow> (nrow \<Rightarrow> nrow) \<Rightarrow> ('p, nrow list) stmt" where
  "update_where pg P f s =
     (let changed = map f (filter P (notifications s))
      in case first_error pg changed of
           Some e \<Rightarrow> (Inl e, s)
         | None \<Rightarrow>
             (Inr (pg_order pg (pg_conn s) changed),
              s\<lparr>notifications := map (\<lambda>r. if P r then f r else r) (notifications s)\<rparr>))"

definition set_status :: "status \<Rightarrow> time \<Rightarrow> ('a notification_scheme) \<Rightarrow> 'a notification_scheme" where
  "set_status st t r = r\<lparr>n_Status := st, n_UpdatedAt := t\<rparr>"

definition set_error :: "status \<Rightarrow> string \<Rightarrow> int \<Rightarrow> time \<Rightarrow> 'a notification_scheme \<Rightarrow> 'a notification_scheme" where
  "set_error st em a t r = r\<lparr>n_Status := st, n_LastError := Some em, n_Attempts := a, n_UpdatedAt := t\<rparr>"

definition set_sent :: "string \<Rightarrow> time \<Rightarrow> 'a notification_scheme \<Rightarrow> 'a notification_scheme" where
  "set_sent pid t r =
     r\<lparr>n_Status := StatusSent, n_ProviderMsgID := Some pid, n_SentAt := Some t, n_UpdatedAt := t\<rparr>"

definition claimable :: "status \<Rightarrow> bool" where
  "claimable st = (st = StatusPending \<or> st = StatusQueued)"

definition selectNotificationByID :: "'p pg \<Rightarrow> uuid \<Rightarrow> ('p, nrow list) stmt" where
  "selectNotificationByID pg i s = select_where pg (\<lambda>r. n_ID r = i) (\<lambda>_. 0) (length (notifications s)) s"

definition selectNotificationsByBatchID :: "'p pg \<Rightarrow> uuid \<Rightarrow> ('p, nrow list) stmt" where
  "selectNotificationsByBatchID pg b = select_where pg (\<lambda>r. n_BatchID r = Some b) n_CreatedAt 1000"

definition updateNotificationStatus :: "'p pg \<Rightarrow> uuid \<Rightarrow> status \<Rightarrow> ('p, nrow list) stmt" where
  "updateNotificationStatus pg i st s =
     (if pg_text pg st then update_where pg (\<lambda>r. n_ID r = i) (set_status st (pg_time pg s)) s
      else (Inl (PgError ''22021''), s))"

definition updateNotificationStatusWithError ::
  "'p pg \<Rightarrow> uuid \<Rightarrow> status \<Rightarrow> string \<Rightarrow> int \<Rightarrow> ('p, nrow list) stmt" where
  "updateNotificationStatusWithError pg i st em a s =
     (if pg_text pg st \<and> pg_text pg em
      then update_where pg (\<lambda>r. n_ID r = i) (set_error st em a (pg_time pg s)) s
      else (Inl (PgError ''22021''), s))"

definition updateNotificationSent :: "'p pg \<Rightarrow> uuid \<Rightarrow> string \<Rightarrow> ('p, nrow list) stmt" where
  "updateNotificationSent pg i pid s =
     (if pg_text pg pid then update_where pg (\<lambda>r. n_ID r = i) (set_sent pid (pg_time pg s)) s
      else (Inl (PgError ''22021''), s))"

definition selectPendingScheduled :: "'p pg \<Rightarrow> nat \<Rightarrow> ('p, nrow list) stmt" where
  "selectPendingScheduled pg lmt s =
     select_where pg
       (\<lambda>r. n_Status r = StatusScheduled \<and>
            (case n_ScheduledAt r of None \<Rightarrow> False | Some t \<Rightarrow> t \<le> pg_time pg s))
       (\<lambda>r. case n_ScheduledAt r of None \<Rightarrow> 0 | Some t \<Rightarrow> t) lmt s"

definition selectPendingForRecovery :: "'p pg \<Rightarrow> nat \<Rightarrow> ('p, nrow list) stmt" where
  "selectPendingForRecovery pg lmt =
     select_where pg (\<lambda>r. (n_Status r = StatusPending \<or> n_Status r = StatusQueued) \<and> n_ScheduledAt r = None)
       n_CreatedAt lmt"

definition getAndMarkProcessing :: "'p pg \<Rightarrow> uuid \<Rightarrow> ('p, nrow list) stmt" where
  "getAndMarkProcessing pg i s =
     update_where pg (\<lambda>r. n_ID r = i \<and> claimable (n_Status r)) (set_status StatusProcessing (pg_time pg s)) s"

definition getAndMarkProcessingBatch :: "'p pg \<Rightarrow> uuid list \<Rightarrow> ('p, nrow list) stmt" where
  "getAndMarkProcessingBatch pg ids s =
     update_where pg (\<lambda>r. n_ID r \<in> set ids \<and> claimable (n_Status r)) (set_status StatusProcessing (pg_time pg s)) s"

definition updateBatchStatus :: "'p pg \<Rightarrow> uuid list \<Rightarrow> status \<Rightarrow> ('p, nrow list) stmt" where
  "updateBatchStatus pg ids st s =
     (if pg_text pg st then update_where pg (\<lambda>r. n_ID r \<in> set ids) (set_status st (pg_time pg s)) s
      else (Inl (PgError ''22021''), s))"

section \<open>Dead letters\<close>

definition insertDeadLetter :: "'p pg \<Rightarrow> dead_letter \<Rightarrow> ('p, unit) stmt" where
  "insertDeadLetter pg d s =
     (if \<not> pg_text pg (d_LastError d) then (Inl (PgError ''22021''), s)
      else if \<not> int4 (d_Attempts d) then (Inl (PgError ''22003''), s)
      else if d_ID d \<in> d_ID ` set (dead_letters s) then (Inl (PgError ''23505''), s)
      else if d_NotificationID d \<notin> n_ID ` set (notifications s) then (Inl (PgError ''23503''), s)
      else (Inr (), s\<lparr>dead_letters := dead_letters s @ [d]\<rparr>))"

section \<open>The invariant of the database\<close>

text \<open>
  Unique identifiers and keys, valid columns, valid references, and \<open>template_vars\<close> that
  decode to a Go map.
\<close>

definition vars_ok :: "json option \<Rightarrow> bool" where
  "vars_ok v = (case v of None \<Rightarrow> True | Some JNull \<Rightarrow> True | Some (JObj _) \<Rightarrow> True | _ \<Rightarrow> False)"

definition keys_of :: "nrow list \<Rightarrow> string list" where
  "keys_of rs = List.map_filter n_IdempotencyKey rs"

definition db_inv :: "'p pg \<Rightarrow> 'p pgdb \<Rightarrow> bool" where
  "db_inv pg s =
     (distinct (map n_ID (notifications s)) \<and> distinct (keys_of (notifications s)) \<and>
      (\<forall>r \<in> set (notifications s). row_error pg r = None \<and> vars_ok (r_vars r) \<and> \<not> template_missing r s) \<and>
      distinct (map t_ID (templates s)) \<and> distinct (map t_Name (templates s)) \<and>
      distinct (map d_ID (dead_letters s)) \<and>
      (\<forall>d \<in> set (dead_letters s). d_NotificationID d \<in> n_ID ` set (notifications s)))"

section \<open>What the code relies on\<close>

text \<open>
  \<open>ascii\<close> is a text of ASCII characters other than NUL, which every encoding of the server
  accepts; a network failure is not reported as a constraint violation.
\<close>

definition ascii :: "string \<Rightarrow> bool" where
  "ascii xs = (\<forall>c \<in> set xs. 0 < (of_char c :: nat) \<and> (of_char c :: nat) < 128)"

locale pg_server =
  fixes pg :: "'p pg"
  assumes order: "mset (pg_order pg c rs) = mset rs"
    and text_ascii: "ascii xs \<Longrightarrow> pg_text pg xs"
    and varchar_ascii: "ascii xs \<Longrightarrow> pg_varchar pg n xs = (length xs \<le> n)"
    and jsonb_null: "pg_jsonb pg JNull = Inr JNull"
    and jsonb_object: "pg_jsonb pg (JObj kv) = Inr j \<Longrightarrow> \<exists>kv'. j = JObj kv'"
    and jsonb_error: "pg_jsonb pg j = Inl e \<Longrightarrow> e \<noteq> PgError ''23505''"
    and net_error: "pg_net pg c = (LostRequest e, c') \<or> pg_net pg c = (LostReply e, c') \<Longrightarrow>
          e \<noteq> PgError ''23505'' \<and> \<not> err_is e ErrNotFound"

section \<open>Reading rows\<close>

text \<open>
  The Go value of a row: \<open>json.Unmarshal\<close> of the stored variables into a
  \<open>map[string]interface\<close> leaves it \<open>nil\<close> for \<open>null\<close> and fails on anything but an object.
\<close>

definition Unmarshal_vars :: "json \<Rightarrow> vars result" where
  "Unmarshal_vars j =
     (case j of
        JNull \<Rightarrow> Inr None
      | JObj kv \<Rightarrow> Inr (Some kv)
      | _ \<Rightarrow> Inl (Err ''json: cannot unmarshal value into Go value of type map[string]interface {}''))"

definition scanNotification :: "nrow \<Rightarrow> notification result" where
  "scanNotification r =
     (case r_vars r of
        None \<Rightarrow> Inr ((notification.truncate r)\<lparr>n_TemplateVars := None\<rparr>)
      | Some varsJSON \<Rightarrow>
          (case Unmarshal_vars varsJSON of
             Inl e \<Rightarrow> Inl (Wrap ''unmarshal template vars'' e)
           | Inr v \<Rightarrow> Inr ((notification.truncate r)\<lparr>n_TemplateVars := v\<rparr>)))"

fun scanNotifications :: "nrow list \<Rightarrow> notification list result" where
  "scanNotifications [] = Inr []"
| "scanNotifications (r # rs) =
     (case scanNotification r of
        Inl e \<Rightarrow> Inl e
      | Inr n \<Rightarrow> (case scanNotifications rs of Inl e \<Rightarrow> Inl e | Inr ns \<Rightarrow> Inr (n # ns)))"

text \<open>The table as a map from identifiers to notifications.\<close>

definition row_view :: "nrow \<Rightarrow> notification" where
  "row_view r =
     (notification.truncate r)\<lparr>n_TemplateVars := (case r_vars r of Some (JObj kv) \<Rightarrow> Some kv | _ \<Rightarrow> None)\<rparr>"

definition raw :: "'p pgdb \<Rightarrow> uuid \<Rightarrow> nrow option" where
  "raw s = map_of (map (\<lambda>r. (n_ID r, r)) (notifications s))"

definition rows :: "'p pgdb \<Rightarrow> uuid \<Rightarrow> notification option" where
  "rows s i = map_option row_view (raw s i)"

section \<open>Lemmas\<close>

lemma pg_call_cases:
  assumes "pg_call pg f s = (x, s')"
  obtains (answered) c where "pg_net pg (pg_conn s) = (Delivered, c)" "f (s\<lparr>pg_conn := c\<rparr>) = (x, s')"
  | (lost) e c where "pg_net pg (pg_conn s) = (LostRequest e, c)" "x = Inl e" "s' = s\<lparr>pg_conn := c\<rparr>"
  | (unknown) e c y where "pg_net pg (pg_conn s) = (LostReply e, c)" "f (s\<lparr>pg_conn := c\<rparr>) = (y, s')" "x = Inl e"
  using assms by (auto simp: pg_call_def remote_def Let_def split: prod.splits fault.splits sum.splits)

lemma scanNotification_ok: "vars_ok (r_vars r) \<Longrightarrow> scanNotification r = Inr (row_view r)"
  by (auto simp: scanNotification_def row_view_def vars_ok_def Unmarshal_vars_def split: option.splits json.splits)

lemma scanNotifications_ok:
  "\<forall>r \<in> set rs. vars_ok (r_vars r) \<Longrightarrow> scanNotifications rs = Inr (map row_view rs)"
  by (induction rs) (simp_all add: scanNotification_ok)

lemma row_view_fields [simp]:
  "n_ID (row_view r) = n_ID r" "n_Status (row_view r) = n_Status r" "n_Channel (row_view r) = n_Channel r"
  "n_Attempts (row_view r) = n_Attempts r" "n_MaxAttempts (row_view r) = n_MaxAttempts r"
  "n_Priority (row_view r) = n_Priority r" "n_ScheduledAt (row_view r) = n_ScheduledAt r"
  "n_CreatedAt (row_view r) = n_CreatedAt r" "n_IdempotencyKey (row_view r) = n_IdempotencyKey r"
  by (simp_all add: row_view_def notification.truncate_def)

lemma row_view_updates [simp]:
  "row_view (set_status st t r) = set_status st t (row_view r)"
  "row_view (set_error st em a t r) = set_error st em a t (row_view r)"
  "row_view (set_sent pid t r) = set_sent pid t (row_view r)"
  by (simp_all add: row_view_def set_status_def set_error_def set_sent_def notification.truncate_def)

text \<open>Updates that keep what identifies a row.\<close>

definition keeps :: "(nrow \<Rightarrow> nrow) \<Rightarrow> bool" where
  "keeps f = (\<forall>r. n_ID (f r) = n_ID r \<and> n_IdempotencyKey (f r) = n_IdempotencyKey r \<and>
     n_TemplateID (f r) = n_TemplateID r \<and> r_vars (f r) = r_vars r)"

lemma keeps_updates [simp]:
  "keeps (set_status st t)" "keeps (set_error st em a t)" "keeps (set_sent pid t)"
  by (simp_all add: keeps_def set_status_def set_error_def set_sent_def)

lemma keeps_cond: "keeps f \<Longrightarrow> keeps (\<lambda>r. if P r then f r else r)"
  by (simp add: keeps_def)

lemma first_error_None [simp]: "first_error pg rs = None \<longleftrightarrow> (\<forall>r \<in> set rs. row_error pg r = None)"
  by (induction rs) (auto split: option.splits)

lemma keys_of_map: "keeps f \<Longrightarrow> keys_of (map f rs) = keys_of rs"
  by (induction rs) (simp_all add: keys_of_def keeps_def List.map_filter_def)

lemma raw_map: "keeps f \<Longrightarrow> raw (s\<lparr>notifications := map f (notifications s)\<rparr>) i = map_option f (raw s i)"
proof -
  assume "keeps f"
  then have "map_of (map (\<lambda>r. (n_ID r, r)) (map f rs)) i = map_option f (map_of (map (\<lambda>r. (n_ID r, r)) rs) i)" for rs
    by (induction rs) (auto simp: keeps_def)
  then show ?thesis by (simp add: raw_def)
qed

lemma raw_Some: "raw s i = Some r \<Longrightarrow> r \<in> set (notifications s) \<and> n_ID r = i"
  by (auto simp: raw_def dest!: map_of_SomeD)

lemma raw_mem: "distinct (map n_ID (notifications s)) \<Longrightarrow> r \<in> set (notifications s) \<Longrightarrow> raw s (n_ID r) = Some r"
  by (simp add: raw_def comp_def)

lemma raw_None: "raw s i = None \<longleftrightarrow> i \<notin> n_ID ` set (notifications s)"
  by (auto simp: raw_def map_of_eq_None_iff image_iff)

lemma rows_conn [simp]: "rows (s\<lparr>pg_conn := c\<rparr>) = rows s" "raw (s\<lparr>pg_conn := c\<rparr>) = raw s"
  by (simp_all add: rows_def raw_def fun_eq_iff)

lemma template_missing_keeps: "keeps f \<Longrightarrow> template_missing (f r) s' = template_missing r s'"
  by (simp add: template_missing_def keeps_def)

lemma template_missing_cong: "templates s' = templates s \<Longrightarrow> template_missing r s' = template_missing r s"
  by (simp add: template_missing_def split: option.splits)

lemma db_inv_conn [simp]: "db_inv pg (s\<lparr>pg_conn := c\<rparr>) = db_inv pg s"
  using template_missing_cong [of "s\<lparr>pg_conn := c\<rparr>" s] by (simp add: db_inv_def)

lemma db_inv_map:
  assumes "keeps g" "\<forall>r \<in> set (notifications s). row_error pg (g r) = None" "db_inv pg s"
  shows "db_inv pg (s\<lparr>notifications := map g (notifications s)\<rparr>)"
proof -
  have id: "n_ID (g r) = n_ID r" "r_vars (g r) = r_vars r" for r using assms(1) by (simp_all add: keeps_def)
  then have "n_ID \<circ> g = n_ID" by auto
  then show ?thesis
    using assms(2,3) keys_of_map [OF assms(1)] template_missing_cong [of "s\<lparr>notifications := map g (notifications s)\<rparr>" s]
    by (simp add: db_inv_def id template_missing_keeps [OF assms(1)] image_image)
qed

text \<open>An update statement keeps the invariant, and acts on the map as its row function.\<close>

lemma update_where_ok:
  assumes "update_where pg P f s = (x, s')" "keeps f"
  shows "db_inv pg s \<Longrightarrow> db_inv pg s'"
    and "x = Inl e \<Longrightarrow> s' = s"
    and "x = Inr rs \<Longrightarrow> raw s' i = map_option (\<lambda>r. if P r then f r else r) (raw s i)"
    and "x = Inr rs \<Longrightarrow> rs = pg_order pg (pg_conn s) (map f (filter P (notifications s)))"
    and "dead_letters s' = dead_letters s"
proof -
  let ?g = "\<lambda>r. if P r then f r else r"
  have s': "s' = s \<and> x \<noteq> Inr rs \<or>
      x = Inr (pg_order pg (pg_conn s) (map f (filter P (notifications s)))) \<and>
      (\<forall>r \<in> set (notifications s). P r \<longrightarrow> row_error pg (f r) = None) \<and>
      s' = s\<lparr>notifications := map ?g (notifications s)\<rparr>" for rs
    using assms(1) by (auto simp: update_where_def Let_def split: option.splits)
  have g: "keeps ?g" by (rule keeps_cond [OF assms(2)])
  show "db_inv pg s'" if inv: "db_inv pg s"
  proof (cases "s' = s")
    case False
    then have "s' = s\<lparr>notifications := map ?g (notifications s)\<rparr>"
      "\<forall>r \<in> set (notifications s). row_error pg (?g r) = None"
      using s' [of "[]"] inv by (auto simp: db_inv_def)
    then show ?thesis using db_inv_map [OF g _ inv] by simp
  qed (use inv in simp)
  show "x = Inl e \<Longrightarrow> s' = s" using s' [of "[]"] by blast
  show "raw s' i = map_option ?g (raw s i)" if "x = Inr rs"
    using that s' [of rs] raw_map [OF g] by auto
  show "rs = pg_order pg (pg_conn s) (map f (filter P (notifications s)))" if "x = Inr rs"
    using that s' [of rs] by auto
  show "dead_letters s' = dead_letters s" using s' [of "[]"] by auto
qed

end
