(* ===== verification/Notification_Repo.thy ===== *)
theory Notification_Repo
  imports Postgres
begin

text \<open>
  \<open>NotificationRepo\<close> of \<open>internal/repository/postgres/notification.go\<close> and
  \<open>DeadLetterHandler\<close> of \<open>internal/retry/deadletter.go\<close>. Each method is a call of one
  statement of \<open>Postgres\<close> (or of one batch) with the error mapping of the source. An error of
  the network that pgx reports while rows are read is reported at the call of the query here.

  The locale \<open>notification_store\<close> is the interface \<open>repository.NotificationRepository\<close> as the
  worker and the scheduler rely on it, over the table as a map; the interpretation at the end
  of the lemmas shows that the repository on any \<open>pg_server\<close> fulfils it.
\<close>

section \<open>Definitions\<close>

definition Marshal_vars :: "vars \<Rightarrow> json" where
  "Marshal_vars v = (case v of None \<Rightarrow> JNull | Some kv \<Rightarrow> JObj kv)"

text \<open>
  The row an insert stores: fifteen columns are given, the others are \<open>NULL\<close>. Go's JSON
  encoder cannot fail on values decoded from JSON, so only the server can refuse them.
\<close>

definition new_row :: "'p pg \<Rightarrow> notification \<Rightarrow> json \<Rightarrow> nrow" where
  "new_row pg n j =
     notification.extend
       (n\<lparr>n_ScheduledAt := map_option (pg_ts pg) (n_ScheduledAt n), n_CreatedAt := pg_ts pg (n_CreatedAt n),
          n_UpdatedAt := pg_ts pg (n_UpdatedAt n), n_ProviderMsgID := None, n_LastError := None,
          n_SentAt := None\<rparr>)
       (nrow.fields (Some j))"

definition insert_stmt :: "'p pg \<Rightarrow> notification \<Rightarrow> ('p, unit) stmt" where
  "insert_stmt pg n s =
     (case pg_jsonb pg (Marshal_vars (n_TemplateVars n)) of
        Inl e \<Rightarrow> (Inl e, s)
      | Inr varsJSON \<Rightarrow> insertNotification pg (new_row pg n varsJSON) s)"

definition NotificationRepo_Create :: "'p pg \<Rightarrow> notification \<Rightarrow> 'p pgdb \<Rightarrow> err option \<times> 'p pgdb" where
  "NotificationRepo_Create pg n s =
     (case pg_call pg (insert_stmt pg n) s of
        (Inl e, s1) \<Rightarrow>
          (Some (if e = PgError ''23505'' then ErrDuplicateKey else Wrap ''insert notification'' e), s1)
      | (Inr _, s1) \<Rightarrow> (None, s1))"

definition NotificationRepo_CreateBatch ::
  "'p pg \<Rightarrow> notification list \<Rightarrow> 'p pgdb \<Rightarrow> err option \<times> 'p pgdb" where
  "NotificationRepo_CreateBatch pg ns s =
     (case pg_call pg (pg_all (map (insert_stmt pg) ns)) s of
        (Inl e, s1) \<Rightarrow>
          (if ns = [] then None
           else Some (if e = PgError ''23505'' then ErrDuplicateKey
                      else Wrap ''batch insert notification'' e), s1)
      | (Inr _, s1) \<Rightarrow> (None, s1))"

definition NotificationRepo_GetByID :: "'p pg \<Rightarrow> uuid \<Rightarrow> 'p pgdb \<Rightarrow> notification result \<times> 'p pgdb" where
  "NotificationRepo_GetByID pg i s =
     (case pg_call pg (selectNotificationByID pg i) s of
        (Inl e, s1) \<Rightarrow> (Inl (Wrap ''get notification'' e), s1)
      | (Inr [], s1) \<Rightarrow> (Inl ErrNotFound, s1)
      | (Inr (r # _), s1) \<Rightarrow> (scanNotification r, s1))"

text \<open>
  \<open>pool.Query\<close>, and \<open>scanNotifications\<close> on the rows. An error that pgx reports only while the
  rows are read is returned by \<open>rows.Err()\<close> without the prefix; no caller looks at it.
\<close>

definition query_rows ::
  "'p pg \<Rightarrow> string \<Rightarrow> ('p, nrow list) stmt \<Rightarrow> 'p pgdb \<Rightarrow> notification list result \<times> 'p pgdb" where
  "query_rows pg what q s =
     (case pg_call pg q s of
        (Inl e, s1) \<Rightarrow> (Inl (Wrap what e), s1)
      | (Inr rs, s1) \<Rightarrow> (scanNotifications rs, s1))"

definition NotificationRepo_GetByBatchID ::
  "'p pg \<Rightarrow> uuid \<Rightarrow> 'p pgdb \<Rightarrow> notification list result \<times> 'p pgdb" where
  "NotificationRepo_GetByBatchID pg b =
     query_rows pg ''query batch notifications'' (selectNotificationsByBatchID pg b)"

definition NotificationRepo_UpdateStatus ::
  "'p pg \<Rightarrow> uuid \<Rightarrow> status \<Rightarrow> 'p pgdb \<Rightarrow> err option \<times> 'p pgdb" where
  "NotificationRepo_UpdateStatus pg i st s =
     (let (x, s1) = pg_call pg (updateNotificationStatus pg i st) s in (err_of x, s1))"

definition NotificationRepo_UpdateStatusWithError ::
  "'p pg \<Rightarrow> uuid \<Rightarrow> status \<Rightarrow> string \<Rightarrow> int \<Rightarrow> 'p pgdb \<Rightarrow> err option \<times> 'p pgdb" where
  "NotificationRepo_UpdateStatusWithError pg i st lastError attempts s =
     (let (x, s1) = pg_call pg (updateNotificationStatusWithError pg i st lastError attempts) s
      in (err_of x, s1))"

definition NotificationRepo_UpdateSent ::
  "'p pg \<Rightarrow> uuid \<Rightarrow> string \<Rightarrow> 'p pgdb \<Rightarrow> err option \<times> 'p pgdb" where
  "NotificationRepo_UpdateSent pg i providerMsgID s =
     (let (x, s1) = pg_call pg (updateNotificationSent pg i providerMsgID) s in (err_of x, s1))"

definition NotificationRepo_GetPendingScheduled ::
  "'p pg \<Rightarrow> 'p pgdb \<Rightarrow> notification list result \<times> 'p pgdb" where
  "NotificationRepo_GetPendingScheduled pg =
     query_rows pg ''query pending scheduled'' (selectPendingScheduled pg 500)"

definition NotificationRepo_GetPendingForRecovery ::
  "'p pg \<Rightarrow> 'p pgdb \<Rightarrow> notification list result \<times> 'p pgdb" where
  "NotificationRepo_GetPendingForRecovery pg =
     query_rows pg ''query pending for recovery'' (selectPendingForRecovery pg 500)"

definition NotificationRepo_GetAndMarkProcessing ::
  "'p pg \<Rightarrow> uuid \<Rightarrow> 'p pgdb \<Rightarrow> notification result \<times> 'p pgdb" where
  "NotificationRepo_GetAndMarkProcessing pg i s =
     (case pg_call pg (getAndMarkProcessing pg i) s of
        (Inl e, s1) \<Rightarrow> (Inl (Wrap ''get and mark processing'' e), s1)
      | (Inr [], s1) \<Rightarrow> (Inl ErrNotFound, s1)
      | (Inr (r # _), s1) \<Rightarrow> (scanNotification r, s1))"

definition NotificationRepo_GetAndMarkProcessingBatch ::
  "'p pg \<Rightarrow> uuid list \<Rightarrow> 'p pgdb \<Rightarrow> notification list result \<times> 'p pgdb" where
  "NotificationRepo_GetAndMarkProcessingBatch pg ids =
     query_rows pg ''get and mark processing batch'' (getAndMarkProcessingBatch pg ids)"

definition NotificationRepo_UpdateBatchStatus ::
  "'p pg \<Rightarrow> uuid list \<Rightarrow> status \<Rightarrow> 'p pgdb \<Rightarrow> err option \<times> 'p pgdb" where
  "NotificationRepo_UpdateBatchStatus pg ids st s =
     (let (x, s1) = pg_call pg (updateBatchStatus pg ids st) s in (err_of x, s1))"

text \<open>
  The callers pass lists of equal length; \<open>providerMsgIDs[i]\<close> of a shorter list would panic.
\<close>

definition NotificationRepo_UpdateBatchSent ::
  "'p pg \<Rightarrow> uuid list \<Rightarrow> string list \<Rightarrow> 'p pgdb \<Rightarrow> err option \<times> 'p pgdb" where
  "NotificationRepo_UpdateBatchSent pg ids providerMsgIDs s =
     (case pg_call pg (pg_all (map (\<lambda>(i, p). updateNotificationSent pg i p) (zip ids providerMsgIDs))) s of
        (Inl e, s1) \<Rightarrow> (if ids = [] then None else Some (Wrap ''batch update sent'' e), s1)
      | (Inr _, s1) \<Rightarrow> (None, s1))"

text \<open>\<open>fresh\<close> is \<open>uuid.New()\<close>, \<open>t\<close> is \<open>time.Now()\<close>.\<close>

definition DeadLetterHandler_Handle ::
  "'p pg \<Rightarrow> uuid \<Rightarrow> time \<Rightarrow> uuid \<Rightarrow> string \<Rightarrow> int \<Rightarrow> 'p pgdb \<Rightarrow> err option \<times> 'p pgdb" where
  "DeadLetterHandler_Handle pg fresh t notificationID lastError attempts s =
     (case pg_call pg (insertDeadLetter pg
             \<lparr>d_ID = fresh, d_NotificationID = notificationID, d_LastError = lastError,
              d_Attempts = attempts, d_FailedAt = pg_ts pg t\<rparr>) s of
        (Inl e, s1) \<Rightarrow> (Some (Wrap ''insert dead letter'' e), s1)
      | (Inr _, s1) \<Rightarrow> (None, s1))"

section \<open>Listing\<close>

record notification_filter =
  f_Channel :: "channel option"
  f_Status :: "status option"
  f_Priority :: "priority option"
  f_Limit :: int
  f_Offset :: int
  f_Cursor :: "time option"

text \<open>
  The query text is built from conditions with numbered placeholders and a list of
  arguments; a condition \<open>ChannelEq k\<close> is the text \<open>channel = $k\<close>.
\<close>

datatype arg = AText string | ATime time | AInt int

datatype cond = ChannelEq nat | StatusEq nat | PriorityEq nat | CreatedBefore nat

type_synonym query_state = "cond list \<times> arg list \<times> nat"

definition add_cond :: "(nat \<Rightarrow> cond) \<Rightarrow> arg option \<Rightarrow> query_state \<Rightarrow> query_state" where
  "add_cond c a q =
     (case (a, q) of
        (None, _) \<Rightarrow> q
      | (Some v, (conditions, args, argIdx)) \<Rightarrow> (conditions @ [c argIdx], args @ [v], argIdx + 1))"

definition base_conditions :: "notification_filter \<Rightarrow> query_state" where
  "base_conditions f =
     add_cond PriorityEq (map_option AText (f_Priority f))
       (add_cond StatusEq (map_option AText (f_Status f))
         (add_cond ChannelEq (map_option AText (f_Channel f)) ([], [], 1)))"

definition list_conditions :: "notification_filter \<Rightarrow> query_state" where
  "list_conditions f = add_cond CreatedBefore (map_option ATime (f_Cursor f)) (base_conditions f)"

definition placeholder :: "arg list \<Rightarrow> nat \<Rightarrow> arg option" where
  "placeholder args k = (if 1 \<le> k \<and> k \<le> length args then Some (args ! (k - 1)) else None)"

fun cond_holds :: "'p pg \<Rightarrow> arg list \<Rightarrow> nrow \<Rightarrow> cond \<Rightarrow> bool" where
  "cond_holds pg args r (ChannelEq k) = (placeholder args k = Some (AText (n_Channel r)))"
| "cond_holds pg args r (StatusEq k) = (placeholder args k = Some (AText (n_Status r)))"
| "cond_holds pg args r (PriorityEq k) = (placeholder args k = Some (AText (n_Priority r)))"
| "cond_holds pg args r (CreatedBefore k) =
     (case placeholder args k of Some (ATime t) \<Rightarrow> n_CreatedAt r < pg_ts pg t | _ \<Rightarrow> False)"

definition args_error :: "'p pg \<Rightarrow> arg list \<Rightarrow> bool" where
  "args_error pg args = (\<exists>a \<in> set args. case a of AText x \<Rightarrow> \<not> pg_text pg x | _ \<Rightarrow> False)"

definition where_holds :: "'p pg \<Rightarrow> cond list \<Rightarrow> arg list \<Rightarrow> nrow \<Rightarrow> bool" where
  "where_holds pg conditions args r = list_all (cond_holds pg args r) conditions"

definition count_query :: "'p pg \<Rightarrow> cond list \<Rightarrow> arg list \<Rightarrow> ('p, int) stmt" where
  "count_query pg conditions args s =
     (if args_error pg args then (Inl (PgError ''22021''), s)
      else (Inr (int (length (filter (where_holds pg conditions args) (notifications s)))), s))"

definition int_arg :: "arg list \<Rightarrow> nat \<Rightarrow> int" where
  "int_arg args k = (case placeholder args k of Some (AInt i) \<Rightarrow> i | _ \<Rightarrow> 0)"

text \<open>\<open>ORDER BY created_at DESC LIMIT $l\<close>, and \<open>OFFSET $o\<close> if there is one.\<close>

definition data_query ::
  "'p pg \<Rightarrow> cond list \<Rightarrow> arg list \<Rightarrow> nat \<Rightarrow> nat option \<Rightarrow> ('p, nrow list) stmt" where
  "data_query pg conditions args l off s =
     (let offset = (case off of None \<Rightarrow> 0 | Some k \<Rightarrow> int_arg args k)
      in if args_error pg args then (Inl (PgError ''22021''), s)
         else if offset < 0 then (Inl (PgError ''2201X''), s)
         else (Inr (take (nat (int_arg args l)) (drop (nat offset)
                 (sort_key (\<lambda>r. - n_CreatedAt r)
                   (pg_order pg (pg_conn s) (filter (where_holds pg conditions args) (notifications s)))))), s))"

definition estimate_query :: "'p pg \<Rightarrow> ('p, int) stmt" where
  "estimate_query pg s = (Inr (max (pg_reltuples pg (pg_conn s)) 0), s)"

definition list_total :: "'p pg \<Rightarrow> notification_filter \<Rightarrow> 'p pgdb \<Rightarrow> int result \<times> 'p pgdb" where
  "list_total pg f s =
     (case list_conditions f of (conditions, args, argIdx) \<Rightarrow>
        if conditions = []
        then (case pg_call pg (estimate_query pg) s of (x, s1) \<Rightarrow>
                if (case x of Inl _ \<Rightarrow> True | Inr ttl \<Rightarrow> ttl = 0)
                then (case pg_call pg (count_query pg [] []) s1 of
                        (Inl e, s2) \<Rightarrow> (Inl (Wrap ''count notifications'' e), s2)
                      | (Inr ttl, s2) \<Rightarrow> (Inr ttl, s2))
                else (x, s1))
        else (case base_conditions f of (countConditions, countArgs, _) \<Rightarrow>
                (case pg_call pg (count_query pg countConditions countArgs) s of
                   (Inl e, s1) \<Rightarrow> (Inl (Wrap ''count notifications'' e), s1)
                 | (Inr ttl, s1) \<Rightarrow> (Inr ttl, s1))))"

definition NotificationRepo_List ::
  "'p pg \<Rightarrow> notification_filter \<Rightarrow> 'p pgdb \<Rightarrow> (notification list \<times> int) result \<times> 'p pgdb" where
  "NotificationRepo_List pg f s =
     (case list_total pg f s of
        (Inl e, s1) \<Rightarrow> (Inl e, s1)
      | (Inr ttl, s1) \<Rightarrow>
          (case list_conditions f of (conditions, args, argIdx) \<Rightarrow>
            (let lmt = (if f_Limit f \<le> 0 then 20 else f_Limit f);
                 (args, off) = (if f_Cursor f \<noteq> None then (args @ [AInt lmt], None)
                                else (args @ [AInt lmt, AInt (f_Offset f)], Some (argIdx + 1)))
             in case query_rows pg ''list notifications'' (data_query pg conditions args argIdx off) s1 of
                  (Inl e, s2) \<Rightarrow> (Inl e, s2)
                | (Inr ns, s2) \<Rightarrow> (Inr (ns, ttl), s2))))"

section \<open>The contract of the repository interface\<close>

text \<open>
  \<open>upd_rows P f m\<close> applies \<open>f\<close> to the rows that satisfy \<open>P\<close>. A write that returns no error has
  had its effect at some time \<open>t\<close>, and one that returns an error has had it or none.
\<close>

type_synonym table = "uuid \<Rightarrow> notification option"

definition upd_rows :: "(notification \<Rightarrow> bool) \<Rightarrow> (notification \<Rightarrow> notification) \<Rightarrow> table \<Rightarrow> table" where
  "upd_rows P f m = (\<lambda>i. map_option (\<lambda>n. if P n then f n else n) (m i))"

definition effect :: "err option \<Rightarrow> table \<Rightarrow> table \<Rightarrow> (time \<Rightarrow> table) \<Rightarrow> bool" where
  "effect e m m' F = ((\<exists>t. m' = F t) \<or> e \<noteq> None \<and> m' = m)"

definition mark :: "uuid list \<Rightarrow> time \<Rightarrow> table \<Rightarrow> table" where
  "mark ids t = upd_rows (\<lambda>n. n_ID n \<in> set ids \<and> claimable (n_Status n)) (set_status StatusProcessing t)"

definition mark_sent :: "(uuid \<times> string) list \<Rightarrow> time \<Rightarrow> table \<Rightarrow> table" where
  "mark_sent l t = fold (\<lambda>(i, p). upd_rows (\<lambda>n. n_ID n = i) (set_sent p t)) l"

locale notification_store =
  fixes claim :: "uuid \<Rightarrow> 's \<Rightarrow> notification result \<times> 's"
    and claim_batch :: "uuid list \<Rightarrow> 's \<Rightarrow> notification list result \<times> 's"
    and upd_status :: "uuid \<Rightarrow> status \<Rightarrow> 's \<Rightarrow> err option \<times> 's"
    and upd_error :: "uuid \<Rightarrow> status \<Rightarrow> string \<Rightarrow> int \<Rightarrow> 's \<Rightarrow> err option \<times> 's"
    and upd_sent :: "uuid \<Rightarrow> string \<Rightarrow> 's \<Rightarrow> err option \<times> 's"
    and upd_sent_batch :: "uuid list \<Rightarrow> string list \<Rightarrow> 's \<Rightarrow> err option \<times> 's"
    and tbl :: "'s \<Rightarrow> table"
    and inv :: "'s \<Rightarrow> bool"
  assumes tbl_valid: "inv s \<Longrightarrow> tbl s i = Some n \<Longrightarrow>
          n_ID n = i \<and> Channel_Valid (n_Channel n) \<and> Priority_Valid (n_Priority n)"
    and claim_inv: "inv s \<Longrightarrow> claim i s = (x, s') \<Longrightarrow> inv s'"
    and claim_effect: "inv s \<Longrightarrow> claim i s = (x, s') \<Longrightarrow> effect (err_of x) (tbl s) (tbl s') (\<lambda>t. mark [i] t (tbl s))"
    and claim_ok: "inv s \<Longrightarrow> claim i s = (Inr n, s') \<Longrightarrow>
          (\<exists>n0. tbl s i = Some n0 \<and> claimable (n_Status n0)) \<and> tbl s' i = Some n"
    and claim_notfound: "inv s \<Longrightarrow> claim i s = (Inl er, s') \<Longrightarrow> err_is er ErrNotFound \<Longrightarrow>
          tbl s' = tbl s \<and> (\<forall>n0. tbl s i = Some n0 \<longrightarrow> \<not> claimable (n_Status n0))"
    and claim_batch_inv: "inv s \<Longrightarrow> claim_batch ids s = (y, s') \<Longrightarrow> inv s'"
    and claim_batch_effect: "inv s \<Longrightarrow> claim_batch ids s = (y, s') \<Longrightarrow>
          effect (err_of y) (tbl s) (tbl s') (\<lambda>t. mark ids t (tbl s))"
    and claim_batch_ok: "inv s \<Longrightarrow> claim_batch ids s = (Inr ns, s') \<Longrightarrow> distinct (map n_ID ns) \<and>
          (\<forall>n. n \<in> set ns \<longleftrightarrow> n_ID n \<in> set ids \<and> tbl s' (n_ID n) = Some n \<and>
             (\<exists>n0. tbl s (n_ID n) = Some n0 \<and> claimable (n_Status n0)))"
    and upd_status: "inv s \<Longrightarrow> upd_status i st s = (e, s') \<Longrightarrow>
          inv s' \<and> effect e (tbl s) (tbl s') (\<lambda>t. upd_rows (\<lambda>n. n_ID n = i) (set_status st t) (tbl s))"
    and upd_error: "inv s \<Longrightarrow> upd_error i st em a s = (e, s') \<Longrightarrow>
          inv s' \<and> effect e (tbl s) (tbl s') (\<lambda>t. upd_rows (\<lambda>n. n_ID n = i) (set_error st em a t) (tbl s))"
    and upd_sent: "inv s \<Longrightarrow> upd_sent i pid s = (e, s') \<Longrightarrow>
          inv s' \<and> effect e (tbl s) (tbl s') (\<lambda>t. upd_rows (\<lambda>n. n_ID n = i) (set_sent pid t) (tbl s))"
    and upd_sent_batch: "inv s \<Longrightarrow> length pids = length ids \<Longrightarrow> upd_sent_batch ids pids s = (e, s') \<Longrightarrow>
          inv s' \<and> effect e (tbl s) (tbl s') (\<lambda>t. mark_sent (zip ids pids) t (tbl s))"

section \<open>The PostgreSQL repository fulfils the contract\<close>

lemma rows_upd:
  assumes "\<And>r. row_view (f r) = g (row_view r)" "\<And>r. P r = P' (row_view r)"
    and "\<And>i. raw s' i = map_option (\<lambda>r. if P r then f r else r) (raw s i)"
  shows "rows s' = upd_rows P' g (rows s)"
  using assms by (auto simp: rows_def upd_rows_def fun_eq_iff option.map_comp comp_def intro!: option.map_cong)

text \<open>A call of an update statement, in whatever way it ends.\<close>

lemma update_call:
  assumes call: "pg_call pg q s = (x, s')"
    and q: "\<And>s. q s = update_where pg P (f (pg_time pg s)) s \<or> (\<exists>e. q s = (Inl e, s))"
    and f: "\<And>t. keeps (f t)" "\<And>t r. row_view (f t r) = g t (row_view r)" "\<And>r. P r = P' (row_view r)"
  shows "db_inv pg s \<Longrightarrow> db_inv pg s'"
    and "effect (err_of x) (rows s) (rows s') (\<lambda>t. upd_rows P' (g t) (rows s))"
    and "x = Inr rs \<Longrightarrow> \<exists>c t. rs = pg_order pg c (map (f t) (filter P (notifications s))) \<and>
       rows s' = upd_rows P' (g t) (rows s)"
    and "dead_letters s' = dead_letters s"
proof -
  have eff: "(db_inv pg u \<longrightarrow> db_inv pg u') \<and> dead_letters u' = dead_letters u \<and>
      ((\<exists>e. y = Inl e) \<and> rows u' = rows u \<or>
       (\<exists>rs c t. y = Inr rs \<and> rs = pg_order pg c (map (f t) (filter P (notifications u))) \<and>
          rows u' = upd_rows P' (g t) (rows u)))" if "q u = (y, u')" for u y u'
  proof (cases y)
    case (Inl e)
    then have "u' = u" using that q [of u] update_where_ok(2) f(1) by fastforce
    then show ?thesis using Inl by simp
  next
    case (Inr rs)
    then have u: "update_where pg P (f (pg_time pg u)) u = (Inr rs, u')" using that q [of u] by auto
    have "rows u' = upd_rows P' (g (pg_time pg u)) (rows u)"
      by (rule rows_upd [where P = P and f = "f (pg_time pg u)"])
        (simp_all add: f(2,3) update_where_ok(3) [OF u f(1)])
    then show ?thesis
      using Inr update_where_ok(1,4,5) [OF u f(1)] by blast
  qed
  note eff' = eff [of "s\<lparr>pg_conn := c\<rparr>" for c, simplified]
  show "db_inv pg s \<Longrightarrow> db_inv pg s'" "dead_letters s' = dead_letters s"
    using call by (cases rule: pg_call_cases; fastforce dest: eff')+
  show "effect (err_of x) (rows s) (rows s') (\<lambda>t. upd_rows P' (g t) (rows s))"
    using call by (cases rule: pg_call_cases) (auto simp: effect_def dest!: eff')
  show "\<exists>c t. rs = pg_order pg c (map (f t) (filter P (notifications s))) \<and>
       rows s' = upd_rows P' (g t) (rows s)" if "x = Inr rs"
    using call that by (cases rule: pg_call_cases) (auto dest!: eff')
qed

lemma row_error_code: "row_error pg r = Some e \<Longrightarrow> \<exists>c. e = PgError c \<and> c \<noteq> ''23505''"
  by (auto simp: row_error_def split: if_splits)

lemma update_where_error: "update_where pg P f s = (Inl e, s') \<Longrightarrow> \<exists>c. e = PgError c \<and> c \<noteq> ''23505''"
proof -
  have "first_error pg rs = Some e \<Longrightarrow> \<exists>c. e = PgError c \<and> c \<noteq> ''23505''" for rs
    by (induction rs) (auto dest: row_error_code split: option.splits)
  then show "update_where pg P f s = (Inl e, s') \<Longrightarrow> ?thesis"
    by (auto simp: update_where_def Let_def split: option.splits)
qed

lemma db_inv_row:
  assumes "db_inv pg s" "raw s i = Some r"
  shows "r \<in> set (notifications s)" "n_ID r = i" "Channel_Valid (n_Channel r)" "Priority_Valid (n_Priority r)"
    "vars_ok (r_vars r)"
proof -
  show r: "r \<in> set (notifications s)" "n_ID r = i" using raw_Some [OF assms(2)] by auto
  then have "row_error pg r = None" "vars_ok (r_vars r)" using assms(1) by (auto simp: db_inv_def)
  then show "Channel_Valid (n_Channel r)" "Priority_Valid (n_Priority r)" "vars_ok (r_vars r)"
    by (auto simp: row_error_def split: if_splits)
qed

lemma upd_rows_id:
  assumes "\<And>i n. m i = Some n \<Longrightarrow> n_ID n = i"
  shows "upd_rows (\<lambda>n. n_ID n = i) f m = m(i := map_option f (m i))"
proof
  fix j
  show "upd_rows (\<lambda>n. n_ID n = i) f m j = (m(i := map_option f (m i))) j"
    using assms [of j] by (cases "m j") (auto simp: upd_rows_def)
qed

lemma rows_mem:
  assumes "db_inv pg s" "r \<in> set (notifications s)"
  shows "rows s (n_ID r) = Some (row_view r)"
  using assms raw_mem [of s r] by (simp add: rows_def db_inv_def)

lemma rows_Some: "rows s i = Some n \<Longrightarrow> \<exists>r \<in> set (notifications s). n = row_view r \<and> n_ID r = i"
  by (auto simp: rows_def dest: raw_Some)

context pg_server
begin

lemma net_errors:
  "pg_net pg c = (LostRequest e, c') \<Longrightarrow> err_is e ErrNotFound \<Longrightarrow> False"
  "pg_net pg c = (LostReply e, c') \<Longrightarrow> err_is e ErrNotFound \<Longrightarrow> False"
  "pg_net pg c = (LostRequest (PgError ''23505''), c') \<Longrightarrow> False"
  "pg_net pg c = (LostReply (PgError ''23505''), c') \<Longrightarrow> False"
  using net_error by blast+

lemma set_order [simp]: "set (pg_order pg c rs) = set rs"
  using order by (metis set_mset_mset)

lemma distinct_order: "distinct (map f (pg_order pg c rs)) = distinct (map f rs)"
  by (metis mset_map order mset_eq_imp_distinct_iff)

lemma scan_order:
  assumes "db_inv pg s" "keeps f"
  shows "scanNotifications (pg_order pg c (map f (filter P (notifications s))))
    = Inr (map row_view (pg_order pg c (map f (filter P (notifications s)))))"
  using assms by (intro scanNotifications_ok) (auto simp: db_inv_def keeps_def)

text \<open>The rows a claim returns, as rows of the table before and after.\<close>

lemma claimed_rows:
  assumes "db_inv pg s" "rows s' = mark ids t (rows s)"
    and "rs = pg_order pg c (map (set_status StatusProcessing t)
      (filter (\<lambda>r. n_ID r \<in> set ids \<and> claimable (n_Status r)) (notifications s)))"
  shows "distinct (map n_ID (map row_view rs))"
    and "n \<in> set (map row_view rs) \<longleftrightarrow> n_ID n \<in> set ids \<and> rows s' (n_ID n) = Some n \<and>
      (\<exists>n0. rows s (n_ID n) = Some n0 \<and> claimable (n_Status n0))"
proof -
  let ?mk = "set_status StatusProcessing t"
  have id: "n_ID (?mk r) = n_ID r" for r :: nrow by (simp add: set_status_def)
  have id': "n_ID (?mk r) = n_ID r" for r :: notification by (simp add: set_status_def)
  have "distinct (map n_ID (filter P (notifications s)))" for P
    using assms(1) by (simp add: db_inv_def distinct_map_filter)
  then show "distinct (map n_ID (map row_view rs))"
    by (simp add: assms(3) distinct_order comp_def id)
  have post: "rows s' i = map_option (\<lambda>n. if n_ID n \<in> set ids \<and> claimable (n_Status n) then ?mk n else n) (rows s i)" for i
    by (simp add: assms(2) mark_def upd_rows_def)
  show "n \<in> set (map row_view rs) \<longleftrightarrow> n_ID n \<in> set ids \<and> rows s' (n_ID n) = Some n \<and>
      (\<exists>n0. rows s (n_ID n) = Some n0 \<and> claimable (n_Status n0))" (is "_ = ?R")
  proof
    assume "n \<in> set (map row_view rs)"
    then obtain r where r: "r \<in> set (notifications s)" "n_ID r \<in> set ids" "claimable (n_Status r)" "n = ?mk (row_view r)"
      by (auto simp: assms(3))
    then have n: "n_ID n = n_ID r" by (simp add: id')
    show ?R using r rows_mem [OF assms(1) r(1)] unfolding n by (simp add: post)
  next
    assume R: ?R
    then obtain n0 where n0: "rows s (n_ID n) = Some n0" "claimable (n_Status n0)" by blast
    from rows_Some [OF n0(1)] obtain r where r: "r \<in> set (notifications s)" "n0 = row_view r" "n_ID r = n_ID n"
      by blast
    then have "n = row_view (?mk r)" using R n0 by (simp add: post split: if_splits)
    moreover have "?mk r \<in> set rs" using r R n0 by (simp add: assms(3))
    ultimately show "n \<in> set (map row_view rs)" by (simp only: set_map image_eqI)
  qed
qed

lemma claim_call:
  assumes "db_inv pg s" "pg_call pg (getAndMarkProcessingBatch pg ids) s = (x, s')"
  shows "db_inv pg s'" "effect (err_of x) (rows s) (rows s') (\<lambda>t. mark ids t (rows s))"
    and "x = Inr rs \<Longrightarrow> scanNotifications rs = Inr (map row_view rs) \<and> distinct (map n_ID (map row_view rs)) \<and>
      (\<forall>n. n \<in> set (map row_view rs) \<longleftrightarrow> n_ID n \<in> set ids \<and> rows s' (n_ID n) = Some n \<and>
        (\<exists>n0. rows s (n_ID n) = Some n0 \<and> claimable (n_Status n0)))"
    and "x = Inl e \<Longrightarrow> \<not> err_is e ErrNotFound"
    and "dead_letters s' = dead_letters s"
proof -
  let ?P = "\<lambda>r :: nrow. n_ID r \<in> set ids \<and> claimable (n_Status r)"
  let ?mk = "set_status StatusProcessing"
  have q: "getAndMarkProcessingBatch pg ids s = update_where pg ?P (?mk (pg_time pg s)) s \<or>
      (\<exists>e. getAndMarkProcessingBatch pg ids s = (Inl e, s))" for s
    by (simp add: getAndMarkProcessingBatch_def)
  note u = update_call [where f = ?mk and g = ?mk and P' = "\<lambda>n. n_ID n \<in> set ids \<and> claimable (n_Status n)",
      OF assms(2) q keeps_updates(1) row_view_updates(1), simplified]
  show "db_inv pg s'" "effect (err_of x) (rows s) (rows s') (\<lambda>t. mark ids t (rows s))"
    "dead_letters s' = dead_letters s"
    using u(1,2,4) assms(1) by (simp_all add: mark_def)
  show "scanNotifications rs = Inr (map row_view rs) \<and> distinct (map n_ID (map row_view rs)) \<and>
      (\<forall>n. n \<in> set (map row_view rs) \<longleftrightarrow> n_ID n \<in> set ids \<and> rows s' (n_ID n) = Some n \<and>
        (\<exists>n0. rows s (n_ID n) = Some n0 \<and> claimable (n_Status n0)))" if "x = Inr rs"
  proof -
    from u(3) [OF that] obtain c t where rs: "rs = pg_order pg c (map (set_status StatusProcessing t)
      (filter (\<lambda>r. n_ID r \<in> set ids \<and> claimable (n_Status r)) (notifications s)))"
      and post: "rows s' = mark ids t (rows s)" by (auto simp: mark_def)
    show ?thesis
      using claimed_rows [OF assms(1) post rs] scan_order [OF assms(1), of "set_status StatusProcessing t" c]
      by (simp add: rs)
  qed
  show "\<not> err_is e ErrNotFound" if "x = Inl e"
    using assms(2) that
    by (cases rule: pg_call_cases)
      (auto simp: getAndMarkProcessingBatch_def dest!: update_where_error dest: net_errors)
qed

text \<open>The single claim is the batch claim of one identifier.\<close>

lemma getAndMarkProcessing_batch: "getAndMarkProcessing pg i = getAndMarkProcessingBatch pg [i]"
  by (simp add: fun_eq_iff getAndMarkProcessing_def getAndMarkProcessingBatch_def)

lemma GetAndMarkProcessing_call:
  assumes "db_inv pg s" "NotificationRepo_GetAndMarkProcessing pg i s = (x, s')"
  shows "db_inv pg s'" "effect (err_of x) (rows s) (rows s') (\<lambda>t. mark [i] t (rows s))"
    and "x = Inr n \<Longrightarrow> (\<exists>n0. rows s i = Some n0 \<and> claimable (n_Status n0)) \<and> rows s' i = Some n"
    and "x = Inl e \<Longrightarrow> err_is e ErrNotFound \<Longrightarrow>
      rows s' = rows s \<and> (\<forall>n0. rows s i = Some n0 \<longrightarrow> \<not> claimable (n_Status n0))"
    and "dead_letters s' = dead_letters s"
proof -
  obtain y where call: "pg_call pg (getAndMarkProcessingBatch pg [i]) s = (y, s')"
    and x: "x = (case y of Inl e \<Rightarrow> Inl (Wrap ''get and mark processing'' e) | Inr [] \<Rightarrow> Inl ErrNotFound
      | Inr (r # _) \<Rightarrow> scanNotification r)"
    using assms(2) by (auto simp: NotificationRepo_GetAndMarkProcessing_def getAndMarkProcessing_batch
        split: prod.splits sum.splits list.splits)
  note c = claim_call [OF assms(1) call]
  have scan: "scanNotification r = Inr (row_view r)" if "y = Inr (r # rs)" for r rs
    using c(3) [OF that] by (auto split: sum.splits)
  show "db_inv pg s'" "dead_letters s' = dead_letters s" by (rule c)+
  show "effect (err_of x) (rows s) (rows s') (\<lambda>t. mark [i] t (rows s))"
    using c(2) scan by (cases y) (auto simp: x effect_def split: list.splits)
  show "(\<exists>n0. rows s i = Some n0 \<and> claimable (n_Status n0)) \<and> rows s' i = Some n" if xn: "x = Inr n"
  proof -
    obtain r rs where "y = Inr (r # rs)" using xn x by (auto split: sum.splits list.splits)
    moreover have "n = row_view r" using xn x calculation scan by simp
    ultimately show ?thesis using c(3) by fastforce
  qed
  show "rows s' = rows s \<and> (\<forall>n0. rows s i = Some n0 \<longrightarrow> \<not> claimable (n_Status n0))"
    if xe: "x = Inl e" "err_is e ErrNotFound"
  proof -
    have y: "y = Inr []" using xe x c(4) scan by (auto split: sum.splits list.splits)
    have none: "\<not> claimable (n_Status n0)" if n0: "rows s i = Some n0" for n0
    proof
      assume cl: "claimable (n_Status n0)"
      have id: "n_ID n0 = i" using rows_Some [OF n0] by auto
      from c(2) y obtain t where t: "rows s' = mark [i] t (rows s)" by (auto simp: effect_def)
      then have "rows s' i = Some (set_status StatusProcessing t n0)" using n0 cl id by (simp add: mark_def upd_rows_def)
      then show False using c(3) [OF y] n0 cl id by (auto dest!: spec [of _ "set_status StatusProcessing t n0"] simp: set_status_def)
    qed
    from c(2) y obtain t where t: "rows s' = mark [i] t (rows s)" by (auto simp: effect_def)
    have "rows s' = rows s"
    proof
      fix j
      show "rows s' j = rows s j"
        using none rows_Some [of s j] by (cases "rows s j") (auto simp: t mark_def upd_rows_def)
    qed
    then show ?thesis using none by blast
  qed
qed

lemma update_ok_calls:
  assumes "db_inv pg s"
  shows "NotificationRepo_UpdateStatus pg i st s = (e, s') \<Longrightarrow>
      db_inv pg s' \<and> effect e (rows s) (rows s') (\<lambda>t. upd_rows (\<lambda>n. n_ID n = i) (set_status st t) (rows s))"
    and "NotificationRepo_UpdateStatusWithError pg i st em a s = (e, s') \<Longrightarrow>
      db_inv pg s' \<and> effect e (rows s) (rows s') (\<lambda>t. upd_rows (\<lambda>n. n_ID n = i) (set_error st em a t) (rows s))"
    and "NotificationRepo_UpdateSent pg i pid s = (e, s') \<Longrightarrow>
      db_inv pg s' \<and> effect e (rows s) (rows s') (\<lambda>t. upd_rows (\<lambda>n. n_ID n = i) (set_sent pid t) (rows s))"
    and "NotificationRepo_UpdateBatchStatus pg ids st s = (e, s') \<Longrightarrow>
      db_inv pg s' \<and> effect e (rows s) (rows s') (\<lambda>t. upd_rows (\<lambda>n. n_ID n \<in> set ids) (set_status st t) (rows s))"
proof -
  have *: "db_inv pg s' \<and> effect e (rows s) (rows s') (\<lambda>t. upd_rows P' (g t) (rows s))"
    if call: "(let (x, s1) = pg_call pg q s in (err_of x, s1)) = (e, s')"
      and q: "\<And>s. q s = update_where pg P (f (pg_time pg s)) s \<or> (\<exists>e. q s = (Inl e, s))"
      "\<And>t. keeps (f t)" "\<And>t r. row_view (f t r) = g t (row_view r)" "\<And>r. P r = P' (row_view r)"
    for q :: "('p, nrow list) stmt" and P P' f g
  proof -
    obtain x where "pg_call pg q s = (x, s')" "e = err_of x" using call by (auto split: prod.splits)
    then show ?thesis using update_call(1,2) [OF _ q] assms by blast
  qed
  show "NotificationRepo_UpdateStatus pg i st s = (e, s') \<Longrightarrow>
      db_inv pg s' \<and> effect e (rows s) (rows s') (\<lambda>t. upd_rows (\<lambda>n. n_ID n = i) (set_status st t) (rows s))"
    unfolding NotificationRepo_UpdateStatus_def
    by (rule * [where P = "\<lambda>r. n_ID r = i" and f = "set_status st"], assumption) (simp_all add: updateNotificationStatus_def)
  show "NotificationRepo_UpdateStatusWithError pg i st em a s = (e, s') \<Longrightarrow>
      db_inv pg s' \<and> effect e (rows s) (rows s') (\<lambda>t. upd_rows (\<lambda>n. n_ID n = i) (set_error st em a t) (rows s))"
    unfolding NotificationRepo_UpdateStatusWithError_def
    by (rule * [where P = "\<lambda>r. n_ID r = i" and f = "set_error st em a"], assumption) (simp_all add: updateNotificationStatusWithError_def)
  show "NotificationRepo_UpdateSent pg i pid s = (e, s') \<Longrightarrow>
      db_inv pg s' \<and> effect e (rows s) (rows s') (\<lambda>t. upd_rows (\<lambda>n. n_ID n = i) (set_sent pid t) (rows s))"
    unfolding NotificationRepo_UpdateSent_def
    by (rule * [where P = "\<lambda>r. n_ID r = i" and f = "set_sent pid"], assumption) (simp_all add: updateNotificationSent_def)
  show "NotificationRepo_UpdateBatchStatus pg ids st s = (e, s') \<Longrightarrow>
      db_inv pg s' \<and> effect e (rows s) (rows s') (\<lambda>t. upd_rows (\<lambda>n. n_ID n \<in> set ids) (set_status st t) (rows s))"
    unfolding NotificationRepo_UpdateBatchStatus_def
    by (rule * [where P = "\<lambda>r. n_ID r \<in> set ids" and f = "set_status st"], assumption) (simp_all add: updateBatchStatus_def)
qed

lemma updateNotificationSent_stmt:
  assumes "updateNotificationSent pg i p s = (x, s')"
  shows "db_inv pg s \<Longrightarrow> db_inv pg s'" "pg_conn s' = pg_conn s" "dead_letters s' = dead_letters s"
    and "x = Inl e \<Longrightarrow> s' = s"
    and "x = Inr rs \<Longrightarrow> rows s' = upd_rows (\<lambda>n. n_ID n = i) (set_sent p (pg_time pg s)) (rows s)"
proof -
  let ?u = "update_where pg (\<lambda>r. n_ID r = i) (set_sent p (pg_time pg s)) s"
  have u: "s' = s \<and> (\<exists>e. x = Inl e) \<or> ?u = (x, s')"
    using assms by (auto simp: updateNotificationSent_def split: if_splits)
  note w = update_where_ok [of pg "\<lambda>r. n_ID r = i" "set_sent p (pg_time pg s)" s x s', OF _ keeps_updates(3)]
  show "db_inv pg s \<Longrightarrow> db_inv pg s'" "dead_letters s' = dead_letters s" "x = Inl e \<Longrightarrow> s' = s"
    using u w(1,2,5) by blast+
  show "pg_conn s' = pg_conn s" using u by (auto simp: update_where_def Let_def split: option.splits)
  show "rows s' = upd_rows (\<lambda>n. n_ID n = i) (set_sent p (pg_time pg s)) (rows s)" if "x = Inr rs"
    by (rule rows_upd [where P = "\<lambda>r. n_ID r = i" and f = "set_sent p (pg_time pg s)"])
      (use u w(3) that in auto)
qed

lemma pg_all_error: "pg_all fs s = (Inl e, s') \<Longrightarrow> s' = s"
  by (cases fs) (auto split: prod.splits sum.splits)

lemma sent_all:
  assumes "pg_all (map (\<lambda>(i, p). updateNotificationSent pg i p) l) s = (x, s')"
  shows "(db_inv pg s \<longrightarrow> db_inv pg s') \<and> dead_letters s' = dead_letters s \<and>
    (x = Inr () \<longrightarrow> rows s' = mark_sent l (pg_time pg s) (rows s))"
  using assms
proof (induction l arbitrary: s)
  case Nil
  then show ?case by (simp add: mark_sent_def)
next
  case (Cons ip l)
  obtain i p where ip: "ip = (i, p)" by fastforce
  show ?case
  proof (cases x)
    case (Inl e)
    then show ?thesis using Cons.prems pg_all_error by fastforce
  next
    case (Inr u)
    then obtain rs s1 where s1: "updateNotificationSent pg i p s = (Inr rs, s1)"
      "pg_all (map (\<lambda>(i, p). updateNotificationSent pg i p) l) s1 = (Inr (), s')"
      using Cons.prems ip by (auto split: prod.splits sum.splits)
    note u = updateNotificationSent_stmt [OF s1(1)]
    have "pg_time pg s1 = pg_time pg s" using u(2) by (simp add: pg_time_def)
    then show ?thesis
      using Cons.IH [of s1] s1(2) Inr u(1,3,5) by (simp add: ip mark_sent_def)
  qed
qed

lemma UpdateBatchSent_call:
  assumes "db_inv pg s" "NotificationRepo_UpdateBatchSent pg ids pids s = (e, s')"
  shows "db_inv pg s' \<and> effect e (rows s) (rows s') (\<lambda>t. mark_sent (zip ids pids) t (rows s))"
    "dead_letters s' = dead_letters s"
proof -
  let ?q = "pg_all (map (\<lambda>(i, p). updateNotificationSent pg i p) (zip ids pids))"
  obtain x where call: "pg_call pg ?q s = (x, s')"
    and e: "e = (case x of Inl e \<Rightarrow> if ids = [] then None else Some (Wrap ''batch update sent'' e) | Inr _ \<Rightarrow> None)"
    using assms(2) by (auto simp: NotificationRepo_UpdateBatchSent_def split: prod.splits sum.splits)
  have eff: "(db_inv pg u \<longrightarrow> db_inv pg u') \<and> dead_letters u' = dead_letters u \<and>
      ((\<exists>t. rows u' = mark_sent (zip ids pids) t (rows u)) \<or> (\<exists>er. y = Inl er) \<and> u' = u)" if "?q u = (y, u')" for y u u'
  proof (cases y)
    case (Inl er)
    then show ?thesis using pg_all_error that by auto
  next
    case (Inr u)
    then show ?thesis using sent_all [OF that] by auto
  qed
  have nil: "ids = [] \<Longrightarrow> rows s = mark_sent (zip ids pids) t (rows s)" for t by (simp add: mark_sent_def)
  show "db_inv pg s' \<and> effect e (rows s) (rows s') (\<lambda>t. mark_sent (zip ids pids) t (rows s))"
    using call
  proof (cases rule: pg_call_cases)
    case (answered c)
    then show ?thesis using eff [OF answered(2)] assms(1) nil by (auto simp: effect_def e)
  next
    case (lost er c)
    then show ?thesis using assms(1) nil by (auto simp: effect_def e)
  next
    case (unknown er c y)
    then show ?thesis using eff [OF unknown(2)] assms(1) nil by (auto simp: effect_def e)
  qed
  show "dead_letters s' = dead_letters s"
    using call by (cases rule: pg_call_cases) (auto dest!: eff)
qed

end

sublocale pg_server \<subseteq> repo: notification_store "NotificationRepo_GetAndMarkProcessing pg"
  "NotificationRepo_GetAndMarkProcessingBatch pg" "NotificationRepo_UpdateStatus pg"
  "NotificationRepo_UpdateStatusWithError pg" "NotificationRepo_UpdateSent pg"
  "NotificationRepo_UpdateBatchSent pg" rows "db_inv pg"
proof unfold_locales
  fix s i n assume s: "db_inv pg s" "rows s i = Some n"
  then obtain r where r: "raw s i = Some r" "n = row_view r" by (auto simp: rows_def)
  show "n_ID n = i \<and> Channel_Valid (n_Channel n) \<and> Priority_Valid (n_Priority n)"
    using db_inv_row [OF s(1) r(1)] r(2) by simp
next
  fix ids s y s'
  assume "db_inv pg s" "NotificationRepo_GetAndMarkProcessingBatch pg ids s = (y, s')"
  then obtain x where c: "db_inv pg s" "pg_call pg (getAndMarkProcessingBatch pg ids) s = (x, s')"
    and y: "y = (case x of Inl e \<Rightarrow> Inl (Wrap ''get and mark processing batch'' e) | Inr rs \<Rightarrow> scanNotifications rs)"
    by (auto simp: NotificationRepo_GetAndMarkProcessingBatch_def query_rows_def split: prod.splits sum.splits)
  show "db_inv pg s'" by (rule claim_call [OF c])
  show "effect (err_of y) (rows s) (rows s') (\<lambda>t. mark ids t (rows s))"
    using claim_call(2,3) [OF c] by (cases x) (auto simp: y effect_def)
next
  fix ids s ns s'
  assume "db_inv pg s" "NotificationRepo_GetAndMarkProcessingBatch pg ids s = (Inr ns, s')"
  then obtain rs where c: "db_inv pg s" "pg_call pg (getAndMarkProcessingBatch pg ids) s = (Inr rs, s')"
    and ns: "scanNotifications rs = Inr ns"
    by (auto simp: NotificationRepo_GetAndMarkProcessingBatch_def query_rows_def split: prod.splits sum.splits)
  then show "distinct (map n_ID ns) \<and>
          (\<forall>n. n \<in> set ns \<longleftrightarrow> n_ID n \<in> set ids \<and> rows s' (n_ID n) = Some n \<and>
             (\<exists>n0. rows s (n_ID n) = Some n0 \<and> claimable (n_Status n0)))"
    using claim_call(3) [OF c refl] by simp
qed (erule (1) GetAndMarkProcessing_call(1), erule (1) GetAndMarkProcessing_call(2),
     erule (1) GetAndMarkProcessing_call(3) [OF _ _ refl], erule (2) GetAndMarkProcessing_call(4) [OF _ _ refl],
     erule (1) update_ok_calls(1), erule (1) update_ok_calls(2), erule (1) update_ok_calls(3),
     rule UpdateBatchSent_call(1), assumption+)

section \<open>Inserting and reading\<close>

text \<open>The row of a notification whose variables the server accepts.\<close>

definition stored :: "'p pg \<Rightarrow> notification \<Rightarrow> nrow" where
  "stored pg n = (case pg_jsonb pg (Marshal_vars (n_TemplateVars n)) of Inr j \<Rightarrow> new_row pg n j | Inl _ \<Rightarrow> new_row pg n JNull)"

lemma new_row_fields [simp]:
  "n_ID (new_row pg n j) = n_ID n" "n_IdempotencyKey (new_row pg n j) = n_IdempotencyKey n"
  "n_Status (new_row pg n j) = n_Status n" "r_vars (new_row pg n j) = Some j"
  "n_TemplateID (new_row pg n j) = n_TemplateID n"
  by (simp_all add: new_row_def notification.defs nrow.defs)

lemma stored_fields [simp]:
  "n_ID (stored pg n) = n_ID n" "n_IdempotencyKey (stored pg n) = n_IdempotencyKey n" "n_Status (stored pg n) = n_Status n"
  by (simp_all add: stored_def split: sum.splits)

lemma keys_of_append [simp]: "keys_of (xs @ ys) = keys_of xs @ keys_of ys"
  by (simp add: keys_of_def List.map_filter_def)

lemma keys_of_mem: "k \<in> set (keys_of rs) \<longleftrightarrow> (\<exists>r \<in> set rs. n_IdempotencyKey r = Some k)"
  by (force simp: keys_of_def List.map_filter_def)

lemma insertNotification_inv:
  assumes "insertNotification pg r s = (x, s')" "db_inv pg s" "vars_ok (r_vars r)"
  shows "db_inv pg s'"
proof (cases "s' = s")
  case False
  then have s': "s' = s\<lparr>notifications := notifications s @ [r]\<rparr>" and r: "row_error pg r = None"
    "\<not> key_taken r (notifications s)" "\<not> template_missing r s"
    using assms(1) by (auto simp: insertNotification_def split: option.splits if_splits)
  have k: "n_IdempotencyKey r = Some k \<Longrightarrow> k \<notin> set (keys_of (notifications s))" for k
    using r(2) by (auto simp: key_taken_def keys_of_mem)
  have "distinct (keys_of (notifications s @ [r]))"
    using assms(2) k by (auto simp: db_inv_def keys_of_def List.map_filter_def)
  moreover have "n_ID r \<notin> n_ID ` set (notifications s)" using r(2) by (auto simp: key_taken_def)
  moreover have "template_missing r' s' = template_missing r' s" for r'
    by (rule template_missing_cong) (simp add: s')
  ultimately show ?thesis using assms(2,3) r(1,3) by (simp add: db_inv_def s')
qed (use assms in simp)

context pg_server
begin

lemma vars_ok_stored: "pg_jsonb pg (Marshal_vars v) = Inr j \<Longrightarrow> vars_ok (Some j)"
  by (auto simp: Marshal_vars_def vars_ok_def jsonb_null dest!: jsonb_object split: option.splits)

lemma insert_stmt_effect:
  assumes "insert_stmt pg n s = (x, s')"
  shows "db_inv pg s \<Longrightarrow> db_inv pg s'" "pg_conn s' = pg_conn s"
    and "x = Inl e \<Longrightarrow> s' = s"
    and "x = Inl (PgError ''23505'') \<Longrightarrow> key_taken (stored pg n) (notifications s)"
    and "x = Inr () \<Longrightarrow> s' = s\<lparr>notifications := notifications s @ [stored pg n]\<rparr> \<and>
      \<not> key_taken (stored pg n) (notifications s)"
proof -
  have x: "(\<exists>e. x = Inl e \<and> e \<noteq> PgError ''23505'') \<and> s' = s \<or>
      (\<exists>j. pg_jsonb pg (Marshal_vars (n_TemplateVars n)) = Inr j \<and> insertNotification pg (stored pg n) s = (x, s')
        \<and> vars_ok (r_vars (stored pg n)))"
    using assms jsonb_error by (auto simp: insert_stmt_def stored_def vars_ok_stored split: sum.splits)
  show "db_inv pg s \<Longrightarrow> db_inv pg s'" using x insertNotification_inv by blast
  show "pg_conn s' = pg_conn s" "x = Inl e \<Longrightarrow> s' = s"
    using x by (auto simp: insertNotification_def split: option.splits if_splits)
  show "x = Inl (PgError ''23505'') \<Longrightarrow> key_taken (stored pg n) (notifications s)"
    using x by (auto simp: insertNotification_def dest: row_error_code split: option.splits if_splits)
  show "x = Inr () \<Longrightarrow> s' = s\<lparr>notifications := notifications s @ [stored pg n]\<rparr> \<and>
      \<not> key_taken (stored pg n) (notifications s)"
    using x by (auto simp: insertNotification_def split: option.splits if_splits)
qed

text \<open>A batch of inserts stores all rows or none.\<close>

lemma insert_all_effect:
  assumes "pg_all (map (insert_stmt pg) ns) s = (x, s')"
  shows "(db_inv pg s \<longrightarrow> db_inv pg s') \<and> ((\<exists>e. x = Inl e) \<longrightarrow> s' = s) \<and>
    (x = Inr () \<longrightarrow> s' = s\<lparr>notifications := notifications s @ map (stored pg) ns\<rparr>)"
  using assms
proof (induction ns arbitrary: s)
  case Nil
  then show ?case by auto
next
  case (Cons n ns)
  show ?case
  proof (cases x)
    case (Inl e)
    then show ?thesis using Cons.prems pg_all_error by fastforce
  next
    case (Inr u)
    then obtain s1 where s1: "insert_stmt pg n s = (Inr (), s1)"
      "pg_all (map (insert_stmt pg) ns) s1 = (Inr (), s')"
      using Cons.prems by (auto split: prod.splits sum.splits)
    show ?thesis
      using Cons.IH [of s1] s1(2) Inr insert_stmt_effect(1,5) [OF s1(1)] by auto
  qed
qed

lemma CreateBatch_effect:
  assumes "NotificationRepo_CreateBatch pg ns s = (e, s')"
  shows "(db_inv pg s \<longrightarrow> db_inv pg s') \<and>
    (e = None \<longrightarrow> notifications s' = notifications s @ map (stored pg) ns) \<and>
    (notifications s' = notifications s \<or> notifications s' = notifications s @ map (stored pg) ns)"
proof -
  obtain x where call: "pg_call pg (pg_all (map (insert_stmt pg) ns)) s = (x, s')"
    and e: "e = (case x of Inl er \<Rightarrow> if ns = [] then None else Some (if er = PgError ''23505'' then ErrDuplicateKey
                else Wrap ''batch insert notification'' er) | Inr _ \<Rightarrow> None)"
    using assms by (auto simp: NotificationRepo_CreateBatch_def split: prod.splits sum.splits)
  from call show ?thesis
  proof (cases rule: pg_call_cases)
    case (answered c)
    then show ?thesis using insert_all_effect [OF answered(2)] by (cases x) (auto simp: e)
  next
    case (lost er c)
    then show ?thesis by (auto simp: e)
  next
    case (unknown er c y)
    then show ?thesis using insert_all_effect [OF unknown(2)] by (cases y) (auto simp: e)
  qed
qed

end

section \<open>Lists\<close>

definition matches :: "'p pg \<Rightarrow> notification_filter \<Rightarrow> notification \<Rightarrow> bool" where
  "matches pg f n =
     ((case f_Channel f of None \<Rightarrow> True | Some c \<Rightarrow> n_Channel n = c) \<and>
      (case f_Status f of None \<Rightarrow> True | Some st \<Rightarrow> n_Status n = st) \<and>
      (case f_Priority f of None \<Rightarrow> True | Some p \<Rightarrow> n_Priority n = p) \<and>
      (case f_Cursor f of None \<Rightarrow> True | Some t \<Rightarrow> n_CreatedAt n < pg_ts pg t))"

text \<open>The placeholders of the built query refer to the arguments they were added with.\<close>

lemma base_conditions_spec:
  assumes "base_conditions f = (conds, args, k)"
  shows "k = length args + 1"
    and "where_holds pg conds (args @ rest) r = matches pg (f\<lparr>f_Cursor := None\<rparr>) (row_view r)"
  using assms
  by (cases "f_Channel f"; cases "f_Status f"; cases "f_Priority f";
      auto simp: base_conditions_def add_cond_def where_holds_def matches_def placeholder_def nth_append)+

lemma where_holds_append:
  "where_holds pg (cs @ ds) args r = (where_holds pg cs args r \<and> where_holds pg ds args r)"
  by (simp add: where_holds_def)

lemma list_conditions_spec:
  assumes "list_conditions f = (conds, args, k)"
  shows "k = length args + 1"
    and "where_holds pg conds (args @ rest) r = matches pg f (row_view r)"
proof -
  obtain bc ba bk where b: "base_conditions f = (bc, ba, bk)" by (cases "base_conditions f") auto
  note base = base_conditions_spec [OF b]
  show "k = length args + 1"
    using assms base(1) by (auto simp: list_conditions_def add_cond_def b split: option.splits)
  show "where_holds pg conds (args @ rest) r = matches pg f (row_view r)"
  proof (cases "f_Cursor f")
    case None
    then show ?thesis using assms base(2) by (simp add: list_conditions_def add_cond_def b matches_def)
  next
    case (Some t)
    then have "conds = bc @ [CreatedBefore bk]" "args = ba @ [ATime t]"
      using assms by (auto simp: list_conditions_def add_cond_def b)
    then show ?thesis
      using base(2) [of pg "ATime t # rest"] Some base(1)
      by (simp add: where_holds_append) (simp add: where_holds_def matches_def placeholder_def nth_append)
  qed
qed

text \<open>A call of a reading statement changes nothing but the connection.\<close>

definition same_db :: "'p pgdb \<Rightarrow> 'p pgdb \<Rightarrow> bool" where
  "same_db s s' = (\<exists>c. s' = s\<lparr>pg_conn := c\<rparr>)"

lemma same_db_trans: "same_db s s1 \<Longrightarrow> same_db s1 s2 \<Longrightarrow> same_db s s2"
  by (auto simp: same_db_def)

lemma same_dbD:
  "same_db s s' \<Longrightarrow> notifications s' = notifications s" "same_db s s' \<Longrightarrow> db_inv pg s' = db_inv pg s"
  by (auto simp: same_db_def)

lemma pg_call_same:
  assumes "pg_call pg q s = (x, s')" "\<And>u. snd (q u) = u"
  shows "same_db s s'"
  using assms(1)
  by (cases rule: pg_call_cases) (auto simp: same_db_def dest!: arg_cong [of _ _ snd] simp: assms(2))

lemma pg_call_read:
  assumes "pg_call pg q s = (Inr y, s')" "\<And>u. snd (q u) = u"
  shows "notifications s' = notifications s \<and> (\<exists>c. fst (q (s\<lparr>pg_conn := c\<rparr>)) = Inr y)"
  using assms(1)
proof (cases rule: pg_call_cases)
  case (answered c)
  then have "s' = s\<lparr>pg_conn := c\<rparr>" using assms(2) [of "s\<lparr>pg_conn := c\<rparr>"] by simp
  then show ?thesis using answered(2) by (auto intro: exI [of _ c])
qed simp_all

context pg_server
begin

lemma data_query_result:
  assumes "db_inv pg s" "list_conditions f = (conds, args, k)"
    and "fst (data_query pg conds (args @ AInt l # rest) k off s) = Inr rs" "0 \<le> l"
    and "off = None \<and> o' = 0 \<or> (\<exists>o1. off = Some (k + 1) \<and> rest = [AInt o1] \<and> o' = o1)"
  shows "\<exists>all. mset all = mset (filter (matches pg f) (map row_view (notifications s))) \<and>
    sorted_wrt (\<lambda>a b. n_CreatedAt b \<le> n_CreatedAt a) all \<and>
    scanNotifications rs = Inr (take (nat l) (drop (nat o') all)) \<and> 0 \<le> o'"
proof -
  let ?rows = "sort_key (\<lambda>r. - n_CreatedAt r)
     (pg_order pg (pg_conn s) (filter (where_holds pg conds (args @ AInt l # rest)) (notifications s)))"
  note spec = list_conditions_spec [OF assms(2)]
  have args: "int_arg (args @ AInt l # rest) k = l"
    "\<And>o1. rest = [AInt o1] \<Longrightarrow> int_arg (args @ AInt l # rest) (k + 1) = o1"
    by (simp_all add: int_arg_def placeholder_def nth_append spec(1))
  have rs: "rs = take (nat l) (drop (nat o') ?rows)" "0 \<le> o'"
    using assms(3,5) args by (auto simp: data_query_def Let_def split: if_splits)
  have "sorted (map (\<lambda>r. - n_CreatedAt r) ?rows)" by (rule sorted_sort_key)
  then have "sorted_wrt (\<lambda>a b. n_CreatedAt b \<le> n_CreatedAt a) (map row_view ?rows)"
    by (simp add: sorted_wrt_map)
  moreover have "mset (map row_view ?rows) = mset (filter (matches pg f) (map row_view (notifications s)))"
    by (simp add: order filter_map comp_def spec(2))
  moreover have "scanNotifications rs = Inr (map row_view rs)"
    using assms(1) by (intro scanNotifications_ok) (auto simp: rs(1) db_inv_def dest!: in_set_takeD in_set_dropD)
  ultimately show ?thesis
    using rs by (intro exI [of _ "map row_view ?rows"]) (simp add: take_map drop_map)
qed

lemma query_snd: "snd (count_query pg c a u) = u" "snd (estimate_query pg u) = u"
  "snd (data_query pg c a l off u) = u"
  by (simp_all add: count_query_def estimate_query_def data_query_def Let_def)

lemma list_total_same:
  assumes "list_total pg f s = (x, s')"
  shows "same_db s s'"
proof -
  have cq: "same_db u u'" if "pg_call pg (count_query pg c a) u = (y, u')" for c a y u u'
    by (rule pg_call_same [OF that query_snd(1)])
  have eq: "same_db u u'" if "pg_call pg (estimate_query pg) u = (y, u')" for y u u'
    by (rule pg_call_same [OF that query_snd(2)])
  obtain bc ba bk where b: "base_conditions f = (bc, ba, bk)" by (cases "base_conditions f") auto
  show ?thesis
    using assms b by (auto simp: list_total_def dest: cq eq intro: same_db_trans [OF eq cq]
        split: if_splits prod.splits sum.splits)
qed

lemma list_total_result:
  assumes "list_total pg f s = (Inr ttl, s')" "list_conditions f \<noteq> ([], [], 1)"
  shows "ttl = int (length (filter (matches pg (f\<lparr>f_Cursor := None\<rparr>)) (map row_view (notifications s))))"
proof -
  obtain conds args k where l: "list_conditions f = (conds, args, k)" by (cases "list_conditions f") auto
  obtain bc ba bk where b: "base_conditions f = (bc, ba, bk)" by (cases "base_conditions f") auto
  have "conds \<noteq> []"
    using l assms(2) by (cases "f_Channel f"; cases "f_Status f"; cases "f_Priority f"; cases "f_Cursor f")
      (auto simp: list_conditions_def base_conditions_def add_cond_def)
  then have "pg_call pg (count_query pg bc ba) s = (Inr ttl, s')"
    using assms(1) by (auto simp: list_total_def l b split: prod.splits sum.splits)
  from pg_call_read [OF this query_snd(1)] base_conditions_spec(2) [OF b, of pg "[]"]
  show ?thesis by (auto simp: count_query_def filter_map comp_def split: if_splits cong: filter_cong)
qed

lemma List_result:
  assumes "db_inv pg s" "NotificationRepo_List pg f s = (Inr (ns, ttl), s')"
  shows "\<exists>all. mset all = mset (filter (matches pg f) (map row_view (notifications s))) \<and>
      sorted_wrt (\<lambda>a b. n_CreatedAt b \<le> n_CreatedAt a) all \<and>
      ns = take (nat (if f_Limit f \<le> 0 then 20 else f_Limit f))
        (drop (if f_Cursor f = None then nat (f_Offset f) else 0) all)"
proof -
  obtain conds args k where l: "list_conditions f = (conds, args, k)" by (cases "list_conditions f") auto
  let ?l = "if f_Limit f \<le> 0 then 20 else f_Limit f"
  let ?rest = "if f_Cursor f = None then [AInt (f_Offset f)] else []"
  let ?off = "if f_Cursor f = None then Some (k + 1) else None"
  let ?q = "data_query pg conds (args @ AInt ?l # ?rest) k ?off"
  obtain s1 where s1: "list_total pg f s = (Inr ttl, s1)"
    and q: "query_rows pg ''list notifications'' ?q s1 = (Inr ns, s')"
    using assms(2) by (auto simp: NotificationRepo_List_def l Let_def split: prod.splits sum.splits if_splits)
  then obtain rs where rs: "pg_call pg ?q s1 = (Inr rs, s')" "scanNotifications rs = Inr ns"
    by (auto simp: query_rows_def split: prod.splits sum.splits)
  have inv: "db_inv pg (s1\<lparr>pg_conn := c\<rparr>)" "notifications (s1\<lparr>pg_conn := c\<rparr>) = notifications s" for c
    using same_dbD [OF list_total_same [OF s1]] assms(1) by simp_all
  from pg_call_read [OF rs(1) query_snd(3)] obtain c where "fst (?q (s1\<lparr>pg_conn := c\<rparr>)) = Inr rs" by blast
  from data_query_result [OF inv(1) l this, of "if f_Cursor f = None then f_Offset f else 0"] rs(2)
  show ?thesis by (cases "f_Cursor f") (auto simp: inv(2))
qed

end

section \<open>The repository as a whole\<close>

datatype repo_op =
    OpCreate notification | OpCreateBatch "notification list"
  | OpUpdateStatus uuid status | OpUpdateStatusWithError uuid status string int
  | OpUpdateSent uuid string | OpUpdateBatchStatus "uuid list" status
  | OpUpdateBatchSent "uuid list" "string list"
  | OpGetAndMarkProcessing uuid | OpGetAndMarkProcessingBatch "uuid list"
  | OpHandle uuid time uuid string int

fun repo_exec :: "'p pg \<Rightarrow> repo_op \<Rightarrow> 'p pgdb \<Rightarrow> 'p pgdb" where
  "repo_exec pg (OpCreate n) s = snd (NotificationRepo_Create pg n s)"
| "repo_exec pg (OpCreateBatch ns) s = snd (NotificationRepo_CreateBatch pg ns s)"
| "repo_exec pg (OpUpdateStatus i st) s = snd (NotificationRepo_UpdateStatus pg i st s)"
| "repo_exec pg (OpUpdateStatusWithError i st em a) s = snd (NotificationRepo_UpdateStatusWithError pg i st em a s)"
| "repo_exec pg (OpUpdateSent i p) s = snd (NotificationRepo_UpdateSent pg i p s)"
| "repo_exec pg (OpUpdateBatchStatus ids st) s = snd (NotificationRepo_UpdateBatchStatus pg ids st s)"
| "repo_exec pg (OpUpdateBatchSent ids ps) s = snd (NotificationRepo_UpdateBatchSent pg ids ps s)"
| "repo_exec pg (OpGetAndMarkProcessing i) s = snd (NotificationRepo_GetAndMarkProcessing pg i s)"
| "repo_exec pg (OpGetAndMarkProcessingBatch ids) s = snd (NotificationRepo_GetAndMarkProcessingBatch pg ids s)"
| "repo_exec pg (OpHandle fresh t i em a) s = snd (DeadLetterHandler_Handle pg fresh t i em a s)"

text \<open>Claims of several workers, one after the other in any order; a failed claim returns nothing.\<close>

fun claim_run :: "'p pg \<Rightarrow> uuid list list \<Rightarrow> 'p pgdb \<Rightarrow> uuid list list" where
  "claim_run pg [] s = []"
| "claim_run pg (ids # idss) s =
     (let (x, s1) = NotificationRepo_GetAndMarkProcessingBatch pg ids s
      in (case x of Inl _ \<Rightarrow> [] | Inr ns \<Rightarrow> map n_ID ns) # claim_run pg idss s1)"

definition empty_db :: "'p \<Rightarrow> 'p pgdb" where
  "empty_db c = \<lparr>pg_conn = c, notifications = [], templates = [], dead_letters = []\<rparr>"

lemma db_inv_empty: "db_inv pg (empty_db c)"
  by (simp add: db_inv_def empty_db_def keys_of_def)

lemma snd_inv: "(\<And>x s'. p = (x, s') \<Longrightarrow> db_inv pg s') \<Longrightarrow> db_inv pg (snd p)"
  by (cases p) simp

lemma Handle_rows:
  assumes "DeadLetterHandler_Handle pg fresh t i em a s = (e, s')"
  shows "rows s' = rows s"
proof -
  define d where "d = \<lparr>d_ID = fresh, d_NotificationID = i, d_LastError = em, d_Attempts = a, d_FailedAt = pg_ts pg t\<rparr>"
  obtain x where "pg_call pg (insertDeadLetter pg d) s = (x, s')"
    using assms by (auto simp: DeadLetterHandler_Handle_def d_def split: prod.splits sum.splits)
  then show ?thesis
    by (cases rule: pg_call_cases)
      (auto simp: insertDeadLetter_def rows_def raw_def fun_eq_iff split: if_splits)
qed

lemma Handle_inv:
  assumes "DeadLetterHandler_Handle pg fresh t i em a s = (e, s')" "db_inv pg s"
  shows "db_inv pg s'"
proof -
  define d where "d = \<lparr>d_ID = fresh, d_NotificationID = i, d_LastError = em, d_Attempts = a, d_FailedAt = pg_ts pg t\<rparr>"
  obtain x where "pg_call pg (insertDeadLetter pg d) s = (x, s')"
    using assms(1) by (auto simp: DeadLetterHandler_Handle_def d_def split: prod.splits sum.splits)
  moreover have "db_inv pg u'" if "insertDeadLetter pg d u = (y, u')" "db_inv pg u" for y u u'
    using that template_missing_cong [of "u\<lparr>dead_letters := dead_letters u @ [d]\<rparr>" u]
    by (auto simp: insertDeadLetter_def db_inv_def split: if_splits)
  ultimately show ?thesis using assms(2) by (cases rule: pg_call_cases) auto
qed

context pg_server
begin

lemma Create_effect:
  assumes "NotificationRepo_Create pg n s = (e, s')"
  shows "db_inv pg s \<Longrightarrow> db_inv pg s'"
    and "e = None \<Longrightarrow> notifications s' = notifications s @ [stored pg n] \<and> \<not> key_taken (stored pg n) (notifications s)"
    and "notifications s' = notifications s \<or> notifications s' = notifications s @ [stored pg n]"
    and "e = Some ErrDuplicateKey \<Longrightarrow> notifications s' = notifications s \<and> key_taken (stored pg n) (notifications s)"
proof -
  obtain x where call: "pg_call pg (insert_stmt pg n) s = (x, s')"
    and e: "e = (case x of Inl er \<Rightarrow> Some (if er = PgError ''23505'' then ErrDuplicateKey
                else Wrap ''insert notification'' er) | Inr _ \<Rightarrow> None)"
    using assms by (auto simp: NotificationRepo_Create_def split: prod.splits sum.splits)
  have eff: "(db_inv pg s \<longrightarrow> db_inv pg u') \<and>
      (notifications u' = notifications s \<or> notifications u' = notifications s @ [stored pg n]) \<and>
      (y = Inr () \<longrightarrow> notifications u' = notifications s @ [stored pg n] \<and> \<not> key_taken (stored pg n) (notifications s)) \<and>
      (y = Inl (PgError ''23505'') \<longrightarrow> notifications u' = notifications s \<and> key_taken (stored pg n) (notifications s))"
    if "insert_stmt pg n (s\<lparr>pg_conn := c\<rparr>) = (y, u')" for c y u'
  proof (cases y)
    case (Inl e)
    with insert_stmt_effect [OF that] show ?thesis by auto
  next
    case (Inr z)
    with insert_stmt_effect [OF that] show ?thesis by auto
  qed
  have "(db_inv pg s \<longrightarrow> db_inv pg s') \<and>
      (notifications s' = notifications s \<or> notifications s' = notifications s @ [stored pg n]) \<and>
      (e = None \<longrightarrow> notifications s' = notifications s @ [stored pg n] \<and> \<not> key_taken (stored pg n) (notifications s)) \<and>
      (e = Some ErrDuplicateKey \<longrightarrow> notifications s' = notifications s \<and> key_taken (stored pg n) (notifications s))"
    using call
  proof (cases rule: pg_call_cases)
    case (answered c)
    show ?thesis using eff [OF answered(2)] by (auto simp: e split: sum.splits if_splits)
  next
    case (lost er c)
    then show ?thesis using net_errors(3) by (auto simp: e)
  next
    case (unknown er c y)
    then show ?thesis using eff [OF unknown(2)] net_errors(4) by (auto simp: e)
  qed
  then show "db_inv pg s \<Longrightarrow> db_inv pg s'"
    "e = None \<Longrightarrow> notifications s' = notifications s @ [stored pg n] \<and> \<not> key_taken (stored pg n) (notifications s)"
    "notifications s' = notifications s \<or> notifications s' = notifications s @ [stored pg n]"
    "e = Some ErrDuplicateKey \<Longrightarrow> notifications s' = notifications s \<and> key_taken (stored pg n) (notifications s)"
    by blast+
qed

lemma repo_exec_inv:
  assumes inv: "db_inv pg s"
  shows "db_inv pg (repo_exec pg op s)"
proof (cases op)
  case (OpCreate n)
  then show ?thesis using inv by (auto intro: snd_inv Create_effect(1))
next
  case (OpCreateBatch ns)
  then show ?thesis using inv by (auto intro!: snd_inv dest: CreateBatch_effect)
next
  case (OpUpdateStatus i st)
  then show ?thesis using update_ok_calls(1) [OF inv] by (auto intro!: snd_inv)
next
  case (OpUpdateStatusWithError i st em a)
  then show ?thesis using update_ok_calls(2) [OF inv] by (auto intro!: snd_inv)
next
  case (OpUpdateSent i p)
  then show ?thesis using update_ok_calls(3) [OF inv] by (auto intro!: snd_inv)
next
  case (OpUpdateBatchStatus ids st)
  then show ?thesis using update_ok_calls(4) [OF inv] by (auto intro!: snd_inv)
next
  case (OpUpdateBatchSent ids ps)
  then show ?thesis using UpdateBatchSent_call [OF inv] by (auto intro!: snd_inv)
next
  case (OpGetAndMarkProcessing i)
  then show ?thesis using inv by (auto intro: snd_inv GetAndMarkProcessing_call(1))
next
  case (OpGetAndMarkProcessingBatch ids)
  then show ?thesis using inv by (auto intro: snd_inv repo.claim_batch_inv)
next
  case (OpHandle fresh t i em a)
  then show ?thesis using inv by (auto intro: snd_inv Handle_inv)
qed

end

context notification_store
begin

lemma claim_batch_unclaimable:
  assumes "inv s" "claim_batch ids s = (x, s')"
  shows "x = Inr ns \<Longrightarrow> n \<in> set ns \<Longrightarrow> \<forall>m. tbl s' (n_ID n) = Some m \<longrightarrow> \<not> claimable (n_Status m)"
    and "\<forall>m. tbl s i = Some m \<longrightarrow> \<not> claimable (n_Status m) \<Longrightarrow> \<forall>m. tbl s' i = Some m \<longrightarrow> \<not> claimable (n_Status m)"
proof -
  have "tbl s' = tbl s \<and> x \<noteq> Inr ns \<or> (\<exists>t. tbl s' = mark ids t (tbl s))" for ns
    using claim_batch_effect [OF assms] by (auto simp: effect_def)
  moreover have "\<not> claimable (n_Status (set_status StatusProcessing t m))" for t and m :: notification
    by (simp add: set_status_def claimable_def)
  ultimately show "x = Inr ns \<Longrightarrow> n \<in> set ns \<Longrightarrow> \<forall>m. tbl s' (n_ID n) = Some m \<longrightarrow> \<not> claimable (n_Status m)"
    and "\<forall>m. tbl s i = Some m \<longrightarrow> \<not> claimable (n_Status m) \<Longrightarrow> \<forall>m. tbl s' i = Some m \<longrightarrow> \<not> claimable (n_Status m)"
    using claim_batch_ok [of s ids ns s'] assms tbl_valid [OF assms(1)]
    by (fastforce simp: mark_def upd_rows_def)+
qed

end

definition unclaimable :: "'p pgdb \<Rightarrow> uuid \<Rightarrow> bool" where
  "unclaimable s i = (\<forall>m. rows s i = Some m \<longrightarrow> \<not> claimable (n_Status m))"

context pg_server
begin

lemma claim_run_once:
  assumes "db_inv pg s"
  shows "distinct (concat (claim_run pg idss s)) \<and> (\<forall>i \<in> set (concat (claim_run pg idss s)). \<not> unclaimable s i)"
  using assms
proof (induction idss arbitrary: s)
  case Nil
  then show ?case by simp
next
  case (Cons ids idss)
  obtain x s1 where call: "NotificationRepo_GetAndMarkProcessingBatch pg ids s = (x, s1)" by fastforce
  note IH = Cons.IH [OF repo.claim_batch_inv [OF Cons.prems call]]
  have keep: "unclaimable s i \<Longrightarrow> unclaimable s1 i" for i
    using repo.claim_batch_unclaimable(2) [OF Cons.prems call] by (simp add: unclaimable_def)
  show ?case
  proof (cases x)
    case (Inl e)
    then show ?thesis using IH keep by (auto simp: call)
  next
    case (Inr ns)
    have "distinct (map n_ID ns)" and cl: "\<forall>n \<in> set ns. \<not> unclaimable s (n_ID n)"
      using repo.claim_batch_ok [of s ids ns s1] Cons.prems call Inr by (auto simp: unclaimable_def)
    moreover have "\<forall>n \<in> set ns. unclaimable s1 (n_ID n)"
      using repo.claim_batch_unclaimable(1) [OF Cons.prems call Inr] by (simp add: unclaimable_def)
    ultimately show ?thesis using IH Inr by (auto simp: call dest: keep)
  qed
qed

lemma GetByID_stored:
  assumes inv: "db_inv pg s" and r: "r \<in> set (notifications s)"
    and call: "NotificationRepo_GetByID pg (n_ID r) s = (x, s')"
  shows "x = Inr (row_view r) \<or> (\<exists>e. x = Inl (Wrap ''get notification'' e))"
proof -
  obtain y where y: "pg_call pg (selectNotificationByID pg (n_ID r)) s = (y, s')"
    and x: "x = (case y of Inl e \<Rightarrow> Inl (Wrap ''get notification'' e) | Inr [] \<Rightarrow> Inl ErrNotFound
      | Inr (r # _) \<Rightarrow> scanNotification r)"
    using call by (auto simp: NotificationRepo_GetByID_def split: prod.splits sum.splits list.splits)
  show ?thesis
  proof (cases y)
    case (Inl e)
    then show ?thesis by (simp add: x)
  next
    case (Inr rs)
    have sn: "snd (selectNotificationByID pg (n_ID r) u) = u" for u
      by (simp add: selectNotificationByID_def select_where_def)
    from pg_call_read [OF y [unfolded Inr] sn] obtain c where rs:
      "rs = take (length (notifications s)) (sort_key (\<lambda>_. 0::int) (pg_order pg c (filter (\<lambda>r'. n_ID r' = n_ID r) (notifications s))))"
      by (auto simp: selectNotificationByID_def select_where_def)
    have f: "filter (\<lambda>r'. n_ID r' = n_ID r) (notifications s) = [r]"
      using inv r by (intro filter_unique_key) (simp_all add: db_inv_def)
    have "pg_order pg c [r] = [r]" using order [of c "[r]"] by simp
    moreover have "vars_ok (r_vars r)" "length (notifications s) \<noteq> 0" using inv r by (auto simp: db_inv_def)
    ultimately show ?thesis using Inr by (simp add: x rs f scanNotification_ok take_Cons')
  qed
qed

end

section \<open>A server in memory\<close>

text \<open>
  The connection is a list of outcomes (0 delivered, 1 request lost, other reply lost; then
  always delivered) and a clock that advances by one millisecond per call.
\<close>

definition mem_outcome :: "nat \<Rightarrow> fault" where
  "mem_outcome k = (if k = 0 then Delivered else if k = 1 then LostRequest (Err ''timeout'') else LostReply (Err ''timeout''))"

definition mem_pg :: "(nat list \<times> time) pg" where
  "mem_pg =
     \<lparr>pg_net = (\<lambda>c. (case fst c of [] \<Rightarrow> Delivered | k # _ \<Rightarrow> mem_outcome k, (tl (fst c), snd c + 10 ^ 6))),
      pg_now = snd,
      pg_ts = (\<lambda>t. t div 1000 * 1000),
      pg_text = (\<lambda>xs. CHR 0x00 \<notin> set xs),
      pg_varchar = (\<lambda>n xs. length xs \<le> n),
      pg_jsonb = (\<lambda>j. Inr j),
      pg_order = (\<lambda>_ rs. rs),
      pg_reltuples = (\<lambda>_. - 1)\<rparr>"

interpretation mpg: pg_server mem_pg
  by unfold_locales (auto simp: mem_pg_def mem_outcome_def ascii_def split: list.splits if_splits)

text \<open>A pending notification, and evaluation rules for the examples.\<close>

definition ex_pending :: "uuid \<Rightarrow> string option \<Rightarrow> notification" where
  "ex_pending i k =
     \<lparr>n_ID = i, n_BatchID = None, n_IdempotencyKey = k, n_Recipient = ''+905551234567'',
      n_Channel = ChannelSMS, n_Content = ''hello'', n_Priority = PriorityNormal,
      n_Status = StatusPending, n_TemplateID = None, n_TemplateVars = None, n_ScheduledAt = None,
      n_ProviderMsgID = None, n_Attempts = 0, n_MaxAttempts = 5, n_LastError = None, n_SentAt = None,
      n_CreatedAt = 5000000, n_UpdatedAt = 5000000\<rparr>"

lemmas repo_eval = mem_pg_def mem_outcome_def ex_pending_def pg_call_def remote_def insert_stmt_def
  insertNotification_def new_row_def notification.defs nrow.defs row_error_def opt_all_def int4_def status_check_def
  Channel_Valid_def Priority_Valid_def key_taken_def template_missing_def Marshal_vars_def
  channel_defs priority_defs status_const_defs empty_db_def

section \<open>Properties\<close>

text \<open>
  The database invariant. From the empty tables, after any sequence of repository and
  dead-letter operations, whatever the network does to each of them, identifiers and
  idempotency keys are unique, every row satisfies its column types and \<open>CHECK\<close>
  constraints and decodes, and every dead letter refers to a notification.
\<close>

theorem repo_invariant:
  assumes "pg_server pg"
  shows "db_inv pg (fold (repo_exec pg) ops (empty_db c))"
proof -
  have "db_inv pg s \<Longrightarrow> db_inv pg (fold (repo_exec pg) ops s)" for s
    by (induction ops arbitrary: s) (simp_all add: pg_server.repo_exec_inv [OF assms])
  then show ?thesis using db_inv_empty [of pg c] by simp
qed

theorem repo_invariant_witness:
  "db_inv mem_pg (fold (repo_exec mem_pg) [OpCreate (ex_pending ''a'' (Some ''k'')), OpGetAndMarkProcessing ''a''] (empty_db ([0, 2], 0)))"
  by (rule repo_invariant) (rule mpg.pg_server_axioms)

text \<open>
  C1. A notification is claimed once. In any sequence of claims by any number of workers,
  with overlapping batches and lost replies, no notification is returned twice: once
  \<open>GetAndMarkProcessingBatch\<close> has returned it, no later claim returns it until its status
  is changed by something else.
\<close>

theorem claims_are_exclusive:
  assumes "pg_server pg" "db_inv pg s"
  shows "distinct (concat (claim_run pg idss s))"
  using pg_server.claim_run_once [OF assms] by blast

theorem claims_are_exclusive_witness:
  "distinct (concat (claim_run mem_pg [[''a'', ''b''], [''b''], [''a'']]
     (fold (repo_exec mem_pg) [OpCreate (ex_pending ''a'' None), OpCreate (ex_pending ''b'' None)] (empty_db ([], 0)))))"
  by (rule claims_are_exclusive [OF mpg.pg_server_axioms])
    (simp add: mpg.repo_exec_inv db_inv_empty del: repo_exec.simps)

text \<open>
  A claim is a compare-and-set. \<open>GetAndMarkProcessing\<close> returns a notification only if it
  was pending or queued, and then it is the row as stored, now processing; it returns
  \<open>ErrNotFound\<close> only if there was nothing to claim, and then nothing has changed; any other
  error leaves the row as it was or marked.
\<close>

theorem claim_compare_and_set:
  assumes "pg_server pg" "db_inv pg s" "NotificationRepo_GetAndMarkProcessing pg i s = (x, s')"
  shows "(\<forall>n. x = Inr n \<longrightarrow> (\<exists>n0. rows s i = Some n0 \<and> claimable (n_Status n0)) \<and> rows s' i = Some n) \<and>
    (x = Inl ErrNotFound \<longrightarrow> rows s' = rows s \<and> (\<forall>n0. rows s i = Some n0 \<longrightarrow> \<not> claimable (n_Status n0))) \<and>
    effect (err_of x) (rows s) (rows s') (\<lambda>t. mark [i] t (rows s))"
  using pg_server.GetAndMarkProcessing_call [OF assms] by auto

theorem claim_compare_and_set_witness:
  "let s = snd (NotificationRepo_Create mem_pg (ex_pending ''a'' None) (empty_db ([], 0)));
       x = NotificationRepo_GetAndMarkProcessing mem_pg ''a'' s
   in (\<forall>n. fst x = Inr n \<longrightarrow> rows (snd x) ''a'' = Some n)"
proof -
  let ?s = "snd (NotificationRepo_Create mem_pg (ex_pending ''a'' None) (empty_db ([], 0)))"
  have "db_inv mem_pg ?s" using mpg.repo_exec_inv [OF db_inv_empty, of "OpCreate (ex_pending ''a'' None)"] by simp
  from claim_compare_and_set [OF mpg.pg_server_axioms this prod.collapse [symmetric], of "''a''"]
  show ?thesis unfolding Let_def by blast
qed

text \<open>
  A batch is created whole or not at all. \<open>CreateBatch\<close> without an error has stored
  every notification; with an error it has stored none, or (when only the reply was lost)
  all of them. It never stores a part.
\<close>

theorem create_batch_atomic:
  assumes "pg_server pg" "NotificationRepo_CreateBatch pg ns s = (e, s')"
  shows "(e = None \<longrightarrow> notifications s' = notifications s @ map (stored pg) ns) \<and>
    (notifications s' = notifications s \<or> notifications s' = notifications s @ map (stored pg) ns)"
  using pg_server.CreateBatch_effect [OF assms] by blast

theorem create_batch_atomic_witness:
  "let (e, s) = NotificationRepo_CreateBatch mem_pg [ex_pending ''a'' (Some ''k''), ex_pending ''b'' (Some ''k'')] (empty_db ([], 0))
   in e = Some ErrDuplicateKey \<and> notifications s = []"
proof -
  let ?ns = "[ex_pending ''a'' (Some ''k''), ex_pending ''b'' (Some ''k'')]"
  let ?s = "(empty_db ([], 0))\<lparr>pg_conn := ([], 10 ^ 6)\<rparr>"
  have call: "NotificationRepo_CreateBatch mem_pg ?ns (empty_db ([], 0)) = (Some ErrDuplicateKey, ?s)"
    by (simp add: NotificationRepo_CreateBatch_def repo_eval)
  have "notifications ?s = [] \<or> notifications ?s = map (stored mem_pg) ?ns"
    using create_batch_atomic [OF mpg.pg_server_axioms call] by (simp add: empty_db_def)
  then show ?thesis unfolding call by (simp add: empty_db_def)
qed

text \<open>
  Idempotency. \<open>Create\<close> without an error has added the notification, whose identifier
  and idempotency key were free; \<open>ErrDuplicateKey\<close> means that one of them was taken and
  nothing was added. A retried request with the same key therefore never creates a second
  notification.
\<close>

theorem create_idempotent:
  assumes "pg_server pg" "NotificationRepo_Create pg n s = (e, s')"
  shows "(e = None \<longrightarrow> notifications s' = notifications s @ [stored pg n] \<and> \<not> key_taken (stored pg n) (notifications s)) \<and>
    (e = Some ErrDuplicateKey \<longrightarrow> notifications s' = notifications s \<and> key_taken (stored pg n) (notifications s)) \<and>
    (n_IdempotencyKey n \<noteq> None \<and> n_IdempotencyKey n \<in> n_IdempotencyKey ` set (notifications s) \<longrightarrow> e \<noteq> None)"
  using pg_server.Create_effect(2,4) [OF assms]
  by (cases e) (auto simp: key_taken_def image_iff)

theorem create_idempotent_witness:
  "fst (NotificationRepo_Create mem_pg (ex_pending ''b'' (Some ''k''))
     (snd (NotificationRepo_Create mem_pg (ex_pending ''a'' (Some ''k'')) (empty_db ([], 0))))) \<noteq> None"
proof -
  let ?s = "snd (NotificationRepo_Create mem_pg (ex_pending ''a'' (Some ''k'')) (empty_db ([], 0)))"
  have "n_IdempotencyKey (ex_pending ''b'' (Some ''k'')) \<in> n_IdempotencyKey ` set (notifications ?s)"
    by (simp add: NotificationRepo_Create_def repo_eval)
  then show ?thesis
    using create_idempotent [OF mpg.pg_server_axioms prod.collapse [symmetric], of "ex_pending ''b'' (Some ''k'')" ?s]
    by (simp add: ex_pending_def)
qed

lemma stored_vars:
  assumes "pg_server pg" "pg_jsonb pg (Marshal_vars (n_TemplateVars n)) = Inr j"
  shows "case n_TemplateVars n of None \<Rightarrow> n_TemplateVars (row_view (stored pg n)) = None
    | Some kv \<Rightarrow> \<exists>kv'. pg_jsonb pg (JObj kv) = Inr (JObj kv') \<and> n_TemplateVars (row_view (stored pg n)) = Some kv'"
proof (cases "n_TemplateVars n")
  case None
  then show ?thesis using assms(2) pg_server.jsonb_null [OF assms(1)] by (simp add: Marshal_vars_def stored_def row_view_def)
next
  case (Some kv)
  then have j: "pg_jsonb pg (JObj kv) = Inr j" using assms(2) by (simp add: Marshal_vars_def)
  then obtain kv' where "j = JObj kv'" using pg_server.jsonb_object [OF assms(1)] by blast
  then show ?thesis using Some j by (simp add: Marshal_vars_def stored_def row_view_def)
qed

text \<open>
  C25. Create and get. For a notification that \<open>Create\<close> has stored without error \<open>GetByID\<close> returns, unless
  the read itself fails, a notification with the same identifier, batch, key, recipient, channel,
  content, priority, status, template and attempts; with its times as \<open>timestamptz\<close> keeps them, its
  variables as \<open>jsonb\<close> keeps them; and without a provider's identifier, an error or a time of sending.
\<close>

theorem create_get_roundtrip:
  assumes "pg_server pg" "db_inv pg s" "NotificationRepo_Create pg n s = (None, s1)"
    and "NotificationRepo_GetByID pg (n_ID n) s1 = (x, s2)"
  shows "case x of Inl e \<Rightarrow> (\<exists>e'. e = Wrap ''get notification'' e')
    | Inr m \<Rightarrow>
        n_ID m = n_ID n \<and> n_BatchID m = n_BatchID n \<and> n_IdempotencyKey m = n_IdempotencyKey n \<and> n_Recipient m = n_Recipient n \<and>
        n_Channel m = n_Channel n \<and> n_Content m = n_Content n \<and> n_Priority m = n_Priority n \<and> n_Status m = n_Status n \<and>
        n_TemplateID m = n_TemplateID n \<and> n_Attempts m = n_Attempts n \<and> n_MaxAttempts m = n_MaxAttempts n \<and>
        (case n_TemplateVars n of None \<Rightarrow> n_TemplateVars m = None
         | Some kv \<Rightarrow> \<exists>kv'. pg_jsonb pg (JObj kv) = Inr (JObj kv') \<and> n_TemplateVars m = Some kv') \<and>
        n_ScheduledAt m = map_option (pg_ts pg) (n_ScheduledAt n) \<and> n_CreatedAt m = pg_ts pg (n_CreatedAt n) \<and>
        n_UpdatedAt m = pg_ts pg (n_UpdatedAt n) \<and> n_ProviderMsgID m = None \<and> n_LastError m = None \<and> n_SentAt m = None"
proof -
  note c = pg_server.Create_effect [OF assms(1,3)]
  have "stored pg n \<in> set (notifications s1)" using c(2) by simp
  from pg_server.GetByID_stored [OF assms(1) c(1) [OF assms(2)] this] assms(4)
  have x: "x = Inr (row_view (stored pg n)) \<or> (\<exists>e. x = Inl (Wrap ''get notification'' e))" by simp
  have "\<exists>j. pg_jsonb pg (Marshal_vars (n_TemplateVars n)) = Inr j"
    using assms(3) unfolding NotificationRepo_Create_def insert_stmt_def
    by (auto elim!: pg_call_cases split: prod.splits sum.splits if_splits)
  then obtain j where "pg_jsonb pg (Marshal_vars (n_TemplateVars n)) = Inr j" by blast
  note v = stored_vars [OF assms(1) this] this
  let ?m = "row_view (stored pg n)"
  have "n_BatchID ?m = n_BatchID n" "n_IdempotencyKey ?m = n_IdempotencyKey n" "n_Recipient ?m = n_Recipient n"
    "n_Content ?m = n_Content n" "n_Channel ?m = n_Channel n" "n_Priority ?m = n_Priority n" "n_TemplateID ?m = n_TemplateID n"
    "n_Attempts ?m = n_Attempts n" "n_MaxAttempts ?m = n_MaxAttempts n" "n_ScheduledAt ?m = map_option (pg_ts pg) (n_ScheduledAt n)"
    "n_CreatedAt ?m = pg_ts pg (n_CreatedAt n)" "n_UpdatedAt ?m = pg_ts pg (n_UpdatedAt n)" "n_ProviderMsgID ?m = None"
    "n_LastError ?m = None" "n_SentAt ?m = None"
    using v(2) by (simp_all add: row_view_def stored_def new_row_def notification.defs nrow.defs)
  then show ?thesis using x v(1) by (elim disjE exE) simp_all
qed

text \<open>A read over a network that works.\<close>

theorem create_get_roundtrip_witness:
  "\<exists>m. fst (NotificationRepo_GetByID mem_pg ''a'' (snd (NotificationRepo_Create mem_pg (ex_pending ''a'' None) (empty_db ([], 0))))) = Inr m \<and>
     n_Recipient m = n_Recipient (ex_pending ''a'' None) \<and> n_Content m = n_Content (ex_pending ''a'' None)"
proof -
  let ?s = "empty_db ([], 0)"
  obtain s1 where s1: "NotificationRepo_Create mem_pg (ex_pending ''a'' None) ?s = (None, s1)"
    by (simp add: NotificationRepo_Create_def repo_eval)
  obtain x s2 where x: "NotificationRepo_GetByID mem_pg ''a'' s1 = (x, s2)" by fastforce
  have "x \<noteq> Inl (Wrap ''get notification'' e)" for e
    using x s1 by (auto simp: NotificationRepo_GetByID_def NotificationRepo_Create_def repo_eval selectNotificationByID_def
        select_where_def scanNotification_def Unmarshal_vars_def)
  moreover have i: "n_ID (ex_pending ''a'' None) = ''a''" by (simp add: ex_pending_def)
  ultimately show ?thesis
    using create_get_roundtrip [OF mpg.pg_server_axioms db_inv_empty s1, unfolded i, OF x] s1 x by (cases x) auto
qed

text \<open>
  Listing. A page is a slice of the notifications that satisfy the filter (and lie
  before the cursor), newest first: with a cursor the first \<open>limit\<close> of them, without one
  those after \<open>offset\<close>; a limit of zero or less means twenty. As soon as there is any
  condition the count is the number of notifications that satisfy the filter, cursor aside.
\<close>

theorem list_pages:
  assumes "pg_server pg" "db_inv pg s" "NotificationRepo_List pg f s = (Inr (ns, ttl), s')"
  shows "(\<exists>all. mset all = mset (filter (matches pg f) (map row_view (notifications s))) \<and>
      sorted_wrt (\<lambda>a b. n_CreatedAt b \<le> n_CreatedAt a) all \<and>
      ns = take (nat (if f_Limit f \<le> 0 then 20 else f_Limit f))
        (drop (if f_Cursor f = None then nat (f_Offset f) else 0) all)) \<and>
    (f_Channel f \<noteq> None \<or> f_Status f \<noteq> None \<or> f_Priority f \<noteq> None \<or> f_Cursor f \<noteq> None \<longrightarrow>
      ttl = int (length (filter (matches pg (f\<lparr>f_Cursor := None\<rparr>)) (map row_view (notifications s)))))"
proof -
  have "list_conditions f \<noteq> ([], [], 1)"
    if "f_Channel f \<noteq> None \<or> f_Status f \<noteq> None \<or> f_Priority f \<noteq> None \<or> f_Cursor f \<noteq> None"
    using that by (cases "f_Channel f"; cases "f_Status f"; cases "f_Priority f"; cases "f_Cursor f")
      (auto simp: list_conditions_def base_conditions_def add_cond_def)
  moreover obtain s1 where "list_total pg f s = (Inr ttl, s1)"
    using assms(3) by (auto simp: NotificationRepo_List_def Let_def split: prod.splits sum.splits)
  ultimately show ?thesis
    using pg_server.List_result [OF assms] pg_server.list_total_result [OF assms(1)] by blast
qed

theorem list_pages_witness:
  "let s = snd (NotificationRepo_Create mem_pg (ex_pending ''a'' None) (empty_db ([], 0)));
       f = \<lparr>f_Channel = Some ChannelSMS, f_Status = None, f_Priority = None, f_Limit = 0, f_Offset = 0, f_Cursor = None\<rparr>
   in \<exists>ns. fst (NotificationRepo_List mem_pg f s) = Inr (ns, 1)"
proof -
  let ?s = "snd (NotificationRepo_Create mem_pg (ex_pending ''a'' None) (empty_db ([], 0)))"
  let ?f = "\<lparr>f_Channel = Some ChannelSMS, f_Status = None, f_Priority = None, f_Limit = 0, f_Offset = 0, f_Cursor = None\<rparr>"
  have "db_inv mem_pg ?s" using mpg.repo_exec_inv [OF db_inv_empty, of "OpCreate (ex_pending ''a'' None)"] by simp
  note lp = list_pages [OF mpg.pg_server_axioms this]
  have "\<exists>ns ttl s'. NotificationRepo_List mem_pg ?f ?s = (Inr (ns, ttl), s')"
    by (simp add: NotificationRepo_List_def NotificationRepo_Create_def list_total_def list_conditions_def base_conditions_def
        add_cond_def count_query_def data_query_def args_error_def query_rows_def where_holds_def placeholder_def
        int_arg_def scanNotification_def Unmarshal_vars_def repo_eval)
  then obtain ns ttl s' where call: "NotificationRepo_List mem_pg ?f ?s = (Inr (ns, ttl), s')" by blast
  have "ttl = int (length (filter (matches mem_pg ?f) (map row_view (notifications ?s))))"
    using lp [OF call] by simp
  also have "\<dots> = 1"
    by (simp add: NotificationRepo_Create_def matches_def row_view_def repo_eval)
  finally show ?thesis using call by simp
qed

end
