(* ===== verification/Float64.thy ===== *)
theory Float64
  imports Prelude
begin

text \<open>
  Go's \<open>float64\<close> (IEEE 754 binary64) as the rational numbers it represents, with
  round-to-nearest, ties-to-even. The code computes queue scores and retry delays in
  floating point, at magnitudes (nanoseconds since 1970) where a double no longer holds
  every integer, so the rounding is part of the behaviour. \<open>f64 x\<close> is the double nearest to
  the exact result \<open>x\<close> of an operation. Overflow to infinity and subnormal numbers are
  outside the model: the values the code handles lie between \<open>2\<close>-to-the-\<open>-60\<close> and
  \<open>2\<close>-to-the-\<open>63\<close> in magnitude.
\<close>

type_synonym float64 = rat

section \<open>Definitions\<close>

text \<open>
  The binary exponent of a positive rational: \<open>2 powi e \<le> x < 2 powi (e + 1)\<close>. Halving and
  doubling bring \<open>x\<close> towards the interval from 1 to 2; \<open>flog2_measure\<close> decreases on both.
\<close>

definition flog2_measure :: "rat \<Rightarrow> nat" where
  "flog2_measure x =
     (if x \<le> 0 then 0 else if 1 \<le> x then nat \<lfloor>x\<rfloor> else nat \<lfloor>1 / x\<rfloor> + 1)"

lemma flog2_measure_half:
  assumes "2 \<le> x"
  shows "flog2_measure (x / 2) < flog2_measure x"
proof -
  have "\<lfloor>x / 2\<rfloor> \<le> \<lfloor>x - 1\<rfloor>" using assms by (intro floor_mono) simp
  moreover have "0 \<le> \<lfloor>x / 2\<rfloor>" using assms by simp
  ultimately have "nat \<lfloor>x / 2\<rfloor> < nat \<lfloor>x\<rfloor>" by linarith
  then show ?thesis using assms by (simp add: flog2_measure_def)
qed

lemma flog2_measure_double:
  assumes "0 < x" "x < 1"
  shows "flog2_measure (2 * x) < flog2_measure x"
proof (cases "1 \<le> 2 * x")
  case True
  then have "\<lfloor>2 * x\<rfloor> = 1" using assms by (simp add: floor_eq_iff)
  moreover have "1 \<le> \<lfloor>1 / x\<rfloor>" using assms by (simp add: le_floor_iff)
  ultimately show ?thesis using True assms by (simp add: flog2_measure_def)
next
  case False
  then have "1 / (2 * x) \<le> 1 / x - 1" using assms by (simp add: field_simps)
  then have "\<lfloor>1 / (2 * x)\<rfloor> \<le> \<lfloor>1 / x - 1\<rfloor>" by (rule floor_mono)
  moreover have "0 \<le> \<lfloor>1 / (2 * x)\<rfloor>" using assms by simp
  ultimately have "nat \<lfloor>1 / (2 * x)\<rfloor> < nat \<lfloor>1 / x\<rfloor>" by linarith
  then show ?thesis using False assms by (simp add: flog2_measure_def)
qed

function flog2 :: "rat \<Rightarrow> int" where
  "flog2 x = (if x \<le> 0 then 0 else if 2 \<le> x then flog2 (x / 2) + 1
     else if x < 1 then flog2 (2 * x) - 1 else 0)"
  by pat_completeness auto
termination
  by (relation "measure flog2_measure") (auto intro: flog2_measure_half flog2_measure_double)

declare flog2.simps [simp del]

text \<open>Round to the nearest integer, ties to the even one.\<close>

definition round_even :: "rat \<Rightarrow> int" where
  "round_even x =
     (let f = \<lfloor>x\<rfloor>; d = x - of_int f
      in if d < 1 / 2 then f else if 1 / 2 < d then f + 1 else if even f then f else f + 1)"

text \<open>The quantum (unit in the last place) at \<open>x\<close>, and rounding to 53 significant bits.\<close>

definition ulp :: "rat \<Rightarrow> rat" where
  "ulp x = 2 powi (flog2 \<bar>x\<bar> - 52)"

definition f64 :: "rat \<Rightarrow> float64" where
  "f64 x = (if x = 0 then 0 else of_int (round_even (x / ulp x)) * ulp x)"

text \<open>Conversion \<open>float64(i)\<close> of an integer, and \<open>int64(x)\<close> of a double (truncation).\<close>

definition float64_of_int :: "int \<Rightarrow> float64" where
  "float64_of_int i = f64 (of_int i)"

definition int_of_float64 :: "float64 \<Rightarrow> int" where
  "int_of_float64 x = (if 0 \<le> x then \<lfloor>x\<rfloor> else \<lceil>x\<rceil>)"

text \<open>Evaluation of closed floating-point terms.\<close>

lemmas f64_eval = float64_of_int_def f64_def ulp_def flog2.simps round_even_def Let_def

section \<open>Rounding to an integer\<close>

lemma round_even_bounds: "of_int (round_even x) - 1 / 2 \<le> x \<and> x \<le> of_int (round_even x) + 1 / 2"
  unfolding round_even_def Let_def by (auto split: if_splits) linarith+

lemma round_even_of_int [simp]: "round_even (of_int i) = i"
  by (simp add: round_even_def)

lemma round_even_mono:
  assumes "x \<le> y"
  shows "round_even x \<le> round_even y"
proof (cases "\<lfloor>x\<rfloor> = \<lfloor>y\<rfloor>")
  case True
  then show ?thesis using assms by (auto simp: round_even_def Let_def)
next
  case False
  with assms have "\<lfloor>x\<rfloor> + 1 \<le> \<lfloor>y\<rfloor>" using floor_mono [OF assms] by linarith
  moreover have "round_even x \<le> \<lfloor>x\<rfloor> + 1" "\<lfloor>y\<rfloor> \<le> round_even y"
    by (auto simp: round_even_def Let_def)
  ultimately show ?thesis by linarith
qed

lemma round_even_le_of_int: "x \<le> of_int k \<Longrightarrow> round_even x \<le> k"
  using round_even_mono [of x "of_int k"] by simp

lemma round_even_ge_of_int: "of_int k \<le> x \<Longrightarrow> k \<le> round_even x"
  using round_even_mono [of "of_int k" x] by simp

section \<open>The exponent\<close>

lemma flog2_spec: "0 < x \<Longrightarrow> 2 powi flog2 x \<le> x \<and> x < 2 powi (flog2 x + 1)"
proof (induction x rule: flog2.induct)
  case (1 x)
  consider "2 \<le> x" | "x < 1" | "1 \<le> x" "x < 2" by linarith
  then show ?case
  proof cases
    case 1
    then have "2 powi flog2 (x / 2) \<le> x / 2 \<and> x / 2 < 2 powi (flog2 (x / 2) + 1)"
      using "1.IH"(1) "1.prems" by simp
    moreover have "flog2 x = flog2 (x / 2) + 1" using 1 by (subst flog2.simps) simp
    ultimately show ?thesis by (simp add: power_int_add)
  next
    case 2
    then have "2 powi flog2 (2 * x) \<le> 2 * x \<and> 2 * x < 2 powi (flog2 (2 * x) + 1)"
      using "1.IH"(2) "1.prems" by simp
    moreover have "flog2 x = flog2 (2 * x) - 1" using 2 "1.prems" by (subst flog2.simps) simp
    ultimately show ?thesis by (simp add: power_int_add power_int_diff)
  next
    case 3
    moreover have "flog2 x = 0" using 3 by (subst flog2.simps) simp
    ultimately show ?thesis by simp
  qed
qed

lemma powi2_less_iff [simp]: "((2::rat) powi a < 2 powi b) = (a < b)"
  by (metis linorder_neqE_linordered_idom not_less_iff_gr_or_eq one_less_numeral_iff
      power_int_strict_increasing semiring_norm(76))

lemma flog2_unique: "2 powi e \<le> x \<Longrightarrow> x < 2 powi (e + 1) \<Longrightarrow> flog2 x = e"
proof -
  assume x: "2 powi e \<le> x" "x < (2::rat) powi (e + 1)"
  then have "0 < x" by (meson less_le_trans zero_less_numeral zero_less_power_int)
  then have "2 powi flog2 x \<le> x" "x < 2 powi (flog2 x + 1)" using flog2_spec by auto
  with x have "(2::rat) powi e < 2 powi (flog2 x + 1)" "(2::rat) powi flog2 x < 2 powi (e + 1)"
    by linarith+
  then show ?thesis by simp
qed

lemma flog2_mono: "0 < x \<Longrightarrow> x \<le> y \<Longrightarrow> flog2 x \<le> flog2 y"
proof -
  assume "0 < x" "x \<le> y"
  then have "(2::rat) powi flog2 x < 2 powi (flog2 y + 1)"
    using flog2_spec [of x] flog2_spec [of y] by linarith
  then show ?thesis by simp
qed

section \<open>Rounding to a double\<close>

lemma ulp_pos [simp]: "0 < ulp x"
  by (simp add: ulp_def)

lemma ulp_neq_0 [simp]: "ulp x \<noteq> 0"
  using ulp_pos [of x] by linarith

lemma ulp_minus [simp]: "ulp (- x) = ulp x"
  by (simp add: ulp_def)

lemma round_even_minus: "round_even (- x) = - round_even x"
proof (cases "x = of_int \<lfloor>x\<rfloor>")
  case True
  then show ?thesis by (metis of_int_minus round_even_of_int)
next
  case False
  then have "\<lfloor>- x\<rfloor> = - \<lfloor>x\<rfloor> - 1" by linarith
  with False show ?thesis by (auto simp: round_even_def Let_def)
qed

lemma f64_0 [simp]: "f64 0 = 0"
  by (simp add: f64_def)

lemma f64_minus: "f64 (- x) = - f64 x"
  by (simp add: f64_def round_even_minus)

lemma f64_error: "\<bar>f64 x - x\<bar> \<le> ulp x / 2"
proof (cases "x = 0")
  case False
  have "\<bar>of_int (round_even (x / ulp x)) - x / ulp x\<bar> \<le> 1 / 2"
    using round_even_bounds [of "x / ulp x"] by linarith
  then have "\<bar>of_int (round_even (x / ulp x)) - x / ulp x\<bar> * ulp x \<le> 1 / 2 * ulp x"
    by (intro mult_right_mono) (simp_all add: less_imp_le)
  also have "\<bar>of_int (round_even (x / ulp x)) - x / ulp x\<bar> * ulp x = \<bar>f64 x - x\<bar>"
  proof -
    have "f64 x - x = (of_int (round_even (x / ulp x)) - x / ulp x) * ulp x"
      using False ulp_pos [of x] by (simp add: f64_def left_diff_distrib)
    then show ?thesis using ulp_pos [of x] by (simp only: abs_mult abs_of_pos)
  qed
  finally show ?thesis by simp
qed (simp add: less_imp_le)

lemma f64_multiple: "x = of_int m * ulp x \<Longrightarrow> f64 x = x"
  by (metis f64_def nonzero_mult_div_cancel_right less_irrefl round_even_of_int ulp_pos f64_0)

lemma ulp_le: "x \<noteq> 0 \<Longrightarrow> \<bar>x\<bar> < 2 powi n \<Longrightarrow> ulp x \<le> 2 powi (n - 53)"
proof -
  assume x: "x \<noteq> 0" "\<bar>x\<bar> < 2 powi n"
  then have "(2::rat) powi flog2 \<bar>x\<bar> < 2 powi n" using flog2_spec [of "\<bar>x\<bar>"] by linarith
  then show ?thesis unfolding ulp_def by (intro power_int_increasing) simp_all
qed

text \<open>A number with at most 53 significant bits is a double.\<close>

lemma f64_exact:
  assumes "x = of_int m * 2 powi k" "\<bar>m\<bar> \<le> 2 ^ 53"
  shows "f64 x = x"
proof (cases "m = 0")
  case False
  let ?e = "flog2 \<bar>x\<bar> - 52"
  have absx: "\<bar>x\<bar> = of_int \<bar>m\<bar> * 2 powi k" using assms(1) by (simp add: abs_mult)
  show ?thesis
  proof (cases "\<bar>m\<bar> = 2 ^ 53")
    case True
    have "\<bar>x\<bar> = 2 powi (53 + k)" using absx True by (simp add: power_int_add)
    then have "flog2 \<bar>x\<bar> = 53 + k" by (intro flog2_unique) simp_all
    then have "ulp x = 2 * 2 powi k" by (simp add: ulp_def power_int_add)
    moreover have "x = of_int (sgn m) * 2 ^ 53 * 2 powi k"
      using assms(1) True False by (simp add: abs_if sgn_if split: if_splits)
    ultimately show ?thesis by (intro f64_multiple [of _ "sgn m * 2 ^ 52"]) simp
  next
    case False': False
    then have "of_int \<bar>m\<bar> < (2 :: rat) ^ 53" using assms(2)
      by (metis of_int_less_iff of_int_numeral of_int_power order_le_less)
    then have "\<bar>x\<bar> < 2 powi (53 + k)" unfolding absx by (simp add: power_int_add)
    moreover have "x \<noteq> 0" using False assms(1) by simp
    ultimately have "(2::rat) powi flog2 \<bar>x\<bar> < 2 powi (53 + k)"
      using flog2_spec [of "\<bar>x\<bar>"] by linarith
    then have le: "?e \<le> k" by simp
    have "2 powi k = (2 :: rat) ^ nat (k - ?e) * 2 powi ?e"
      using le by (simp flip: power_int_add power_int_of_nat)
    then have "x = of_int (m * 2 ^ nat (k - ?e)) * ulp x"
      using assms(1) by (simp add: ulp_def)
    then show ?thesis by (rule f64_multiple)
  qed
qed (use assms in simp)

lemma f64_of_small_int: "\<bar>i\<bar> \<le> 2 ^ 53 \<Longrightarrow> f64 (of_int i) = of_int i"
  by (rule f64_exact [of _ i 0]) simp_all

lemma f64_mono_pos:
  assumes "0 < x" "x \<le> y"
  shows "f64 x \<le> f64 y"
proof (cases "flog2 x = flog2 y")
  case True
  then have "ulp x = ulp y" using assms by (simp add: ulp_def)
  moreover have "x / ulp y \<le> y / ulp y" using assms by (simp add: divide_right_mono less_imp_le)
  ultimately show ?thesis using assms
    by (simp add: f64_def mult_right_mono round_even_mono less_imp_le)
next
  case False
  with assms have lt: "flog2 x + 1 \<le> flog2 y" using flog2_mono [OF assms] by linarith
  have up: "2 powi (flog2 x + 1) = of_int (2 ^ 53) * ulp x"
    and lo: "2 powi flog2 y = of_int (2 ^ 52) * ulp y"
    using assms by (simp_all add: ulp_def power_int_add power_int_diff)
  have "x / ulp x \<le> of_int (2 ^ 53)"
    using flog2_spec [of x] assms unfolding up by (simp add: pos_divide_le_eq)
  then have "f64 x \<le> of_int (2 ^ 53) * ulp x" using assms
    using round_even_le_of_int [of "x / ulp x" "2 ^ 53"] by (simp add: f64_def)
  also have "\<dots> \<le> of_int (2 ^ 52) * ulp y"
    unfolding up [symmetric] lo [symmetric] using lt by (intro power_int_increasing) simp_all
  also have "\<dots> \<le> f64 y"
  proof -
    have "of_int (2 ^ 52) \<le> y / ulp y"
      using flog2_spec [of y] assms unfolding lo by (simp add: pos_le_divide_eq)
    then have "2 ^ 52 \<le> round_even (y / ulp y)" by (rule round_even_ge_of_int)
    then have "(of_int (2 ^ 52) :: rat) \<le> of_int (round_even (y / ulp y))"
      by (simp only: of_int_le_iff)
    then show ?thesis using assms
      by (simp add: f64_def mult_right_mono less_imp_le del: of_int_power)
  qed
  finally show ?thesis .
qed

lemma f64_nonneg: "0 \<le> x \<Longrightarrow> 0 \<le> f64 x"
  using round_even_ge_of_int [of 0 "x / ulp x"]
  by (auto simp: f64_def less_imp_le divide_nonneg_pos)

lemma f64_mono: "x \<le> y \<Longrightarrow> f64 x \<le> f64 y"
proof -
  assume le: "x \<le> y"
  consider "0 < x" | "x \<le> 0" "0 \<le> y" | "y < 0" by linarith
  then show ?thesis
  proof cases
    case 1
    then show ?thesis using le by (rule f64_mono_pos)
  next
    case 2
    then show ?thesis using f64_nonneg [of y] f64_nonneg [of "- x"] by (simp add: f64_minus)
  next
    case 3
    then show ?thesis using f64_mono_pos [of "- y" "- x"] le by (simp add: f64_minus)
  qed
qed

text \<open>Two numbers further apart than the mean of their quanta stay apart.\<close>

lemma f64_strict_mono:
  assumes "\<bar>x\<bar> < 2 powi n" "\<bar>y\<bar> < 2 powi n" "x + 2 powi (n - 53) < y"
  shows "f64 x < f64 y"
proof -
  have half: "\<bar>f64 z - z\<bar> \<le> 2 powi (n - 53) / 2" if "\<bar>z\<bar> < 2 powi n" for z
  proof (cases "z = 0")
    case False
    with that show ?thesis using f64_error [of z] ulp_le [of z n] by linarith
  qed simp
  from half [OF assms(1)] half [OF assms(2)] assms(3) show ?thesis by linarith
qed

lemma float64_of_int_mono: "i \<le> j \<Longrightarrow> float64_of_int i \<le> float64_of_int j"
  by (simp add: float64_of_int_def f64_mono)

end
