(* ===== verification/Redis.thy ===== *)
theory Redis
  imports Float64
begin

text \<open>
  The Redis server as the code sees it through go-redis. Redis is not part of the
  repository: its commands are a parameter of the model, the record \<open>redis\<close>, over a server
  state of any type. \<open>rd_zset\<close> observes a sorted set as its list of (score, member) pairs in
  the order Redis documents: by score, ties by member. The locale \<open>redis_server\<close> states
  what the code relies on, one law per command. \<open>rd_net\<close> decides the outcome of the next
  client call (see \<open>remote\<close>).

  The last section builds an in-memory server and interprets the locale on it, which shows
  that the laws can hold together; the witnesses of the development run on it.
\<close>

section \<open>Sorted sets\<close>

type_synonym zset = "(float64 \<times> string) list"

definition zset_ok :: "zset \<Rightarrow> bool" where
  "zset_ok z = (sorted z \<and> distinct (map snd z))"

text \<open>What \<open>ZADD\<close>, \<open>ZREM\<close>, \<open>ZREMRANGEBYSCORE\<close> and \<open>ZRANGE -inf hi BYSCORE\<close> do to a set.\<close>

definition z_add :: "float64 \<Rightarrow> string \<Rightarrow> zset \<Rightarrow> zset" where
  "z_add s m z = insort (s, m) (filter (\<lambda>e. snd e \<noteq> m) z)"

definition z_rem :: "string list \<Rightarrow> zset \<Rightarrow> zset" where
  "z_rem ms z = filter (\<lambda>e. snd e \<notin> set ms) z"

definition z_remrange :: "float64 \<Rightarrow> float64 \<Rightarrow> zset \<Rightarrow> zset" where
  "z_remrange lo hi z = filter (\<lambda>e. \<not> (lo \<le> fst e \<and> fst e \<le> hi)) z"

definition z_upto :: "float64 \<Rightarrow> zset \<Rightarrow> string list" where
  "z_upto hi z = map snd (filter (\<lambda>e. fst e \<le> hi) z)"

definition z_members :: "zset \<Rightarrow> string set" where
  "z_members z = snd ` set z"

section \<open>The server as a parameter\<close>

record 'r redis =
  rd_net :: "'r \<Rightarrow> fault \<times> 'r"
  rd_zadd :: "string \<Rightarrow> float64 \<Rightarrow> string \<Rightarrow> 'r \<Rightarrow> 'r"
  rd_zpopmin :: "string \<Rightarrow> nat \<Rightarrow> 'r \<Rightarrow> (float64 \<times> string) list \<times> 'r"
  rd_zrangebyscore :: "string \<Rightarrow> float64 \<Rightarrow> 'r \<Rightarrow> string list"
  rd_zrem :: "string \<Rightarrow> string list \<Rightarrow> 'r \<Rightarrow> 'r"
  rd_zremrangebyscore :: "string \<Rightarrow> float64 \<Rightarrow> float64 \<Rightarrow> 'r \<Rightarrow> 'r"
  rd_zcard :: "string \<Rightarrow> 'r \<Rightarrow> nat"
  rd_expire :: "string \<Rightarrow> float64 \<Rightarrow> 'r \<Rightarrow> 'r"
  rd_setnx :: "string \<Rightarrow> string \<Rightarrow> duration \<Rightarrow> 'r \<Rightarrow> bool \<times> 'r"
  rd_has :: "'r \<Rightarrow> string \<Rightarrow> bool"
  rd_zset :: "'r \<Rightarrow> string \<Rightarrow> zset"

text \<open>A client call of a command that returns nothing the code uses.\<close>

definition rd_do :: "'r redis \<Rightarrow> ('r \<Rightarrow> 'r) \<Rightarrow> 'r \<Rightarrow> err option \<times> 'r" where
  "rd_do rd f r = (let (x, r') = remote (rd_net rd) (\<lambda>s. ((), f s)) r in (err_of x, r'))"

text \<open>
  A pipeline of commands, sent with \<open>pipe.Exec\<close>: the commands run in order, each with its
  own outcome, and \<open>Exec\<close> returns the error of the first one that failed.
\<close>

fun rd_pipeline :: "'r redis \<Rightarrow> ('r \<Rightarrow> 'r) list \<Rightarrow> 'r \<Rightarrow> err option \<times> 'r" where
  "rd_pipeline rd [] r = (None, r)"
| "rd_pipeline rd (f # fs) r =
     (let (e, r1) = rd_do rd f r; (e', r2) = rd_pipeline rd fs r1
      in (if e = None then e' else e, r2))"

locale redis_server =
  fixes rd :: "'r redis"
  assumes zset_ok: "zset_ok (rd_zset rd r k)"
    and net: "rd_zset rd (snd (rd_net rd r)) = rd_zset rd r"
    and zadd: "rd_zset rd (rd_zadd rd k s m r) = (rd_zset rd r)(k := z_add s m (rd_zset rd r k))"
    and zpopmin_result: "fst (rd_zpopmin rd k n r) = take n (rd_zset rd r k)"
    and zpopmin_state: "rd_zset rd (snd (rd_zpopmin rd k n r)) =
          (rd_zset rd r)(k := drop n (rd_zset rd r k))"
    and zrangebyscore: "rd_zrangebyscore rd k hi r = z_upto hi (rd_zset rd r k)"
    and zrem: "rd_zset rd (rd_zrem rd k ms r) = (rd_zset rd r)(k := z_rem ms (rd_zset rd r k))"
    and zremrangebyscore: "rd_zset rd (rd_zremrangebyscore rd k lo hi r) =
          (rd_zset rd r)(k := z_remrange lo hi (rd_zset rd r k))"
    and zcard: "rd_zcard rd k r = length (rd_zset rd r k)"
    and expire: "rd_zset rd (rd_expire rd k secs r) = rd_zset rd r"
    and setnx_zset: "rd_zset rd (snd (rd_setnx rd k v ttl r)) = rd_zset rd r"
    and setnx_result: "fst (rd_setnx rd k v ttl r) = (\<not> rd_has rd r k)"
    and setnx_has: "rd_has rd (snd (rd_setnx rd k v ttl r)) k"

section \<open>Lemmas on sorted sets\<close>

lemma zset_ok_Nil [simp]: "zset_ok []"
  by (simp add: zset_ok_def)

lemma sorted_filterI: "sorted xs \<Longrightarrow> sorted (filter P xs)"
  by (simp add: sorted_wrt_filter)

lemma distinct_map_filterI: "distinct (map f xs) \<Longrightarrow> distinct (map f (filter P xs))"
  by (induction xs) auto

lemma zset_ok_filter: "zset_ok z \<Longrightarrow> zset_ok (filter P z)"
  by (simp add: zset_ok_def sorted_filterI distinct_map_filterI)

lemma zset_ok_ops:
  assumes "zset_ok z"
  shows "zset_ok (z_add s m z)" "zset_ok (z_rem ms z)" "zset_ok (z_remrange lo hi z)"
    "zset_ok (drop n z)" "zset_ok (take n z)"
proof -
  show "zset_ok (z_add s m z)"
    using zset_ok_filter [OF assms, of "\<lambda>e. snd e \<noteq> m"]
    by (auto simp: zset_ok_def z_add_def sorted_insort distinct_map_insort)
qed (use assms in \<open>simp_all add: z_rem_def z_remrange_def zset_ok_filter\<close>,
     use assms in \<open>simp_all add: zset_ok_def distinct_map_drop distinct_map_take
       sorted_wrt_drop sorted_wrt_take\<close>)

lemma set_z_add [simp]: "set (z_add s m z) = insert (s, m) {e \<in> set z. snd e \<noteq> m}"
  by (auto simp: z_add_def set_insort_key)

lemma set_z_rem [simp]: "set (z_rem ms z) = {e \<in> set z. snd e \<notin> set ms}"
  by (auto simp: z_rem_def)

lemma set_z_upto [simp]: "set (z_upto hi z) = {m. \<exists>s. (s, m) \<in> set z \<and> s \<le> hi}"
  by (force simp: z_upto_def)

lemma z_members_add [simp]: "z_members (z_add s m z) = insert m (z_members z)"
  by (auto simp: z_members_def image_iff)

lemma z_members_rem [simp]: "z_members (z_rem ms z) = z_members z - set ms"
  by (auto simp: z_members_def image_iff)

lemma z_members_Nil [simp]: "z_members [] = {}"
  by (simp add: z_members_def)

lemma z_members_take_drop:
  "z_members z = z_members (take n z) \<union> z_members (drop n z)"
  unfolding z_members_def by (metis image_Un set_take_drop)

lemma z_members_take_drop_disjoint:
  "zset_ok z \<Longrightarrow> z_members (take n z) \<inter> z_members (drop n z) = {}"
  unfolding z_members_def zset_ok_def
  by (metis append_take_drop_id distinct_append list.set_map map_append)

lemma length_z_add:
  assumes "m \<notin> z_members z"
  shows "length (z_add s m z) = Suc (length z)"
proof -
  have "filter (\<lambda>e. snd e \<noteq> m) z = z"
    using assms by (auto simp: z_members_def filter_id_conv)
  then show ?thesis by (simp add: z_add_def)
qed

lemma length_z_add_le: "length (z_add s m z) \<le> Suc (length z)"
  by (simp add: z_add_def)

section \<open>Calls under the laws\<close>

context redis_server
begin

lemma net_state: "rd_net rd r = (x, r') \<Longrightarrow> rd_zset rd r' = rd_zset rd r"
  using net [of r] by simp

text \<open>
  A call leaves the sets as they were or as the command makes them, and the latter whenever
  no error is returned.
\<close>

lemma rd_do_effect:
  assumes "rd_do rd f r = (e, r')"
    and f: "\<And>s. rd_zset rd s = rd_zset rd r \<Longrightarrow> rd_zset rd (f s) = Z"
  shows "e = None \<Longrightarrow> rd_zset rd r' = Z" "rd_zset rd r' = rd_zset rd r \<or> rd_zset rd r' = Z"
  using assms(1)
  by (auto simp: rd_do_def remote_def f net_state split: prod.splits fault.splits)

lemma zadd_effect:
  assumes "rd_do rd (rd_zadd rd k s m) r = (e, r')"
  defines "Z \<equiv> (rd_zset rd r)(k := z_add s m (rd_zset rd r k))"
  shows "e = None \<Longrightarrow> rd_zset rd r' = Z" "rd_zset rd r' = rd_zset rd r \<or> rd_zset rd r' = Z"
  using rd_do_effect [OF assms(1), of Z] by (simp_all add: zadd Z_def)

lemma zrem_effect:
  assumes "rd_do rd (rd_zrem rd k ms) r = (e, r')"
  defines "Z \<equiv> (rd_zset rd r)(k := z_rem ms (rd_zset rd r k))"
  shows "e = None \<Longrightarrow> rd_zset rd r' = Z" "rd_zset rd r' = rd_zset rd r \<or> rd_zset rd r' = Z"
  using rd_do_effect [OF assms(1), of Z] by (simp_all add: zrem Z_def)

end

section \<open>An in-memory server\<close>

typedef zs = "{z. zset_ok z}" morphisms zlist Zs
  by (rule exI [of _ "[]"]) simp

setup_lifting type_definition_zs

lift_definition zs_empty :: zs is "[]" by simp
lift_definition zs_add :: "float64 \<Rightarrow> string \<Rightarrow> zs \<Rightarrow> zs" is z_add by (rule zset_ok_ops)
lift_definition zs_drop :: "nat \<Rightarrow> zs \<Rightarrow> zs" is drop by (rule zset_ok_ops)
lift_definition zs_rem :: "string list \<Rightarrow> zs \<Rightarrow> zs" is z_rem by (rule zset_ok_ops)
lift_definition zs_remrange :: "float64 \<Rightarrow> float64 \<Rightarrow> zs \<Rightarrow> zs" is z_remrange
  by (rule zset_ok_ops)

record mem =
  mem_zsets :: "string \<Rightarrow> zs"
  mem_keys :: "string list"
  mem_faults :: "fault list"

definition mem_init :: "fault list \<Rightarrow> mem" where
  "mem_init fs = \<lparr>mem_zsets = (\<lambda>_. zs_empty), mem_keys = [], mem_faults = fs\<rparr>"

definition mem_upd :: "string \<Rightarrow> (zs \<Rightarrow> zs) \<Rightarrow> mem \<Rightarrow> mem" where
  "mem_upd k f r = r\<lparr>mem_zsets := (mem_zsets r)(k := f (mem_zsets r k))\<rparr>"

text \<open>The network of the in-memory server takes its outcomes from a list; afterwards all calls arrive.\<close>

definition mem_redis :: "mem redis" where
  "mem_redis =
     \<lparr>rd_net = (\<lambda>r. case mem_faults r of [] \<Rightarrow> (Delivered, r)
                      | x # xs \<Rightarrow> (x, r\<lparr>mem_faults := xs\<rparr>)),
      rd_zadd = (\<lambda>k s m. mem_upd k (zs_add s m)),
      rd_zpopmin = (\<lambda>k n r. (take n (zlist (mem_zsets r k)), mem_upd k (zs_drop n) r)),
      rd_zrangebyscore = (\<lambda>k hi r. z_upto hi (zlist (mem_zsets r k))),
      rd_zrem = (\<lambda>k ms. mem_upd k (zs_rem ms)),
      rd_zremrangebyscore = (\<lambda>k lo hi. mem_upd k (zs_remrange lo hi)),
      rd_zcard = (\<lambda>k r. length (zlist (mem_zsets r k))),
      rd_expire = (\<lambda>k ttl r. r),
      rd_setnx = (\<lambda>k v ttl r. (k \<notin> set (mem_keys r), r\<lparr>mem_keys := k # mem_keys r\<rparr>)),
      rd_has = (\<lambda>r k. k \<in> set (mem_keys r)),
      rd_zset = (\<lambda>r k. zlist (mem_zsets r k))\<rparr>"

lemmas mem_eval = mem_redis_def mem_upd_def mem_init_def zs_add.rep_eq zs_drop.rep_eq
  zs_rem.rep_eq zs_remrange.rep_eq zs_empty.rep_eq

interpretation mem: redis_server mem_redis
  by unfold_locales
    (auto simp: mem_eval zlist [simplified] fun_eq_iff split: list.splits)

text \<open>The same server behind a network that never fails.\<close>

definition mem_up :: "mem redis" where
  "mem_up = mem_redis\<lparr>rd_net := (\<lambda>r. (Delivered, r))\<rparr>"

interpretation mem_up: redis_server mem_up
  by unfold_locales
    (auto simp: mem_up_def mem_eval zlist [simplified] fun_eq_iff)

end
