(* ===== verification/Queue.thy ===== *)
theory Queue
  imports Redis Domain
begin

text \<open>
  The work queue of \<open>internal/queue/redis\<close>: \<open>producer.go\<close> and \<open>consumer.go\<close>. Messages are
  JSON texts in sorted sets: one set per channel for waiting messages, one per channel for
  messages a worker holds (scored with the deadline of their visibility timeout), and one
  for delayed retries.

  The arguments of the source functions are kept, except \<open>ctx\<close>; what a function obtains
  from \<open>time.Now()\<close> is passed as an argument. The JSON codec of messages is a parameter
  (\<open>codec\<close>) with the law that decoding inverts encoding. The definitions take the Redis
  server as a parameter too; the lemmas about them are proved once, in the locale
  \<open>redis_queue\<close>. The locale \<open>work_queue\<close> is the contract of the methods of the Go
  interfaces \<open>queue.Producer\<close> and \<open>queue.Consumer\<close> that the processor calls, \<open>message_queue\<close> that of all six,
  and the Redis queue is shown to fulfil them.
\<close>

section \<open>Definitions\<close>

record codec =
  marshal :: "message \<Rightarrow> string result"
  unmarshal :: "string \<Rightarrow> message result"

definition valid_message :: "message \<Rightarrow> bool" where
  "valid_message m = (Channel_Valid (m_Channel m) \<and> Priority_Valid (m_Priority m))"

definition queuePrefix :: string where "queuePrefix = ''queue:''"
definition retryDelayedKey :: string where "retryDelayedKey = ''retry:delayed''"
definition processingPrefix :: string where "processingPrefix = ''processing:''"

definition calculateScore :: "time \<Rightarrow> message \<Rightarrow> float64" where
  "calculateScore now msg =
     (let priorityLevel = float64_of_int (Priority_Score (m_Priority msg));
          ts = (case m_ScheduledAt msg of
                  None \<Rightarrow> float64_of_int now
                | Some t \<Rightarrow> float64_of_int t)
      in f64 (f64 (priorityLevel * 10 ^ 12) + ts))"

definition Producer_Enqueue ::
  "'r redis \<Rightarrow> codec \<Rightarrow> time \<Rightarrow> message \<Rightarrow> 'r \<Rightarrow> err option \<times> 'r" where
  "Producer_Enqueue rd js now msg r =
     (case marshal js msg of
        Inl e \<Rightarrow> (Some (Wrap ''marshal message'' e), r)
      | Inr data \<Rightarrow>
          (let score = calculateScore now msg; key = queuePrefix @ m_Channel msg
           in rd_do rd (rd_zadd rd key score data) r))"

text \<open>
  The loop of \<open>EnqueueBatch\<close> fills the pipeline; \<open>now i\<close> is the clock when message \<open>i\<close> is
  scored. A message that cannot be encoded ends the loop before anything is sent.
\<close>

fun enqueue_cmds ::
  "'r redis \<Rightarrow> codec \<Rightarrow> (nat \<Rightarrow> time) \<Rightarrow> nat \<Rightarrow> message list \<Rightarrow> ('r \<Rightarrow> 'r) list result" where
  "enqueue_cmds rd js now i [] = Inr []"
| "enqueue_cmds rd js now i (msg # msgs) =
     (case marshal js msg of
        Inl e \<Rightarrow> Inl (Wrap ''marshal message'' e)
      | Inr data \<Rightarrow>
          (case enqueue_cmds rd js now (Suc i) msgs of
             Inl e \<Rightarrow> Inl e
           | Inr cmds \<Rightarrow>
               Inr (rd_zadd rd (queuePrefix @ m_Channel msg) (calculateScore (now i) msg) data # cmds)))"

definition Producer_EnqueueBatch ::
  "'r redis \<Rightarrow> codec \<Rightarrow> (nat \<Rightarrow> time) \<Rightarrow> message list \<Rightarrow> 'r \<Rightarrow> err option \<times> 'r" where
  "Producer_EnqueueBatch rd js now msgs r =
     (if msgs = [] then (None, r)
      else case enqueue_cmds rd js now 0 msgs of
        Inl e \<Rightarrow> (Some e, r)
      | Inr pipe \<Rightarrow>
          (case rd_pipeline rd pipe r of
             (Some e, r1) \<Rightarrow> (Some (Wrap ''pipeline enqueue'' e), r1)
           | (None, r1) \<Rightarrow> (None, r1)))"

definition Producer_EnqueueDelayed ::
  "'r redis \<Rightarrow> codec \<Rightarrow> time \<Rightarrow> message \<Rightarrow> duration \<Rightarrow> 'r \<Rightarrow> err option \<times> 'r" where
  "Producer_EnqueueDelayed rd js now msg delay r =
     (case marshal js msg of
        Inl e \<Rightarrow> (Some (Wrap ''marshal message'' e), r)
      | Inr data \<Rightarrow>
          (let executeAt = float64_of_int (now + delay)
           in rd_do rd (rd_zadd rd retryDelayedKey executeAt data) r))"

definition Consumer_Dequeue ::
  "'r redis \<Rightarrow> codec \<Rightarrow> duration \<Rightarrow> time \<Rightarrow> channel \<Rightarrow> 'r \<Rightarrow> message option result \<times> 'r" where
  "Consumer_Dequeue rd js visibilityTimeout now channel r =
     (case remote (rd_net rd) (rd_zpopmin rd (queuePrefix @ channel) 1) r of
        (Inl e, r1) \<Rightarrow> (Inl (Wrap ''zpopmin'' e), r1)
      | (Inr [], r1) \<Rightarrow> (Inr None, r1)
      | (Inr (z # _), r1) \<Rightarrow>
          (let raw = snd z
           in case unmarshal js raw of
                Inl e \<Rightarrow> (Inl (Wrap ''unmarshal message'' e), r1)
              | Inr msg \<Rightarrow>
                  (let deadline = float64_of_int (now + visibilityTimeout);
                       procKey = processingPrefix @ channel
                   in (Inr (Some msg), snd (rd_do rd (rd_zadd rd procKey deadline raw) r1)))))"

fun unmarshal_all :: "codec \<Rightarrow> string list \<Rightarrow> message list result" where
  "unmarshal_all js [] = Inr []"
| "unmarshal_all js (raw # raws) =
     (case unmarshal js raw of
        Inl e \<Rightarrow> Inl (Wrap ''unmarshal message'' e)
      | Inr msg \<Rightarrow>
          (case unmarshal_all js raws of Inl e \<Rightarrow> Inl e | Inr msgs \<Rightarrow> Inr (msg # msgs)))"

definition Consumer_DequeueBatch ::
  "'r redis \<Rightarrow> codec \<Rightarrow> duration \<Rightarrow> time \<Rightarrow> channel \<Rightarrow> int \<Rightarrow> 'r \<Rightarrow> message list result \<times> 'r" where
  "Consumer_DequeueBatch rd js visibilityTimeout now channel cnt r =
     (case remote (rd_net rd) (rd_zpopmin rd (queuePrefix @ channel) (nat cnt)) r of
        (Inl e, r1) \<Rightarrow> (Inl (Wrap ''zpopmin batch'' e), r1)
      | (Inr results, r1) \<Rightarrow>
          if results = [] then (Inr [], r1)
          else
            (let procKey = processingPrefix @ channel;
                 deadline = float64_of_int (now + visibilityTimeout)
             in case unmarshal_all js (map snd results) of
                  Inl e \<Rightarrow> (Inl e, r1)
                | Inr msgs \<Rightarrow>
                    (case rd_pipeline rd (map (\<lambda>z. rd_zadd rd procKey deadline (snd z)) results) r1 of
                       (Some e, r2) \<Rightarrow> (Inl (Wrap ''pipeline processing set'' e), r2)
                     | (None, r2) \<Rightarrow> (Inr msgs, r2))))"

fun marshal_all :: "codec \<Rightarrow> message list \<Rightarrow> string list result" where
  "marshal_all js [] = Inr []"
| "marshal_all js (msg # msgs) =
     (case marshal js msg of
        Inl e \<Rightarrow> Inl (Wrap ''marshal message for ack'' e)
      | Inr data \<Rightarrow>
          (case marshal_all js msgs of Inl e \<Rightarrow> Inl e | Inr members \<Rightarrow> Inr (data # members)))"

definition Consumer_Ack ::
  "'r redis \<Rightarrow> codec \<Rightarrow> channel \<Rightarrow> message list \<Rightarrow> 'r \<Rightarrow> err option \<times> 'r" where
  "Consumer_Ack rd js channel msgs r =
     (if msgs = [] then (None, r)
      else case marshal_all js msgs of
        Inl e \<Rightarrow> (Some e, r)
      | Inr members \<Rightarrow> rd_do rd (rd_zrem rd (processingPrefix @ channel) members) r)"

text \<open>Whether a message is in the sorted set of a key, in its encoded form.\<close>

definition in_zset :: "'r redis \<Rightarrow> codec \<Rightarrow> string \<Rightarrow> 'r \<Rightarrow> message \<Rightarrow> bool" where
  "in_zset rd js key r m =
     (case marshal js m of Inl _ \<Rightarrow> False | Inr d \<Rightarrow> d \<in> z_members (rd_zset rd r key))"

definition ready :: "'r redis \<Rightarrow> codec \<Rightarrow> channel \<Rightarrow> 'r \<Rightarrow> message set" where
  "ready rd js ch r = {m. valid_message m \<and> in_zset rd js (queuePrefix @ ch) r m}"

definition inflight :: "'r redis \<Rightarrow> codec \<Rightarrow> channel \<Rightarrow> 'r \<Rightarrow> message set" where
  "inflight rd js ch r = {m. valid_message m \<and> in_zset rd js (processingPrefix @ ch) r m}"

definition delayed :: "'r redis \<Rightarrow> codec \<Rightarrow> 'r \<Rightarrow> message set" where
  "delayed rd js r = {m. valid_message m \<and> in_zset rd js retryDelayedKey r m}"

section \<open>The contract of the queue interfaces\<close>

text \<open>
  What the processor relies on of \<open>queue.Producer\<close> and \<open>queue.Consumer\<close>, which calls \<open>Enqueue\<close>,
  \<open>EnqueueDelayed\<close> and \<open>Ack\<close> (\<open>work_queue\<close>), over the three places a message can be: waiting in a
  channel, held by a worker, or waiting for a retry. Such an operation that returns no error
  has had its effect; one that returns an error has had its effect or none, and never touches
  anything else. \<open>message_queue\<close> adds the other three methods of the interfaces. The two that
  dequeue promise less: whatever they return, no more messages than asked for leave their
  channel, but after an error these may be neither waiting nor held.
\<close>

locale work_queue =
  fixes enq :: "time \<Rightarrow> message \<Rightarrow> 's \<Rightarrow> err option \<times> 's"
    and enq_delayed :: "time \<Rightarrow> message \<Rightarrow> duration \<Rightarrow> 's \<Rightarrow> err option \<times> 's"
    and ack :: "channel \<Rightarrow> message list \<Rightarrow> 's \<Rightarrow> err option \<times> 's"
    and waiting :: "channel \<Rightarrow> 's \<Rightarrow> message set"
    and held :: "channel \<Rightarrow> 's \<Rightarrow> message set"
    and later :: "'s \<Rightarrow> message set"
  assumes enq_ok: "valid_message m \<Longrightarrow> enq now m s = (None, s') \<Longrightarrow> m \<in> waiting (m_Channel m) s'"
    and enq_waiting: "valid_message m \<Longrightarrow> enq now m s = (e, s') \<Longrightarrow>
          waiting c s \<subseteq> waiting c s' \<and> waiting c s' \<subseteq> insert m (waiting c s)"
    and enq_frame: "valid_message m \<Longrightarrow> enq now m s = (e, s') \<Longrightarrow> held c s' = held c s \<and> later s' = later s"
    and enq_delayed_ok: "valid_message m \<Longrightarrow> enq_delayed now m d s = (None, s') \<Longrightarrow> m \<in> later s'"
    and enq_delayed_later: "valid_message m \<Longrightarrow> enq_delayed now m d s = (e, s') \<Longrightarrow>
          later s \<subseteq> later s' \<and> later s' \<subseteq> insert m (later s)"
    and enq_delayed_frame: "valid_message m \<Longrightarrow> enq_delayed now m d s = (e, s') \<Longrightarrow>
          held c s' = held c s \<and> waiting c s' = waiting c s"
    and ack_ok: "\<forall>m \<in> set ms. valid_message m \<Longrightarrow> ack ch ms s = (None, s') \<Longrightarrow> held ch s' = held ch s - set ms"
    and ack_held: "\<forall>m \<in> set ms. valid_message m \<Longrightarrow> ack ch ms s = (e, s') \<Longrightarrow>
          held c s - set ms \<subseteq> held c s' \<and> held c s' \<subseteq> held c s"
    and ack_frame: "\<forall>m \<in> set ms. valid_message m \<Longrightarrow> ack ch ms s = (e, s') \<Longrightarrow>
          waiting c s' = waiting c s \<and> later s' = later s"

locale message_queue = work_queue enq enq_delayed ack waiting held later
  for enq :: "time \<Rightarrow> message \<Rightarrow> 's \<Rightarrow> err option \<times> 's"
    and enq_delayed :: "time \<Rightarrow> message \<Rightarrow> duration \<Rightarrow> 's \<Rightarrow> err option \<times> 's"
    and ack :: "channel \<Rightarrow> message list \<Rightarrow> 's \<Rightarrow> err option \<times> 's"
    and waiting :: "channel \<Rightarrow> 's \<Rightarrow> message set" and held :: "channel \<Rightarrow> 's \<Rightarrow> message set" and later :: "'s \<Rightarrow> message set" +
  fixes enq_batch :: "(nat \<Rightarrow> time) \<Rightarrow> message list \<Rightarrow> 's \<Rightarrow> err option \<times> 's"
    and dequeue :: "time \<Rightarrow> channel \<Rightarrow> 's \<Rightarrow> message option result \<times> 's"
    and dequeue_batch :: "time \<Rightarrow> channel \<Rightarrow> int \<Rightarrow> 's \<Rightarrow> message list result \<times> 's"
  assumes enq_batch_ok: "\<forall>m \<in> set ms. valid_message m \<Longrightarrow> enq_batch t ms s = (None, s') \<Longrightarrow> m \<in> set ms \<Longrightarrow> m \<in> waiting (m_Channel m) s'"
    and enq_batch_waiting: "\<forall>m \<in> set ms. valid_message m \<Longrightarrow> enq_batch t ms s = (e, s') \<Longrightarrow>
          waiting c s \<subseteq> waiting c s' \<and> waiting c s' \<subseteq> waiting c s \<union> {m \<in> set ms. m_Channel m = c}"
    and enq_batch_frame: "\<forall>m \<in> set ms. valid_message m \<Longrightarrow> enq_batch t ms s = (e, s') \<Longrightarrow> held c s' = held c s \<and> later s' = later s"
    and dequeue_some: "dequeue now ch s = (Inr (Some m), s') \<Longrightarrow> waiting ch s \<subseteq> insert m (waiting ch s')"
    and dequeue_none: "dequeue now ch s = (Inr None, s') \<Longrightarrow> waiting ch s = {}"
    and dequeue_few: "dequeue now ch s = (y, s') \<Longrightarrow> \<exists>X. finite X \<and> card X \<le> 1 \<and> waiting ch s \<subseteq> waiting ch s' \<union> X"
    and dequeue_frame: "dequeue now ch s = (y, s') \<Longrightarrow> waiting c s' \<subseteq> waiting c s \<and> held c s \<subseteq> held c s' \<and>
          held c s' \<subseteq> held c s \<union> waiting c s \<and> (c \<noteq> ch \<longrightarrow> waiting c s' = waiting c s \<and> held c s' = held c s) \<and> later s' = later s"
    and dequeue_batch_ok: "dequeue_batch now ch cnt s = (Inr ms, s') \<Longrightarrow>
          length ms \<le> nat cnt \<and> waiting ch s \<subseteq> waiting ch s' \<union> (held ch s' \<inter> set ms)"
    and dequeue_batch_few: "dequeue_batch now ch cnt s = (x, s') \<Longrightarrow>
          \<exists>X. finite X \<and> card X \<le> nat cnt \<and> waiting ch s \<subseteq> waiting ch s' \<union> X"
    and dequeue_batch_frame: "dequeue_batch now ch cnt s = (x, s') \<Longrightarrow> waiting c s' \<subseteq> waiting c s \<and> held c s \<subseteq> held c s' \<and>
          held c s' \<subseteq> held c s \<union> waiting c s \<and> (c \<noteq> ch \<longrightarrow> waiting c s' = waiting c s \<and> held c s' = held c s) \<and> later s' = later s"
begin

lemma dequeue_batch_conserves: "dequeue_batch now ch cnt s = (Inr ms, s') \<Longrightarrow> waiting c s' \<union> held c s' = waiting c s \<union> held c s"
  using dequeue_batch_ok [of now ch cnt s ms s'] dequeue_batch_frame [of now ch cnt s "Inr ms" s' c] by blast

end

section \<open>The Redis queue fulfils the contract\<close>

locale msg_codec =
  fixes js :: codec
  assumes marshal_ok: "valid_message m \<Longrightarrow> m_ScheduledAt m = None \<Longrightarrow> \<exists>d. marshal js m = Inr d"
    and roundtrip: "valid_message m \<Longrightarrow> marshal js m = Inr d \<Longrightarrow> unmarshal js d = Inr m"

locale redis_queue = redis_server rd + msg_codec js for rd :: "'r redis" and js :: codec

lemma queue_keys [simp]:
  "queuePrefix \<noteq> processingPrefix" "processingPrefix \<noteq> queuePrefix"
  "queuePrefix @ c \<noteq> processingPrefix @ c'" "processingPrefix @ c' \<noteq> queuePrefix @ c"
  "queuePrefix @ c \<noteq> retryDelayedKey" "retryDelayedKey \<noteq> queuePrefix @ c"
  "processingPrefix @ c \<noteq> retryDelayedKey" "retryDelayedKey \<noteq> processingPrefix @ c"
  by (simp_all add: queuePrefix_def processingPrefix_def retryDelayedKey_def)

context msg_codec
begin

lemma marshal_inj:
  "valid_message m \<Longrightarrow> valid_message m' \<Longrightarrow> marshal js m = Inr d \<Longrightarrow> marshal js m' = Inr d \<Longrightarrow> m = m'"
  using roundtrip by (metis sum.inject(2))

lemma marshal_all_members:
  "marshal_all js ms = Inr ds \<Longrightarrow> set ds = {d. \<exists>m \<in> set ms. marshal js m = Inr d}"
  by (induction ms arbitrary: ds) (auto split: sum.splits)

end

context redis_queue
begin

text \<open>How the three observations change with the sorted set of one key.\<close>

lemma in_zset_upd_add:
  assumes "rd_zset rd r' = (rd_zset rd r)(k := z_add s d (rd_zset rd r k))"
  shows "in_zset rd js k' r' m = (in_zset rd js k' r m \<or> k' = k \<and> marshal js m = Inr d)"
  using assms by (auto simp: in_zset_def split: sum.splits)

lemma in_zset_upd_rem:
  assumes "rd_zset rd r' = (rd_zset rd r)(k := z_rem ds (rd_zset rd r k))"
  shows "in_zset rd js k' r' m =
    (in_zset rd js k' r m \<and> \<not> (k' = k \<and> (\<exists>d \<in> set ds. marshal js m = Inr d)))"
  using assms by (auto simp: in_zset_def split: sum.splits)

lemma in_zset_same: "rd_zset rd r' = rd_zset rd r \<Longrightarrow> in_zset rd js k r' m = in_zset rd js k r m"
  by (simp add: in_zset_def split: sum.splits)

text \<open>Adding one encoded message to a key, in whatever way the call ends.\<close>

lemma zadd_in_zset:
  assumes "valid_message m" "marshal js m = Inr d"
    and "rd_do rd (rd_zadd rd k s d) r = (e, r')"
  shows "e = None \<Longrightarrow> in_zset rd js k r' m"
    and "in_zset rd js k' r m' \<Longrightarrow> in_zset rd js k' r' m'"
    and "valid_message m' \<Longrightarrow> in_zset rd js k' r' m' \<Longrightarrow>
         in_zset rd js k' r m' \<or> k' = k \<and> m' = m"
  using zadd_effect [OF assms(3)] assms(1,2) marshal_inj
  by (auto simp: in_zset_upd_add dest: in_zset_same)

lemma Enqueue_in_zset:
  assumes "valid_message m" "Producer_Enqueue rd js now m r = (e, r')"
  shows "e = None \<Longrightarrow> in_zset rd js (queuePrefix @ m_Channel m) r' m"
    and "in_zset rd js k r m' \<Longrightarrow> in_zset rd js k r' m'"
    and "valid_message m' \<Longrightarrow> in_zset rd js k r' m' \<Longrightarrow>
         in_zset rd js k r m' \<or> k = queuePrefix @ m_Channel m \<and> m' = m"
  using assms zadd_in_zset [OF assms(1)]
  by (auto simp: Producer_Enqueue_def Let_def split: sum.splits)

lemma EnqueueDelayed_in_zset:
  assumes "valid_message m" "Producer_EnqueueDelayed rd js now m d r = (e, r')"
  shows "e = None \<Longrightarrow> in_zset rd js retryDelayedKey r' m"
    and "in_zset rd js k r m' \<Longrightarrow> in_zset rd js k r' m'"
    and "valid_message m' \<Longrightarrow> in_zset rd js k r' m' \<Longrightarrow>
         in_zset rd js k r m' \<or> k = retryDelayedKey \<and> m' = m"
  using assms zadd_in_zset [OF assms(1)]
  by (auto simp: Producer_EnqueueDelayed_def Let_def split: sum.splits)

text \<open>An acknowledgement removes the encoded messages from the channel's processing set, or fails.\<close>

lemma Ack_effect:
  assumes "Consumer_Ack rd js ch ms r = (e, r')"
  obtains (unchanged) "rd_zset rd r' = rd_zset rd r" "e = None \<longrightarrow> ms = []"
  | (removed) ds where "marshal_all js ms = Inr ds"
      "rd_zset rd r' = (rd_zset rd r)(processingPrefix @ ch := z_rem ds (rd_zset rd r (processingPrefix @ ch)))"
proof (cases "ms = []")
  case True
  then show ?thesis using assms unchanged by (simp add: Consumer_Ack_def)
next
  case False
  show ?thesis
  proof (cases "marshal_all js ms")
    case (Inl x)
    then show ?thesis using assms False unchanged by (auto simp: Consumer_Ack_def)
  next
    case (Inr ds)
    then have "rd_do rd (rd_zrem rd (processingPrefix @ ch) ds) r = (e, r')"
      using assms False by (simp add: Consumer_Ack_def)
    from zrem_effect [OF this] Inr show ?thesis
      by (metis removed unchanged)
  qed
qed

lemma Ack_in_zset:
  assumes "\<forall>m \<in> set ms. valid_message m" "Consumer_Ack rd js ch ms r = (e, r')" "valid_message m"
  shows "in_zset rd js k r' m = in_zset rd js k r m \<and> (e = None \<longrightarrow> ms = []) \<or>
    in_zset rd js k r' m = (in_zset rd js k r m \<and> \<not> (k = processingPrefix @ ch \<and> m \<in> set ms))"
  using assms(2)
proof (cases rule: Ack_effect)
  case unchanged
  then show ?thesis using in_zset_same [OF unchanged(1)] by simp
next
  case (removed ds)
  have "(\<exists>d \<in> set ds. marshal js m = Inr d) = (m \<in> set ms)" if mem: "in_zset rd js k r m"
  proof -
    obtain d where d: "marshal js m = Inr d"
      using mem by (auto simp: in_zset_def split: sum.splits)
    then have "(\<exists>d \<in> set ds. marshal js m = Inr d) = (\<exists>m' \<in> set ms. marshal js m' = Inr d)"
      by (simp add: marshal_all_members [OF removed(1)])
    also have "\<dots> = (m \<in> set ms)" using d assms(1,3) by (metis marshal_inj)
    finally show ?thesis .
  qed
  then show ?thesis using in_zset_upd_rem [OF removed(2)] by blast
qed

end

sublocale redis_queue \<subseteq> work_queue "Producer_Enqueue rd js" "Producer_EnqueueDelayed rd js"
  "Consumer_Ack rd js" "ready rd js" "inflight rd js" "delayed rd js"
proof unfold_locales
  fix m now r r' assume "valid_message m" "Producer_Enqueue rd js now m r = (None, r')"
  then show "m \<in> ready rd js (m_Channel m) r'"
    using Enqueue_in_zset(1) by (simp add: ready_def)
next
  fix m now r e r' c assume m: "valid_message m" "Producer_Enqueue rd js now m r = (e, r')"
  show "ready rd js c r \<subseteq> ready rd js c r' \<and> ready rd js c r' \<subseteq> insert m (ready rd js c r)"
    using Enqueue_in_zset(2,3) [OF m] by (auto simp: ready_def)
  show "inflight rd js c r' = inflight rd js c r \<and> delayed rd js r' = delayed rd js r"
    using Enqueue_in_zset(2,3) [OF m] by (fastforce simp: inflight_def delayed_def)
next
  fix m now d r r' assume "valid_message m" "Producer_EnqueueDelayed rd js now m d r = (None, r')"
  then show "m \<in> delayed rd js r'"
    using EnqueueDelayed_in_zset(1) by (simp add: delayed_def)
next
  fix m now d r e r' c
  assume m: "valid_message m" "Producer_EnqueueDelayed rd js now m d r = (e, r')"
  show "delayed rd js r \<subseteq> delayed rd js r' \<and> delayed rd js r' \<subseteq> insert m (delayed rd js r)"
    using EnqueueDelayed_in_zset(2,3) [OF m] by (auto simp: delayed_def)
  show "inflight rd js c r' = inflight rd js c r \<and> ready rd js c r' = ready rd js c r"
    using EnqueueDelayed_in_zset(2,3) [OF m] by (fastforce simp: inflight_def ready_def)
next
  fix ms ch r r'
  assume m: "\<forall>m \<in> set ms. valid_message m" "Consumer_Ack rd js ch ms r = (None, r')"
  show "inflight rd js ch r' = inflight rd js ch r - set ms"
    using Ack_in_zset [OF m, where k = "processingPrefix @ ch"] by (fastforce simp: inflight_def)
next
  fix ms ch r e r' c
  assume m: "\<forall>m \<in> set ms. valid_message m" "Consumer_Ack rd js ch ms r = (e, r')"
  show "inflight rd js c r - set ms \<subseteq> inflight rd js c r' \<and> inflight rd js c r' \<subseteq> inflight rd js c r"
    using Ack_in_zset [OF m, where k = "processingPrefix @ c"] by (fastforce simp: inflight_def)
  show "ready rd js c r' = ready rd js c r \<and> delayed rd js r' = delayed rd js r"
    using Ack_in_zset [OF m, where k = "queuePrefix @ c"] Ack_in_zset [OF m, where k = retryDelayedKey]
    by (fastforce simp: ready_def delayed_def)
qed

section \<open>Dequeuing\<close>

definition hold_all :: "float64 \<Rightarrow> zset \<Rightarrow> zset \<Rightarrow> zset" where
  "hold_all deadline zs z = fold (\<lambda>e. z_add deadline (snd e)) zs z"

lemma z_members_hold_all [simp]: "z_members (hold_all d zs z) = z_members z \<union> z_members zs"
proof -
  have "z_members (fold (\<lambda>e. z_add d (snd e)) zs z) = z_members z \<union> z_members zs"
    by (induction zs arbitrary: z) (auto simp: z_members_def image_iff)
  then show ?thesis by (simp add: hold_all_def)
qed

lemma unmarshal_all_conv:
  "unmarshal_all js ds = Inr ms \<longleftrightarrow> map (unmarshal js) ds = map Inr ms"
proof (induction ds arbitrary: ms)
  case Nil
  then show ?case by auto
next
  case (Cons d ds)
  then show ?case
    by (cases ms) (auto split: sum.splits simp flip: Cons.IH)
qed

lemma unmarshal_all_error:
  "d \<in> set ds \<Longrightarrow> unmarshal js d = Inl e \<Longrightarrow> \<exists>e'. unmarshal_all js ds = Inl e'"
  by (induction ds) (auto split: sum.splits)

context redis_server
begin

lemma pipeline_zadd:
  "rd_pipeline rd (map (\<lambda>z. rd_zadd rd k d (snd z)) zs) r = (None, r') \<Longrightarrow>
   rd_zset rd r' = (rd_zset rd r)(k := hold_all d zs (rd_zset rd r k))"
proof (induction zs arbitrary: r)
  case Nil
  then show ?case by (simp add: hold_all_def)
next
  case (Cons z zs)
  from Cons.prems obtain r1 where
      1: "rd_do rd (rd_zadd rd k d (snd z)) r = (None, r1)"
      and 2: "rd_pipeline rd (map (\<lambda>z. rd_zadd rd k d (snd z)) zs) r1 = (None, r')"
    by (auto split: prod.splits if_splits)
  show ?case using Cons.IH [OF 2] zadd_effect(1) [OF 1] by (simp add: hold_all_def fun_eq_iff)
qed

lemma popmin_effect:
  assumes "remote (rd_net rd) (rd_zpopmin rd k n) r = (x, r')"
  shows "x = Inr zs \<Longrightarrow> zs = take n (rd_zset rd r k) \<and>
           rd_zset rd r' = (rd_zset rd r)(k := drop n (rd_zset rd r k))"
  using assms zpopmin_result zpopmin_state net_state
  by (cases rule: remote_cases) (fastforce simp: prod_eq_iff)+

lemma DequeueBatch_effect:
  assumes "Consumer_DequeueBatch rd js vt now ch cnt r = (Inr ms, r')"
  defines "popped \<equiv> take (nat cnt) (rd_zset rd r (queuePrefix @ ch))"
  shows "map (unmarshal js) (map snd popped) = map Inr ms"
    and "rd_zset rd r' = (rd_zset rd r)
      (queuePrefix @ ch := drop (nat cnt) (rd_zset rd r (queuePrefix @ ch)),
       processingPrefix @ ch := hold_all (float64_of_int (now + vt)) popped
         (rd_zset rd r (processingPrefix @ ch)))"
proof -
  obtain zs r1 where pop: "remote (rd_net rd) (rd_zpopmin rd (queuePrefix @ ch) (nat cnt)) r = (Inr zs, r1)"
    and rest: "zs = [] \<and> ms = [] \<and> r' = r1 \<or>
      unmarshal_all js (map snd zs) = Inr ms \<and>
      rd_pipeline rd (map (\<lambda>z. rd_zadd rd (processingPrefix @ ch) (float64_of_int (now + vt)) (snd z)) zs) r1
        = (None, r')"
    using assms(1)
    by (auto simp: Consumer_DequeueBatch_def Let_def split: prod.splits sum.splits if_splits option.splits)
  from popmin_effect [OF pop] have zs: "zs = popped"
    and Z1: "rd_zset rd r1 = (rd_zset rd r)(queuePrefix @ ch := drop (nat cnt) (rd_zset rd r (queuePrefix @ ch)))"
    by (simp_all add: popped_def)
  show "map (unmarshal js) (map snd popped) = map Inr ms"
    using rest zs by (auto simp: unmarshal_all_conv)
  show "rd_zset rd r' = (rd_zset rd r)
      (queuePrefix @ ch := drop (nat cnt) (rd_zset rd r (queuePrefix @ ch)),
       processingPrefix @ ch := hold_all (float64_of_int (now + vt)) popped
         (rd_zset rd r (processingPrefix @ ch)))"
    using rest
  proof
    assume "zs = [] \<and> ms = [] \<and> r' = r1"
    then show ?thesis using Z1 zs by (simp add: hold_all_def fun_eq_iff)
  next
    assume "unmarshal_all js (map snd zs) = Inr ms \<and>
      rd_pipeline rd (map (\<lambda>z. rd_zadd rd (processingPrefix @ ch) (float64_of_int (now + vt)) (snd z)) zs) r1
        = (None, r')"
    from pipeline_zadd [OF conjunct2 [OF this]] show ?thesis using Z1 zs by simp
  qed
qed

end

section \<open>The whole contract\<close>

text \<open>A pipeline of \<open>ZADD\<close> commands, in whatever way its calls end, and the members it adds to a key.\<close>

abbreviation zadds :: "'r redis \<Rightarrow> (string \<times> float64 \<times> string) list \<Rightarrow> ('r \<Rightarrow> 'r) list" where
  "zadds rd xs \<equiv> map (\<lambda>(k, s, d). rd_zadd rd k s d) xs"

definition added :: "string \<Rightarrow> (string \<times> float64 \<times> string) list \<Rightarrow> string set" where
  "added k xs = (\<lambda>x. snd (snd x)) ` {x \<in> set xs. fst x = k}"

lemma added_simps [simp]: "added k [] = {}" "added k ((k0, s, d) # xs) = (if k0 = k then insert d (added k xs) else added k xs)"
  by (force simp: added_def image_iff)+

context redis_server
begin

lemma pipeline_zadds:
  assumes "rd_pipeline rd (zadds rd xs) r = (e, r')"
  shows "z_members (rd_zset rd r k) \<subseteq> z_members (rd_zset rd r' k)"
    "z_members (rd_zset rd r' k) \<subseteq> z_members (rd_zset rd r k) \<union> added k xs"
    "e = None \<Longrightarrow> added k xs \<subseteq> z_members (rd_zset rd r' k)"
proof -
  have "z_members (rd_zset rd r k) \<subseteq> z_members (rd_zset rd r' k) \<and>
    z_members (rd_zset rd r' k) \<subseteq> z_members (rd_zset rd r k) \<union> added k xs \<and> (e = None \<longrightarrow> added k xs \<subseteq> z_members (rd_zset rd r' k))"
    using assms
  proof (induction xs arbitrary: r e)
    case (Cons x xs)
    obtain k0 s d where x: "x = (k0, s, d)" by (cases x)
    obtain e1 r1 where c1: "rd_do rd (rd_zadd rd k0 s d) r = (e1, r1)" by fastforce
    obtain e2 where c2: "rd_pipeline rd (zadds rd xs) r1 = (e2, r')" "e = (if e1 = None then e2 else e1)"
      using Cons.prems by (auto simp: x c1 split: prod.splits)
    note z = zadd_effect [OF c1]
    have 1: "z_members (rd_zset rd r k) \<subseteq> z_members (rd_zset rd r1 k)"
      "z_members (rd_zset rd r1 k) \<subseteq> z_members (rd_zset rd r k) \<union> added k [x]" using z(2) by (auto simp: x)
    have 2: "added k [x] \<subseteq> z_members (rd_zset rd r1 k)" if "e1 = None" using z(1) [OF that] by (simp add: x)
    have "added k (x # xs) = added k [x] \<union> added k xs" by (simp add: x)
    then show ?case using Cons.IH [OF c2(1)] 1 2 c2(2) by (cases "e1 = None") auto
  qed simp
  then show "z_members (rd_zset rd r k) \<subseteq> z_members (rd_zset rd r' k)"
    "z_members (rd_zset rd r' k) \<subseteq> z_members (rd_zset rd r k) \<union> added k xs"
    "e = None \<Longrightarrow> added k xs \<subseteq> z_members (rd_zset rd r' k)" by blast+
qed

lemma pipeline_other:
  assumes "rd_pipeline rd (map (\<lambda>z. rd_zadd rd k t (snd z)) zs) r = (e, r')" "k' \<noteq> k"
  shows "rd_zset rd r' k' = rd_zset rd r k'"
  using assms(1)
proof (induction zs arbitrary: r e)
  case (Cons z zs)
  obtain e1 r1 where 1: "rd_do rd (rd_zadd rd k t (snd z)) r = (e1, r1)" by fastforce
  obtain e2 where 2: "rd_pipeline rd (map (\<lambda>z. rd_zadd rd k t (snd z)) zs) r1 = (e2, r')"
    using Cons.prems 1 by (auto split: prod.splits)
  have "rd_zset rd r1 k' = rd_zset rd r k'" using zadd_effect(2) [OF 1] assms(2) by auto
  then show ?case using Cons.IH [OF 2] by simp
qed simp

lemma popmin_members:
  assumes "remote (rd_net rd) (rd_zpopmin rd k n) r = (x, r1)"
  shows "rd_zset rd r1 = rd_zset rd r \<and> (\<exists>e. x = Inl e) \<or>
    rd_zset rd r1 = (rd_zset rd r)(k := drop n (rd_zset rd r k)) \<and> (\<forall>zs. x = Inr zs \<longrightarrow> zs = take n (rd_zset rd r k))"
  using assms zpopmin_result zpopmin_state net_state
  by (cases rule: remote_cases) (fastforce simp: prod_eq_iff)+

end

text \<open>The commands of \<open>EnqueueBatch\<close>.\<close>

lemma enqueue_cmds_zadds:
  assumes "enqueue_cmds rd js now i ms = Inr cmds"
  shows "\<exists>xs. cmds = zadds rd xs \<and> (\<forall>k. added k xs = {d. \<exists>m \<in> set ms. queuePrefix @ m_Channel m = k \<and> marshal js m = Inr d}) \<and>
    (\<forall>m \<in> set ms. \<exists>d. marshal js m = Inr d)"
  using assms
proof (induction ms arbitrary: i cmds)
  case (Cons m ms)
  then obtain d cs where d: "marshal js m = Inr d" "enqueue_cmds rd js now (Suc i) ms = Inr cs"
    "cmds = rd_zadd rd (queuePrefix @ m_Channel m) (calculateScore (now i) m) d # cs" by (auto split: sum.splits)
  obtain xs where xs: "cs = zadds rd xs" "\<And>k. added k xs = {d. \<exists>m \<in> set ms. queuePrefix @ m_Channel m = k \<and> marshal js m = Inr d}"
    "\<forall>m \<in> set ms. \<exists>d. marshal js m = Inr d"
    using Cons.IH [OF d(2)] by blast
  let ?xs = "(queuePrefix @ m_Channel m, calculateScore (now i) m, d) # xs"
  have "added k ?xs = {d. \<exists>m \<in> set (m # ms). queuePrefix @ m_Channel m = k \<and> marshal js m = Inr d}" for k
    using xs(2) d(1) by auto
  then show ?case using d(1,3) xs(1,3) by (intro exI [of _ ?xs]) simp
qed simp

context redis_queue
begin

lemma in_zset_iff: "in_zset rd js k r m \<longleftrightarrow> (\<exists>d. marshal js m = Inr d \<and> d \<in> z_members (rd_zset rd r k))"
  by (auto simp: in_zset_def split: sum.splits)

lemma EnqueueBatch_cases:
  assumes "Producer_EnqueueBatch rd js now ms r = (e, r')"
  obtains (none) "rd_zset rd r' = rd_zset rd r" "e = None \<Longrightarrow> ms = []"
  | (cmds) xs e0 where "rd_pipeline rd (zadds rd xs) r = (e0, r')" "e = None \<longleftrightarrow> e0 = None"
      "\<And>k. added k xs = {d. \<exists>m \<in> set ms. queuePrefix @ m_Channel m = k \<and> marshal js m = Inr d}"
      "\<And>m. m \<in> set ms \<Longrightarrow> \<exists>d. marshal js m = Inr d"
proof (cases "ms \<noteq> [] \<and> (\<exists>cmds. enqueue_cmds rd js now 0 ms = Inr cmds)")
  case False
  then have "rd_zset rd r' = rd_zset rd r" "e = None \<Longrightarrow> ms = []"
    using assms by (auto simp: Producer_EnqueueBatch_def split: sum.splits if_splits)
  then show ?thesis by (rule none)
next
  case True
  then obtain cs where cs: "ms \<noteq> []" "enqueue_cmds rd js now 0 ms = Inr cs" by blast
  then obtain xs where xs: "cs = zadds rd xs"
    "\<forall>k. added k xs = {d. \<exists>m \<in> set ms. queuePrefix @ m_Channel m = k \<and> marshal js m = Inr d}" "\<forall>m \<in> set ms. \<exists>d. marshal js m = Inr d"
    using enqueue_cmds_zadds [OF cs(2)] by blast
  obtain e0 r0 where p: "rd_pipeline rd (zadds rd xs) r = (e0, r0)" by fastforce
  then have "r0 = r'" "e = None \<longleftrightarrow> e0 = None"
    using assms cs xs(1) by (auto simp: Producer_EnqueueBatch_def split: option.splits)
  then show ?thesis using p xs(2,3) by (intro cmds [of xs e0]) auto
qed

lemma EnqueueBatch_in_zset:
  assumes "\<forall>m \<in> set ms. valid_message m" "Producer_EnqueueBatch rd js now ms r = (e, r')"
  shows "e = None \<Longrightarrow> m \<in> set ms \<Longrightarrow> in_zset rd js (queuePrefix @ m_Channel m) r' m"
    and "in_zset rd js k r m' \<Longrightarrow> in_zset rd js k r' m'"
    and "valid_message m' \<Longrightarrow> in_zset rd js k r' m' \<Longrightarrow> in_zset rd js k r m' \<or> m' \<in> set ms \<and> k = queuePrefix @ m_Channel m'"
proof -
  have "(e = None \<longrightarrow> m \<in> set ms \<longrightarrow> in_zset rd js (queuePrefix @ m_Channel m) r' m) \<and>
    (in_zset rd js k r m' \<longrightarrow> in_zset rd js k r' m') \<and>
    (valid_message m' \<longrightarrow> in_zset rd js k r' m' \<longrightarrow> in_zset rd js k r m' \<or> m' \<in> set ms \<and> k = queuePrefix @ m_Channel m')"
    using assms(2)
  proof (cases rule: EnqueueBatch_cases)
    case none
    then show ?thesis using in_zset_same [OF none(1)] by auto
  next
    case (cmds xs e0)
    note q = pipeline_zadds [OF cmds(1), unfolded cmds(3)]
    have "in_zset rd js (queuePrefix @ m_Channel m) r' m" if m: "e = None" "m \<in> set ms"
    proof -
      obtain d where d: "marshal js m = Inr d" using cmds(4) [OF m(2)] by blast
      then have "d \<in> z_members (rd_zset rd r' (queuePrefix @ m_Channel m))" using q(3) cmds(2) m by blast
      then show ?thesis using d by (simp add: in_zset_def)
    qed
    moreover have "in_zset rd js k r m' \<longrightarrow> in_zset rd js k r' m'" unfolding in_zset_iff using q(1) by blast
    moreover have "in_zset rd js k r m' \<or> m' \<in> set ms \<and> k = queuePrefix @ m_Channel m'" if v: "valid_message m'" "in_zset rd js k r' m'"
    proof (cases "in_zset rd js k r m'")
      case False
      obtain d where d: "marshal js m' = Inr d" "d \<in> z_members (rd_zset rd r' k)" using v(2) unfolding in_zset_iff by blast
      then obtain m where "m \<in> set ms" "queuePrefix @ m_Channel m = k" "marshal js m = Inr d"
        using q(2) [of k] False unfolding in_zset_iff by blast
      moreover have "m = m'" using marshal_inj [OF _ v(1)] calculation assms(1) d(1) by blast
      ultimately show ?thesis by blast
    qed simp
    ultimately show ?thesis by blast
  qed
  then show "e = None \<Longrightarrow> m \<in> set ms \<Longrightarrow> in_zset rd js (queuePrefix @ m_Channel m) r' m"
    "in_zset rd js k r m' \<Longrightarrow> in_zset rd js k r' m'"
    "valid_message m' \<Longrightarrow> in_zset rd js k r' m' \<Longrightarrow> in_zset rd js k r m' \<or> m' \<in> set ms \<and> k = queuePrefix @ m_Channel m'"
    by blast+
qed

text \<open>
  What a dequeue of at most \<open>n\<close> messages can do: pop the first \<open>j\<close> members of the channel's
  queue, and put some of these into its processing set.
\<close>

definition dequeued :: "nat \<Rightarrow> channel \<Rightarrow> 'r \<Rightarrow> 'r \<Rightarrow> bool" where
  "dequeued n ch r r' =
     (\<exists>j \<le> n. rd_zset rd r' (queuePrefix @ ch) = drop j (rd_zset rd r (queuePrefix @ ch)) \<and>
        z_members (rd_zset rd r (processingPrefix @ ch)) \<subseteq> z_members (rd_zset rd r' (processingPrefix @ ch)) \<and>
        z_members (rd_zset rd r' (processingPrefix @ ch)) \<subseteq>
          z_members (rd_zset rd r (processingPrefix @ ch)) \<union> z_members (take j (rd_zset rd r (queuePrefix @ ch))) \<and>
        (\<forall>k. k \<noteq> queuePrefix @ ch \<longrightarrow> k \<noteq> processingPrefix @ ch \<longrightarrow> z_members (rd_zset rd r' k) = z_members (rd_zset rd r k)))"

lemma dequeued_frame:
  assumes "dequeued n ch r r'"
  shows "ready rd js c r' \<subseteq> ready rd js c r \<and> inflight rd js c r \<subseteq> inflight rd js c r' \<and>
    inflight rd js c r' \<subseteq> inflight rd js c r \<union> ready rd js c r \<and>
    (c \<noteq> ch \<longrightarrow> ready rd js c r' = ready rd js c r \<and> inflight rd js c r' = inflight rd js c r) \<and> delayed rd js r' = delayed rd js r"
proof -
  obtain j where j: "rd_zset rd r' (queuePrefix @ ch) = drop j (rd_zset rd r (queuePrefix @ ch))"
    "z_members (rd_zset rd r (processingPrefix @ ch)) \<subseteq> z_members (rd_zset rd r' (processingPrefix @ ch))"
    "z_members (rd_zset rd r' (processingPrefix @ ch)) \<subseteq>
       z_members (rd_zset rd r (processingPrefix @ ch)) \<union> z_members (take j (rd_zset rd r (queuePrefix @ ch)))"
    "\<And>k. k \<noteq> queuePrefix @ ch \<Longrightarrow> k \<noteq> processingPrefix @ ch \<Longrightarrow> z_members (rd_zset rd r' k) = z_members (rd_zset rd r k)"
    using assms unfolding dequeued_def by blast
  have z: "z_members (take j z) \<subseteq> z_members z" "z_members (drop j z) \<subseteq> z_members z" for z
    using z_members_take_drop [of z j] by auto
  have other: "in_zset rd js k r' m = in_zset rd js k r m" if "k \<noteq> queuePrefix @ ch" "k \<noteq> processingPrefix @ ch" for k m
    using j(4) [OF that] by (simp add: in_zset_def split: sum.splits)
  show ?thesis
  proof (cases "c = ch")
    case True
    have "ready rd js ch r' \<subseteq> ready rd js ch r" unfolding ready_def in_zset_iff j(1) using z by blast
    moreover have "inflight rd js ch r \<subseteq> inflight rd js ch r'" unfolding inflight_def in_zset_iff using j(2) by blast
    moreover have "inflight rd js ch r' \<subseteq> inflight rd js ch r \<union> ready rd js ch r"
      unfolding inflight_def ready_def in_zset_iff using j(3) z by blast
    ultimately show ?thesis using True other by (simp add: delayed_def)
  next
    case False
    then show ?thesis using other by (simp add: ready_def inflight_def delayed_def)
  qed
qed

lemma dequeued_few:
  assumes "dequeued n ch r r'"
  shows "\<exists>X. finite X \<and> card X \<le> n \<and> ready rd js ch r \<subseteq> ready rd js ch r' \<union> X"
proof -
  obtain j where j: "j \<le> n" "rd_zset rd r' (queuePrefix @ ch) = drop j (rd_zset rd r (queuePrefix @ ch))"
    using assms unfolding dequeued_def by blast
  let ?Z = "take j (rd_zset rd r (queuePrefix @ ch))"
  let ?X = "{m. valid_message m \<and> (\<exists>d \<in> z_members ?Z. marshal js m = Inr d)}"
  let ?f = "\<lambda>m. projr (marshal js m)"
  have fin: "finite (z_members ?Z)" and len: "card (z_members ?Z) \<le> n"
    using card_image_le [of "set ?Z" snd] card_length [of ?Z] j(1) by (auto simp: z_members_def)
  have inj: "inj_on ?f ?X" using marshal_inj by (fastforce intro!: inj_onI)
  have sub: "?f ` ?X \<subseteq> z_members ?Z" by auto
  have "finite ?X" "card ?X \<le> n"
    using inj_on_finite [OF inj sub fin] card_inj_on_le [OF inj sub fin] len by simp_all
  moreover have "ready rd js ch r \<subseteq> ready rd js ch r' \<union> ?X"
    using z_members_take_drop [of "rd_zset rd r (queuePrefix @ ch)" j] by (auto simp: ready_def in_zset_iff j(2))
  ultimately show ?thesis by blast
qed

text \<open>A pop followed by \<open>ZADD\<close> commands for popped members, or by nothing.\<close>

lemma dequeuedI:
  assumes pop: "remote (rd_net rd) (rd_zpopmin rd (queuePrefix @ ch) n) r = (x, r1)"
    and rest: "r' = r1 \<or> (\<exists>xs e. rd_pipeline rd (zadds rd xs) r1 = (e, r') \<and>
      (\<forall>k. k \<noteq> processingPrefix @ ch \<longrightarrow> added k xs = {}) \<and> (\<exists>zs. x = Inr zs \<and> added (processingPrefix @ ch) xs \<subseteq> z_members zs)) \<and>
      rd_zset rd r' (queuePrefix @ ch) = rd_zset rd r1 (queuePrefix @ ch)"
  shows "dequeued n ch r r'"
proof -
  let ?q = "queuePrefix @ ch" and ?p = "processingPrefix @ ch"
  obtain j where j: "j \<le> n" "rd_zset rd r1 = (rd_zset rd r)(?q := drop j (rd_zset rd r ?q))"
    "\<And>zs. x = Inr zs \<Longrightarrow> zs = take j (rd_zset rd r ?q)"
    using popmin_members [OF pop] by (metis drop0 fun_upd_triv le0 order_refl sum.distinct(1))
  have q: "rd_zset rd r' ?q = drop j (rd_zset rd r ?q)" using rest j(2) by auto
  have m: "z_members (rd_zset rd r1 k) \<subseteq> z_members (rd_zset rd r' k)"
    "z_members (rd_zset rd r' k) \<subseteq> z_members (rd_zset rd r1 k) \<union> (if k = ?p then z_members (take j (rd_zset rd r ?q)) else {})" for k
  proof -
    have "z_members (rd_zset rd r1 k) \<subseteq> z_members (rd_zset rd r' k) \<and>
      z_members (rd_zset rd r' k) \<subseteq> z_members (rd_zset rd r1 k) \<union> (if k = ?p then z_members (take j (rd_zset rd r ?q)) else {})"
      using rest
    proof (elim disjE conjE exE)
      fix xs e zs
      assume a: "rd_pipeline rd (zadds rd xs) r1 = (e, r')" "\<forall>k. k \<noteq> ?p \<longrightarrow> added k xs = {}" "x = Inr zs" "added ?p xs \<subseteq> z_members zs"
      then show ?thesis using pipeline_zadds(1,2) [OF a(1), of k] j(3) [OF a(3)] by (cases "k = ?p") auto
    qed simp
    then show "z_members (rd_zset rd r1 k) \<subseteq> z_members (rd_zset rd r' k)"
      "z_members (rd_zset rd r' k) \<subseteq> z_members (rd_zset rd r1 k) \<union> (if k = ?p then z_members (take j (rd_zset rd r ?q)) else {})" by blast+
  qed
  have "z_members (rd_zset rd r' k) = z_members (rd_zset rd r k)" if "k \<noteq> ?q" "k \<noteq> ?p" for k
    using m [of k] that j(2) by auto
  moreover have "z_members (rd_zset rd r ?p) \<subseteq> z_members (rd_zset rd r' ?p)"
    "z_members (rd_zset rd r' ?p) \<subseteq> z_members (rd_zset rd r ?p) \<union> z_members (take j (rd_zset rd r ?q))"
    using m [of ?p] j(2) by auto
  ultimately show ?thesis using j(1) q unfolding dequeued_def by blast
qed

lemma DequeueBatch_dequeued:
  assumes "Consumer_DequeueBatch rd js vt now ch cnt r = (x, r')"
  shows "dequeued (nat cnt) ch r r'"
proof -
  obtain y r1 where pop: "remote (rd_net rd) (rd_zpopmin rd (queuePrefix @ ch) (nat cnt)) r = (y, r1)" by fastforce
  let ?t = "float64_of_int (now + vt)"
  show ?thesis
  proof (cases "r' = r1")
    case False
    then obtain zs e where zs: "y = Inr zs" "rd_pipeline rd (map (\<lambda>z. rd_zadd rd (processingPrefix @ ch) ?t (snd z)) zs) r1 = (e, r')"
      using assms pop by (auto simp: Consumer_DequeueBatch_def Let_def split: sum.splits if_splits option.splits prod.splits)
    let ?xs = "map (\<lambda>z. (processingPrefix @ ch, ?t, snd z)) zs"
    have p: "rd_pipeline rd (zadds rd ?xs) r1 = (e, r')" using zs(2) by (simp add: comp_def)
    have ad: "added k ?xs = (if k = processingPrefix @ ch then z_members zs else {})" for k
      by (induction zs) (force simp: z_members_def)+
    have "rd_zset rd r' (queuePrefix @ ch) = rd_zset rd r1 (queuePrefix @ ch)" using pipeline_other [OF zs(2)] by simp
    then show ?thesis using p ad zs(1) by (intro dequeuedI [OF pop] disjI2 conjI exI [of _ ?xs] exI [of _ e]) auto
  qed (use dequeuedI [OF pop] in simp)
qed

lemma Dequeue_dequeued:
  assumes "Consumer_Dequeue rd js vt now ch r = (x, r')"
  shows "dequeued 1 ch r r'"
proof -
  obtain y r1 where pop: "remote (rd_net rd) (rd_zpopmin rd (queuePrefix @ ch) 1) r = (y, r1)" by fastforce
  let ?t = "float64_of_int (now + vt)"
  show ?thesis
  proof (cases "r' = r1")
    case False
    then obtain z zs where z: "y = Inr (z # zs)" "r' = snd (rd_do rd (rd_zadd rd (processingPrefix @ ch) ?t (snd z)) r1)"
      using assms pop by (auto simp: Consumer_Dequeue_def Let_def split: sum.splits list.splits)
    let ?xs = "[(processingPrefix @ ch, ?t, snd z)]"
    obtain e where e: "rd_do rd (rd_zadd rd (processingPrefix @ ch) ?t (snd z)) r1 = (e, r')" using z(2) by (metis prod.collapse)
    then have p: "rd_pipeline rd (zadds rd ?xs) r1 = (e, r')" by (simp split: option.splits)
    have "rd_zset rd r' (queuePrefix @ ch) = rd_zset rd r1 (queuePrefix @ ch)" using zadd_effect(2) [OF e] by auto
    then show ?thesis using p z(1) by (intro dequeuedI [OF pop] disjI2 conjI exI [of _ ?xs] exI [of _ e]) (auto simp: z_members_def)
  qed (use dequeuedI [OF pop] in simp)
qed

end

section \<open>Scores\<close>

text \<open>The exact value \<open>calculateScore\<close> approximates.\<close>

definition exact_score :: "time \<Rightarrow> message \<Rightarrow> int" where
  "exact_score now msg =
     Priority_Score (m_Priority msg) * 10 ^ 12 + (case m_ScheduledAt msg of None \<Rightarrow> now | Some t \<Rightarrow> t)"

lemma f64_error_61: "\<bar>x\<bar> < 2 ^ 61 \<Longrightarrow> \<bar>f64 x - x\<bar> \<le> 128"
proof (cases "x = 0")
  case False
  assume "\<bar>x\<bar> < 2 ^ 61"
  with False have "ulp x \<le> 2 powi (61 - 53)" by (intro ulp_le) simp_all
  then show ?thesis using f64_error [of x] by simp
qed simp

lemma calculateScore_error:
  assumes "0 \<le> exact_score now msg" "exact_score now msg < 2 ^ 61 - 2 ^ 42"
  shows "\<bar>calculateScore now msg - of_int (exact_score now msg)\<bar> \<le> 256"
proof -
  define p where "p = Priority_Score (m_Priority msg)"
  define ts where "ts = (case m_ScheduledAt msg of None \<Rightarrow> now | Some t \<Rightarrow> t)"
  have p: "0 \<le> p" "p \<le> 2" using Priority_Score_range by (auto simp: p_def)
  have ex: "exact_score now msg = p * 10 ^ 12 + ts" by (simp add: exact_score_def p_def ts_def)
  have "float64_of_int p = of_int p" using p by (simp add: float64_of_int_def f64_of_small_int)
  moreover have "f64 (of_int p * 10 ^ 12) = of_int p * 10 ^ 12"
    using f64_of_small_int [of "p * 10 ^ 12"] p by simp
  ultimately have sc: "calculateScore now msg = f64 (of_int p * 10 ^ 12 + f64 (of_int ts))"
    by (auto simp: calculateScore_def p_def ts_def float64_of_int_def Let_def split: option.splits)
  have ts: "\<bar>of_int ts\<bar> < (2::rat) ^ 61"
    using assms p unfolding ex by (simp flip: of_int_abs of_int_power)
  then have 1: "\<bar>f64 (of_int ts) - of_int ts\<bar> \<le> 128" by (rule f64_error_61)
  have "\<bar>of_int p * 10 ^ 12 + f64 (of_int ts)\<bar> < (2::rat) ^ 61"
  proof -
    have "(of_int (exact_score now msg) :: rat) < of_int (2 ^ 61 - 2 ^ 42)"
      "(0 :: rat) \<le> of_int (exact_score now msg)"
      using assms by (simp_all only: of_int_less_iff of_int_0_le_iff)
    then show ?thesis using 1 unfolding ex by simp
  qed
  then have "\<bar>calculateScore now msg - (of_int p * 10 ^ 12 + f64 (of_int ts))\<bar> \<le> 128"
    unfolding sc by (rule f64_error_61)
  then show ?thesis using 1 unfolding ex by simp
qed

lemma calculateScore_less:
  assumes "0 \<le> exact_score t1 m1" "exact_score t1 m1 + 512 < exact_score t2 m2"
    and "exact_score t2 m2 < 2 ^ 61 - 2 ^ 42"
  shows "calculateScore t1 m1 < calculateScore t2 m2"
proof -
  have "(of_int (exact_score t1 m1) + 512 :: rat) < of_int (exact_score t2 m2)"
    using assms(2) by (simp flip: of_int_less_iff)
  then show ?thesis
    using calculateScore_error [of t1 m1] calculateScore_error [of t2 m2] assms by linarith
qed

text \<open>
  Message order. Two messages whose exact scores (\<open>priority level * 10^12 + time in
  nanoseconds\<close>) differ by more than 512 nanoseconds get floating-point scores in the same
  order, so the one with the smaller exact score is dequeued first: within one priority
  the queue is first-in-first-out down to 512 ns, and a message of a higher priority
  precedes one of a lower priority if it is enqueued less than 1000 s per level later. The
  bound on the times (before 2043) keeps the rounding error of a double below 256 ns.
\<close>

theorem calculateScore_order:
  assumes "0 \<le> exact_score t1 m1" "exact_score t1 m1 + 512 < exact_score t2 m2"
    and "exact_score t2 m2 < 2 ^ 61 - 2 ^ 42"
  shows "calculateScore t1 m1 < calculateScore t2 m2"
  using assms by (rule calculateScore_less)

text \<open>The witness: a normal message enqueued 999 s before a low one, and 1001 s before a high one.\<close>

definition msg_ex :: "uuid \<Rightarrow> priority \<Rightarrow> message" where
  "msg_ex i p = \<lparr>m_NotificationID = i, m_Channel = ChannelSMS, m_Priority = p, m_ScheduledAt = None\<rparr>"

theorem calculateScore_order_witness:
  "calculateScore 1700000000000000000 (msg_ex ''a'' PriorityNormal)
     < calculateScore 1700000999000000000 (msg_ex ''b'' PriorityLow) \<and>
   calculateScore 1700000000000000000 (msg_ex ''a'' PriorityNormal)
     < calculateScore 1700001001000000000 (msg_ex ''c'' PriorityHigh)"
  by (intro conjI calculateScore_order) (simp_all add: exact_score_def msg_ex_def)

text \<open>
  Priority is not absolute. The scores of the three levels are only 1000 s apart, so a
  low-priority message that has waited more than 2000 s is dequeued before a high-priority
  message enqueued now: \<open>README.md\<close> says that the score "ensures priority ordering".
\<close>

theorem old_low_overtakes_new_high:
  assumes "m_Priority m1 = PriorityLow" "m_Priority m2 = PriorityHigh"
    and "m_ScheduledAt m1 = None" "m_ScheduledAt m2 = None"
    and "0 \<le> t1" "t1 + 2000 * 10 ^ 9 + 512 < t2" "t2 < 2 ^ 61 - 2 ^ 42"
  shows "calculateScore t1 m1 < calculateScore t2 m2"
  using assms calculateScore_less [of t1 m1 t2 m2] by (simp add: exact_score_def)

theorem old_low_overtakes_new_high_witness:
  "calculateScore 1700000000000000000 (msg_ex ''a'' PriorityLow)
     < calculateScore 1700002001000000000 (msg_ex ''b'' PriorityHigh)"
  by (rule old_low_overtakes_new_high) (simp_all add: msg_ex_def)

section \<open>A concrete codec\<close>

text \<open>
  A codec that fulfils the laws, for the witnesses: channel, priority and notification ID
  separated by commas. It refuses scheduled messages, as \<open>Time.MarshalJSON\<close> refuses years it
  cannot represent.
\<close>

definition text_codec :: codec where
  "text_codec =
     \<lparr>marshal = (\<lambda>m. if m_ScheduledAt m = None
         then Inr (m_Channel m @ CHR '','' # m_Priority m @ CHR '','' # m_NotificationID m)
         else Inl (Err ''year outside of range'')),
      unmarshal = (\<lambda>d.
         let c = takeWhile (\<lambda>x. x \<noteq> CHR '','') d; d1 = tl (dropWhile (\<lambda>x. x \<noteq> CHR '','') d);
             p = takeWhile (\<lambda>x. x \<noteq> CHR '','') d1; i = tl (dropWhile (\<lambda>x. x \<noteq> CHR '','') d1)
         in if CHR '','' \<in> set d
            then Inr \<lparr>m_NotificationID = i, m_Channel = c, m_Priority = p, m_ScheduledAt = None\<rparr>
            else Inl (Err ''invalid character''))\<rparr>"

interpretation tc: msg_codec text_codec
proof
  fix m :: message and d
  assume m: "valid_message m" "marshal text_codec m = Inr d"
  have no_comma: "CHR '','' \<notin> set (m_Channel m)" "CHR '','' \<notin> set (m_Priority m)"
    using m(1)
    by (auto simp: valid_message_def Channel_Valid_def Priority_Valid_def channel_defs priority_defs)
  have "d = m_Channel m @ CHR '','' # m_Priority m @ CHR '','' # m_NotificationID m" "m_ScheduledAt m = None"
    using m(2) by (auto simp: text_codec_def split: if_splits)
  then show "unmarshal text_codec d = Inr m"
    using no_comma by (simp add: text_codec_def split_at_separator)
qed (simp add: text_codec_def)

interpretation mq: redis_queue mem_redis text_codec
  by unfold_locales

section \<open>Properties of the queue\<close>

context redis_queue
begin

lemma DequeueBatch_ok:
  assumes "Consumer_DequeueBatch rd js vt now ch cnt r = (Inr ms, r')"
  shows "length ms \<le> nat cnt \<and> ready rd js ch r \<subseteq> ready rd js ch r' \<union> (inflight rd js ch r' \<inter> set ms)"
proof -
  let ?Z = "rd_zset rd r (queuePrefix @ ch)"
  note eff = DequeueBatch_effect [OF assms]
  have "length ms = length (take (nat cnt) ?Z)" using arg_cong [OF eff(1), of length] by simp
  then have len: "length ms \<le> nat cnt" by simp
  have "m \<in> ready rd js ch r' \<union> (inflight rd js ch r' \<inter> set ms)" if m: "m \<in> ready rd js ch r" for m
  proof -
    obtain d where d: "valid_message m" "marshal js m = Inr d" "d \<in> z_members ?Z" using m by (auto simp: ready_def in_zset_iff)
    show ?thesis
    proof (cases "d \<in> z_members (take (nat cnt) ?Z)")
      case True
      have "unmarshal js d = Inr m" by (rule roundtrip [OF d(1,2)])
      then have "Inr m \<in> set (map (unmarshal js) (map snd (take (nat cnt) ?Z)))" using True by (force simp: z_members_def image_iff)
      then have "m \<in> set ms" unfolding eff(1) by auto
      then show ?thesis using True d(1,2) by (simp add: inflight_def in_zset_iff eff(2))
    next
      case False
      then have "d \<in> z_members (drop (nat cnt) ?Z)" using d(3) z_members_take_drop [of ?Z "nat cnt"] by blast
      then show ?thesis using d(1,2) by (simp add: ready_def in_zset_iff eff(2))
    qed
  qed
  then show ?thesis using len by blast
qed

lemma Dequeue_result:
  assumes "Consumer_Dequeue rd js vt now ch r = (Inr x, r')"
  shows "x = Some m \<Longrightarrow> ready rd js ch r \<subseteq> insert m (ready rd js ch r')" "x = None \<Longrightarrow> ready rd js ch r = {}"
proof -
  let ?Z = "rd_zset rd r (queuePrefix @ ch)"
  obtain zs r1 where pop: "remote (rd_net rd) (rd_zpopmin rd (queuePrefix @ ch) 1) r = (Inr zs, r1)"
    using assms by (auto simp: Consumer_Dequeue_def split: prod.splits sum.splits)
  have zs: "zs = take 1 ?Z" using popmin_effect [OF pop refl] by blast
  show "ready rd js ch r = {}" if "x = None"
  proof -
    have "zs = []" using assms pop that by (auto simp: Consumer_Dequeue_def Let_def split: list.splits sum.splits)
    then have "?Z = []" using zs by simp
    then show ?thesis by (simp add: ready_def in_zset_iff)
  qed
  show "ready rd js ch r \<subseteq> insert m (ready rd js ch r')" if x: "x = Some m"
  proof
    fix m' assume "m' \<in> ready rd js ch r"
    then obtain d where d: "valid_message m'" "marshal js m' = Inr d" "d \<in> z_members ?Z" by (auto simp: ready_def in_zset_iff)
    obtain z where z: "zs = [z]" "unmarshal js (snd z) = Inr m"
      and rest: "r' = snd (rd_do rd (rd_zadd rd (processingPrefix @ ch) (float64_of_int (now + vt)) (snd z)) r1)"
      using assms pop x zs by (cases ?Z) (auto simp: Consumer_Dequeue_def Let_def split: sum.splits)
    obtain e where "rd_do rd (rd_zadd rd (processingPrefix @ ch) (float64_of_int (now + vt)) (snd z)) r1 = (e, r')"
      using rest by (metis prod.collapse)
    from zadd_effect(2) [OF this] have "rd_zset rd r' (queuePrefix @ ch) = drop 1 ?Z" using popmin_effect [OF pop refl] by auto
    moreover have "z_members ?Z = insert (snd z) (z_members (drop 1 ?Z))" using zs z(1) by (cases ?Z) (auto simp: z_members_def)
    moreover have "m' = m" if "d = snd z" using roundtrip [OF d(1,2)] z(2) that by simp
    ultimately show "m' \<in> insert m (ready rd js ch r')" using d by (auto simp: ready_def in_zset_iff)
  qed
qed

lemma queue_contract:
  "message_queue (Producer_Enqueue rd js) (Producer_EnqueueDelayed rd js) (Consumer_Ack rd js)
     (ready rd js) (inflight rd js) (delayed rd js) (Producer_EnqueueBatch rd js) (Consumer_Dequeue rd js vt) (Consumer_DequeueBatch rd js vt)"
proof (unfold_locales, goal_cases)
  case (1 ms t s s' m)
  then show ?case using EnqueueBatch_in_zset(1) [OF 1(1,2)] by (simp add: ready_def)
next
  case (2 ms t s e s' c)
  note q = EnqueueBatch_in_zset(2,3) [OF 2]
  have "ready rd js c s \<subseteq> ready rd js c s'" unfolding ready_def using q(1) by blast
  moreover have "ready rd js c s' \<subseteq> ready rd js c s \<union> {m \<in> set ms. m_Channel m = c}" unfolding ready_def using q(2) by fastforce
  ultimately show ?case by blast
next
  case (3 ms t s e s' c)
  then show ?case using EnqueueBatch_in_zset(2,3) [OF 3] by (fastforce simp: inflight_def delayed_def)
next
  case (4 now ch s m s')
  then show ?case by (rule Dequeue_result(1)) simp
next
  case (5 now ch s s')
  then show ?case by (rule Dequeue_result(2)) simp
next
  case (6 now ch s y s')
  then show ?case by (rule dequeued_few [OF Dequeue_dequeued])
next
  case (7 now ch s y s' c)
  then show ?case by (rule dequeued_frame [OF Dequeue_dequeued])
next
  case (8 now ch cnt s ms s')
  then show ?case by (rule DequeueBatch_ok)
next
  case (9 now ch cnt s x s')
  then show ?case by (rule dequeued_few [OF DequeueBatch_dequeued])
next
  case (10 now ch cnt s x s' c)
  then show ?case by (rule dequeued_frame [OF DequeueBatch_dequeued])
qed

lemma DequeueBatch_moves:
  assumes "Consumer_DequeueBatch rd js vt now ch cnt r = (Inr ms, r')"
  shows "length ms = min (length (rd_zset rd r (queuePrefix @ ch))) (nat cnt)"
    and "e \<in> set (take (nat cnt) (rd_zset rd r (queuePrefix @ ch))) \<Longrightarrow>
         e' \<in> set (rd_zset rd r' (queuePrefix @ ch)) \<Longrightarrow> e \<le> e'"
    and "z_members (rd_zset rd r' (queuePrefix @ ch)) \<union> z_members (rd_zset rd r' (processingPrefix @ ch)) =
         z_members (rd_zset rd r (queuePrefix @ ch)) \<union> z_members (rd_zset rd r (processingPrefix @ ch))"
    and "k \<noteq> queuePrefix @ ch \<Longrightarrow> k \<noteq> processingPrefix @ ch \<Longrightarrow> rd_zset rd r' k = rd_zset rd r k"
proof -
  note eff = DequeueBatch_effect [OF assms]
  show "length ms = min (length (rd_zset rd r (queuePrefix @ ch))) (nat cnt)"
    using arg_cong [OF eff(1), of length] by (simp add: min.commute)
  have "sorted (rd_zset rd r (queuePrefix @ ch))" using zset_ok by (simp add: zset_ok_def)
  then show "e \<in> set (take (nat cnt) (rd_zset rd r (queuePrefix @ ch))) \<Longrightarrow>
      e' \<in> set (rd_zset rd r' (queuePrefix @ ch)) \<Longrightarrow> e \<le> e'"
    using sorted_take_le_drop by (simp add: eff(2))
  show "z_members (rd_zset rd r' (queuePrefix @ ch)) \<union> z_members (rd_zset rd r' (processingPrefix @ ch)) =
      z_members (rd_zset rd r (queuePrefix @ ch)) \<union> z_members (rd_zset rd r (processingPrefix @ ch))"
    using z_members_take_drop [of "rd_zset rd r (queuePrefix @ ch)" "nat cnt"] by (auto simp: eff(2))
  show "k \<noteq> queuePrefix @ ch \<Longrightarrow> k \<noteq> processingPrefix @ ch \<Longrightarrow> rd_zset rd r' k = rd_zset rd r k"
    by (simp add: eff(2))
qed

lemma DequeueBatch_poison:
  assumes "d \<in> z_members (take (nat cnt) (rd_zset rd r (queuePrefix @ ch)))" "unmarshal js d = Inl e"
    and "rd_net rd r = (Delivered, r1)"
  shows "\<exists>e' r'. Consumer_DequeueBatch rd js vt now ch cnt r = (Inl e', r') \<and>
    rd_zset rd r' = (rd_zset rd r)(queuePrefix @ ch := drop (nat cnt) (rd_zset rd r (queuePrefix @ ch)))"
proof -
  let ?Z = "rd_zset rd r (queuePrefix @ ch)"
  have r1: "rd_zset rd r1 = rd_zset rd r" using net_state [OF assms(3)] .
  have pop: "remote (rd_net rd) (rd_zpopmin rd (queuePrefix @ ch) (nat cnt)) r =
      (Inr (take (nat cnt) ?Z), snd (rd_zpopmin rd (queuePrefix @ ch) (nat cnt) r1))"
    using assms(3) by (simp add: remote_delivered zpopmin_result r1)
  obtain e' where "unmarshal_all js (map snd (take (nat cnt) ?Z)) = Inl e'"
    using unmarshal_all_error [OF _ assms(2), of "map snd (take (nat cnt) ?Z)"] assms(1)
    by (auto simp: z_members_def)
  moreover have "take (nat cnt) ?Z \<noteq> []" using assms(1) by (auto simp: z_members_def)
  ultimately have "Consumer_DequeueBatch rd js vt now ch cnt r =
      (Inl e', snd (rd_zpopmin rd (queuePrefix @ ch) (nat cnt) r1))"
    by (simp add: Consumer_DequeueBatch_def pop del: take_eq_Nil)
  then show ?thesis by (simp add: zpopmin_state r1)
qed

lemma enqueue_dequeue_ack:
  assumes "valid_message m" "rd_zset rd r (queuePrefix @ m_Channel m) = []" "rd_zset rd r (processingPrefix @ m_Channel m) = []"
    and "Producer_Enqueue rd js t m r = (None, r1)" "0 < cnt"
    and "Consumer_DequeueBatch rd js vt t' (m_Channel m) cnt r1 = (Inr ms, r2)"
    and "Consumer_Ack rd js (m_Channel m) ms r2 = (None, r3)"
  shows "m \<in> ready rd js (m_Channel m) r1" "ms = [m]" "m \<in> inflight rd js (m_Channel m) r2" "m \<notin> ready rd js (m_Channel m) r2"
    "rd_zset rd r3 = rd_zset rd r"
proof -
  let ?q = "queuePrefix @ m_Channel m" and ?p = "processingPrefix @ m_Channel m"
  show "m \<in> ready rd js (m_Channel m) r1" by (rule enq_ok [OF assms(1,4)])
  obtain d where d: "marshal js m = Inr d" "rd_do rd (rd_zadd rd ?q (calculateScore t m) d) r = (None, r1)"
    using assms(4) by (auto simp: Producer_Enqueue_def Let_def split: sum.splits)
  have z1: "rd_zset rd r1 = (rd_zset rd r)(?q := [(calculateScore t m, d)])"
    using zadd_effect(1) [OF d(2)] assms(2) by (simp add: z_add_def)
  note eff = DequeueBatch_effect [OF assms(6)]
  have ds: "unmarshal js d = Inr m" using roundtrip assms(1) d(1) by simp
  have tk: "take (nat cnt) [(calculateScore t m, d)] = [(calculateScore t m, d)]" "drop (nat cnt) [(calculateScore t m, d)] = []"
    using assms(5) by simp_all
  show ms: "ms = [m]" using eff(1) ds by (cases ms) (simp_all add: z1 tk)
  have z2: "rd_zset rd r2 = (rd_zset rd r)(?p := [(float64_of_int (t' + vt), d)])"
    unfolding eff(2) using assms(2,3) by (simp add: z1 tk hold_all_def z_add_def fun_eq_iff)
  show "m \<in> inflight rd js (m_Channel m) r2" using d(1) assms(1) by (simp add: inflight_def in_zset_def z2 z_members_def)
  show "m \<notin> ready rd js (m_Channel m) r2" using d(1) assms(2) by (simp add: ready_def in_zset_def z2)
  from assms(7) show "rd_zset rd r3 = rd_zset rd r"
  proof (cases rule: Ack_effect)
    case (removed ds)
    then show ?thesis using ms d(1) assms(3) by (auto simp: z2 z_rem_def fun_eq_iff)
  qed (simp add: ms)
qed

end

interpretation mmq: message_queue "Producer_Enqueue mem_redis text_codec" "Producer_EnqueueDelayed mem_redis text_codec"
  "Consumer_Ack mem_redis text_codec" "ready mem_redis text_codec" "inflight mem_redis text_codec" "delayed mem_redis text_codec"
  "Producer_EnqueueBatch mem_redis text_codec" "Consumer_Dequeue mem_redis text_codec 30" "Consumer_DequeueBatch mem_redis text_codec 30"
  by (rule mq.queue_contract)

text \<open>
  C10. Refinement. The Redis queue implements the contract of all six methods of the Go
  interfaces \<open>queue.Producer\<close> and \<open>queue.Consumer\<close>, whatever happens to the network. The two
  enqueues and the delayed enqueue add at most the given messages, the acknowledgement removes
  at most the given ones, and each that returns no error has had its whole effect. A dequeue
  takes at most as many messages as asked for from its channel; a batch that is returned holds
  every message it took, and a single message is the one taken; after an error, what was taken may
  be lost. Nothing else changes in any of them.
\<close>

theorem redis_queue_contract:
  assumes "redis_queue rd js"
  shows "message_queue (Producer_Enqueue rd js) (Producer_EnqueueDelayed rd js) (Consumer_Ack rd js)
    (ready rd js) (inflight rd js) (delayed rd js) (Producer_EnqueueBatch rd js) (Consumer_Dequeue rd js vt) (Consumer_DequeueBatch rd js vt)"
  using assms by (rule redis_queue.queue_contract)

theorem redis_queue_contract_witness:
  "message_queue (Producer_Enqueue mem_redis text_codec) (Producer_EnqueueDelayed mem_redis text_codec)
     (Consumer_Ack mem_redis text_codec) (ready mem_redis text_codec) (inflight mem_redis text_codec)
     (delayed mem_redis text_codec) (Producer_EnqueueBatch mem_redis text_codec) (Consumer_Dequeue mem_redis text_codec 30)
     (Consumer_DequeueBatch mem_redis text_codec 30)"
  by (rule redis_queue_contract) (rule mq.redis_queue_axioms)

text \<open>
  C23. Dequeuing moves messages and loses none. A batch that is returned without an error has
  \<open>min cnt (queue length)\<close> messages; they are the least of the queue (by score, ties by
  encoded text); every member popped from the channel's queue is in its processing set
  afterwards, so the two sets together keep their members; no other key changes.
\<close>

theorem dequeue_batch_moves:
  assumes "redis_queue rd js"
    and "Consumer_DequeueBatch rd js vt now ch cnt r = (Inr ms, r')"
  defines "q \<equiv> queuePrefix @ ch" and "p \<equiv> processingPrefix @ ch"
  shows "length ms = min (length (rd_zset rd r q)) (nat cnt) \<and>
    map Inr ms = map (unmarshal js \<circ> snd) (take (nat cnt) (rd_zset rd r q)) \<and>
    (\<forall>e \<in> set (take (nat cnt) (rd_zset rd r q)). \<forall>e' \<in> set (rd_zset rd r' q). e \<le> e') \<and>
    z_members (rd_zset rd r' q) \<union> z_members (rd_zset rd r' p) =
      z_members (rd_zset rd r q) \<union> z_members (rd_zset rd r p) \<and>
    (\<forall>k. k \<noteq> q \<longrightarrow> k \<noteq> p \<longrightarrow> rd_zset rd r' k = rd_zset rd r k)"
  unfolding q_def p_def
  using redis_queue.DequeueBatch_moves [OF assms(1,2)]
    redis_server.DequeueBatch_effect(1) [OF redis_queue.axioms(1) [OF assms(1)] assms(2)]
  by simp

text \<open>The example of the witnesses: one message in an in-memory queue.\<close>

definition ex_queue :: mem where
  "ex_queue = snd (Producer_Enqueue mem_redis text_codec 3 (msg_ex ''a'' PriorityHigh) (mem_init []))"

lemmas queue_eval = mem_eval text_codec_def Producer_Enqueue_def Producer_EnqueueDelayed_def
  Consumer_DequeueBatch_def Consumer_Ack_def rd_do_def remote_def calculateScore_def f64_eval
  msg_ex_def queuePrefix_def processingPrefix_def retryDelayedKey_def z_add_def z_rem_def

lemma ex_queue_dequeue:
  "\<exists>r' r''. Consumer_DequeueBatch mem_redis text_codec 30 5 ChannelSMS 10 ex_queue =
     (Inr [msg_ex ''a'' PriorityHigh], r') \<and> Consumer_Ack mem_redis text_codec ChannelSMS [msg_ex ''a'' PriorityHigh] r' = (None, r'')"
  by (simp add: ex_queue_def queue_eval ChannelSMS_def PriorityHigh_def Priority_Score_def)

theorem dequeue_batch_moves_witness:
  "\<exists>ms r'. Consumer_DequeueBatch mem_redis text_codec 30 5 ChannelSMS 10 ex_queue = (Inr ms, r') \<and>
     length ms = min (length (rd_zset mem_redis ex_queue (queuePrefix @ ChannelSMS))) 10"
proof -
  obtain r' where "Consumer_DequeueBatch mem_redis text_codec 30 5 ChannelSMS 10 ex_queue =
      (Inr [msg_ex ''a'' PriorityHigh], r')"
    using ex_queue_dequeue by blast
  from dequeue_batch_moves [OF mq.redis_queue_axioms this] this show ?thesis by auto
qed

text \<open>
  C24. Round trip. A message enqueued without error on an empty channel waits there; the next
  dequeue of any positive size returns it alone, and it is then held and no longer waiting;
  after the acknowledgement all sorted sets are as they were before the message was enqueued.
\<close>

theorem enqueue_dequeue_roundtrip:
  assumes "redis_queue rd js" "valid_message m"
    and "rd_zset rd r (queuePrefix @ m_Channel m) = []" "rd_zset rd r (processingPrefix @ m_Channel m) = []"
    and "Producer_Enqueue rd js t m r = (None, r1)" "0 < cnt"
    and "Consumer_DequeueBatch rd js vt t' (m_Channel m) cnt r1 = (Inr ms, r2)"
    and "Consumer_Ack rd js (m_Channel m) ms r2 = (None, r3)"
  shows "m \<in> ready rd js (m_Channel m) r1 \<and> ms = [m] \<and> m \<in> inflight rd js (m_Channel m) r2 \<and>
    m \<notin> ready rd js (m_Channel m) r2 \<and> rd_zset rd r3 = rd_zset rd r"
  using redis_queue.enqueue_dequeue_ack [OF assms] by blast

theorem enqueue_dequeue_roundtrip_witness:
  "\<exists>r2 r3. Consumer_DequeueBatch mem_redis text_codec 30 5 ChannelSMS 10 ex_queue = (Inr [msg_ex ''a'' PriorityHigh], r2) \<and>
     Consumer_Ack mem_redis text_codec ChannelSMS [msg_ex ''a'' PriorityHigh] r2 = (None, r3) \<and>
     msg_ex ''a'' PriorityHigh \<in> inflight mem_redis text_codec ChannelSMS r2 \<and> rd_zset mem_redis r3 = rd_zset mem_redis (mem_init [])"
proof -
  let ?m = "msg_ex ''a'' PriorityHigh"
  obtain r2 r3 where d: "Consumer_DequeueBatch mem_redis text_codec 30 5 ChannelSMS 10 ex_queue = (Inr [?m], r2)"
    "Consumer_Ack mem_redis text_codec ChannelSMS [?m] r2 = (None, r3)"
    using ex_queue_dequeue by blast
  have "valid_message ?m" "m_Channel ?m = ChannelSMS" by (simp_all add: valid_message_def msg_ex_def)
  moreover have "Producer_Enqueue mem_redis text_codec 3 ?m (mem_init []) = (None, ex_queue)"
    by (simp add: ex_queue_def queue_eval)
  moreover have "rd_zset mem_redis (mem_init []) k = []" for k
    by (simp add: mem_eval)
  ultimately show ?thesis
    using enqueue_dequeue_roundtrip [OF mq.redis_queue_axioms, of ?m "mem_init []" 3 ex_queue 10 30 5 "[?m]" r2 r3] d
    by auto
qed

text \<open>
  A member that is not a message costs the whole batch. If one of the members popped
  cannot be decoded, \<open>DequeueBatch\<close> returns an error after \<open>ZPOPMIN\<close> has removed all of
  them and before any is recorded in the processing set: the other messages of the batch
  are lost.
\<close>

theorem dequeue_batch_poison:
  assumes "redis_queue rd js"
    and "d \<in> z_members (take (nat cnt) (rd_zset rd r (queuePrefix @ ch)))" "unmarshal js d = Inl e"
    and "rd_net rd r = (Delivered, r1)"
  shows "\<exists>e' r'. Consumer_DequeueBatch rd js vt now ch cnt r = (Inl e', r') \<and>
    rd_zset rd r' = (rd_zset rd r)(queuePrefix @ ch := drop (nat cnt) (rd_zset rd r (queuePrefix @ ch)))"
  using redis_queue.DequeueBatch_poison [OF assms] .

theorem dequeue_batch_poison_witness:
  "\<exists>e' r'. Consumer_DequeueBatch mem_redis text_codec 30 5 ChannelSMS 10
       (rd_zadd mem_redis (queuePrefix @ ChannelSMS) 9 ''x'' ex_queue) = (Inl e', r') \<and>
     rd_zset mem_redis r' (queuePrefix @ ChannelSMS) = []"
proof -
  let ?r = "rd_zadd mem_redis (queuePrefix @ ChannelSMS) 9 ''x'' ex_queue"
  have q: "rd_zset mem_redis ?r (queuePrefix @ ChannelSMS) =
      [(3, ''sms,high,a''), (9, ''x'')]"
    by (simp add: ex_queue_def queue_eval ChannelSMS_def PriorityHigh_def Priority_Score_def)
  have "unmarshal text_codec ''x'' = Inl (Err ''invalid character'')"
    by (simp add: text_codec_def)
  moreover have "rd_net mem_redis ?r = (Delivered, ?r)"
    by (simp add: ex_queue_def queue_eval)
  ultimately show ?thesis
    using dequeue_batch_poison [OF mq.redis_queue_axioms, of "''x''" 10 ?r ChannelSMS] q
    by (force simp: z_members_def)
qed

end
