(* ===== verification/Go_Text.thy ===== *)
theory Go_Text
  imports Prelude
begin

text \<open>
  The parts of Go's standard library that turn numbers into text where the program shows
  or compares that text: \<open>strconv.Itoa\<close> (and \<open>fmt\<close>'s \<open>%d\<close>), \<open>time.Duration.String\<close> and
  \<open>Time.UTC().Format(time.RFC3339)\<close>. Strings are lists of bytes, as in Go.
\<close>

section \<open>Definitions\<close>

definition digit :: "nat \<Rightarrow> char" where
  "digit n = char_of (48 + n mod 10)"

fun digits :: "nat \<Rightarrow> string" where
  "digits n = (if n < 10 then [digit n] else digits (n div 10) @ [digit n])"

declare digits.simps [simp del]

definition Itoa :: "int \<Rightarrow> string" where
  "Itoa i = (if i < 0 then ''-'' @ digits (nat (- i)) else digits (nat i))"

text \<open>
  \<open>fmtFrac\<close>: the fraction of \<open>u / 10 ^ prec\<close> with its point and without trailing zeros, or
  nothing if it is zero.
\<close>

fun frac_digits :: "nat \<Rightarrow> nat \<Rightarrow> string" where
  "frac_digits 0 u = []"
| "frac_digits (Suc prec) u = frac_digits prec (u div 10) @ [digit u]"

definition fmtFrac :: "nat \<Rightarrow> nat \<Rightarrow> string" where
  "fmtFrac u prec =
     (let ds = rev (dropWhile (\<lambda>c. c = CHR ''0'') (rev (frac_digits prec u)))
      in if ds = [] then [] else CHR ''.'' # ds)"

definition Duration_String :: "duration \<Rightarrow> string" where
  "Duration_String d =
     (let u = nat \<bar>d\<bar>;
          body =
            (if u = 0 then ''0s''
             else if u < 10 ^ 3 then digits u @ ''ns''
             else if u < 10 ^ 6 then digits (u div 10 ^ 3) @ fmtFrac u 3 @ [CHR 0xC2, CHR 0xB5] @ ''s''
             else if u < 10 ^ 9 then digits (u div 10 ^ 6) @ fmtFrac u 6 @ ''ms''
             else
               let secs = u div 10 ^ 9; mins = secs div 60; hours = mins div 60;
                   s = digits (secs mod 60) @ fmtFrac u 9 @ ''s''
               in if mins = 0 then s
                  else if hours = 0 then digits (mins mod 60) @ ''m'' @ s
                  else digits hours @ ''h'' @ digits (mins mod 60) @ ''m'' @ s)
      in if d < 0 then ''-'' @ body else body)"

text \<open>
  The proleptic Gregorian date of a day counted from 1970-01-01, with years starting in
  March inside the computation, and the RFC 3339 text of a time in UTC.
\<close>

definition civil_from_days :: "int \<Rightarrow> int \<times> int \<times> int" where
  "civil_from_days days =
     (let z = days + 719468; era = z div 146097; doe = z mod 146097;
          yoe = (doe - doe div 1460 + doe div 36524 - doe div 146096) div 365;
          doy = doe - (365 * yoe + yoe div 4 - yoe div 100);
          mp = (5 * doy + 2) div 153;
          d = doy - (153 * mp + 2) div 5 + 1;
          m = (if mp < 10 then mp + 3 else mp - 9);
          y = yoe + era * 400 + (if m \<le> 2 then 1 else 0)
      in (y, m, d))"

definition Format_RFC3339 :: "time \<Rightarrow> string" where
  "Format_RFC3339 t =
     (let secs = t div 10 ^ 9; (y, m, d) = civil_from_days (secs div 86400); s = secs mod 86400;
          two = (\<lambda>i. frac_digits 2 (nat i))
      in frac_digits 4 (nat y) @ ''-'' @ two m @ ''-'' @ two d @ ''T'' @
         two (s div 3600) @ '':'' @ two (s div 60 mod 60) @ '':'' @ two (s mod 60) @ ''Z'')"

text \<open>The number a text of decimal digits stands for.\<close>

definition undigits :: "string \<Rightarrow> nat" where
  "undigits = foldl (\<lambda>n c. 10 * n + (of_char c - 48)) 0"

section \<open>Lemmas\<close>

lemma of_char_digit [simp]: "of_char (digit n) = 48 + n mod 10"
  unfolding digit_def by simp

lemma undigits_digits [simp]: "undigits (digits n) = n"
proof (induction n rule: digits.induct)
  case (1 n)
  then show ?case
    by (subst digits.simps) (auto simp: undigits_def)
qed

lemma digits_inject [simp]: "digits m = digits n \<longleftrightarrow> m = n"
  by (metis undigits_digits)

lemma digits_not_Nil [simp]: "digits n \<noteq> []"
  by (subst digits.simps) simp

lemma digit_neq_minus [simp]: "digit n \<noteq> CHR ''-''"
proof
  assume "digit n = CHR ''-''"
  then have "of_char (digit n) = (of_char (CHR ''-'') :: nat)" by simp
  then show False by simp
qed

lemma minus_notin_digits [simp]: "CHR ''-'' \<notin> set (digits n)"
proof (induction n rule: digits.induct)
  case (1 n)
  then show ?case by (subst digits.simps) (auto dest: sym)
qed

lemma Itoa_inject: "Itoa i = Itoa j \<longleftrightarrow> i = j"
proof -
  have *: "CHR ''-'' # xs \<noteq> digits n" for xs n
    using minus_notin_digits [of n] by (metis list.set_intros(1))
  show ?thesis by (auto simp: Itoa_def * * [symmetric])
qed

end
