(* ===== verification/Provider.thy ===== *)
theory Provider
  imports Domain Go_Text
begin

text \<open>
  The provider side of a worker: the webhook client of \<open>internal/provider/webhook\<close> and the
  circuit breaker of \<open>internal/provider/circuitbreaker.go\<close> that wraps it.

  The HTTP service (and \<open>net/http\<close>, \<open>encoding/json\<close> for the payload) is the parameter
  record \<open>http\<close>. The locale \<open>provider_contract\<close> is the interface \<open>provider.Provider\<close> as its
  callers rely on it: a send that returns a message id has been accepted by the service
  exactly once, a failed one at most once. The webhook client fulfils it, and the circuit
  breaker keeps the contract of whatever it wraps.

  \<open>CircuitBreaker_Send\<close> is one call without interference. The step relation \<open>cb_step\<close> runs
  any number of calls concurrently on one breaker, one critical section of the mutex per
  step.
\<close>

section \<open>The webhook client\<close>

record webhookPayload =
  p_NotificationID :: string
  p_Recipient :: string
  p_Channel :: string
  p_Content :: string
  p_Timestamp :: string

record request =
  rq_method :: string
  rq_url :: string
  rq_header :: "(string \<times> string) list"
  rq_body :: string

record webhookClient =
  baseURL :: string
  httpTimeout :: duration

text \<open>\<open>ht_log\<close> observes the bodies the service has accepted, newest first.\<close>

record 'h http =
  ht_marshal :: "webhookPayload \<Rightarrow> string result"
  ht_newRequest :: "string \<Rightarrow> string \<Rightarrow> string \<Rightarrow> request result"
  ht_do :: "duration \<Rightarrow> request \<Rightarrow> 'h \<Rightarrow> int result \<times> 'h"
  ht_log :: "'h \<Rightarrow> string list"

definition Header_Set :: "string \<Rightarrow> string \<Rightarrow> request \<Rightarrow> request" where
  "Header_Set k v req = req\<lparr>rq_header := (k, v) # filter (\<lambda>h. fst h \<noteq> k) (rq_header req)\<rparr>"

definition payload_of :: "time \<Rightarrow> notification \<Rightarrow> webhookPayload" where
  "payload_of now n =
     \<lparr>p_NotificationID = n_ID n, p_Recipient = n_Recipient n, p_Channel = n_Channel n,
      p_Content = n_Content n, p_Timestamp = Format_RFC3339 now\<rparr>"

text \<open>\<open>now\<close> is the clock when the payload is built, \<open>fresh\<close> the value of \<open>uuid.New()\<close>.\<close>

definition Client_Send ::
  "'h http \<Rightarrow> webhookClient \<Rightarrow> time \<Rightarrow> uuid \<Rightarrow> notification \<Rightarrow> 'h \<Rightarrow> string result \<times> 'h" where
  "Client_Send ht c now fresh n h =
     (case ht_marshal ht (payload_of now n) of
        Inl e \<Rightarrow> (Inl (Wrap ''marshal payload'' e), h)
      | Inr body \<Rightarrow>
          (case ht_newRequest ht ''POST'' (baseURL c) body of
             Inl e \<Rightarrow> (Inl (Wrap ''create request'' e), h)
           | Inr req \<Rightarrow>
               (case ht_do ht (httpTimeout c) (Header_Set ''Content-Type'' ''application/json'' req) h of
                  (Inl e, h1) \<Rightarrow> (Inl (Wrap ''send request'' e), h1)
                | (Inr code, h1) \<Rightarrow>
                    if 400 \<le> code then (Inl (Err (''provider returned status '' @ Itoa code)), h1)
                    else (Inr fresh, h1))))"

section \<open>The circuit breaker\<close>

datatype CBState = StateClosed | StateOpen | StateHalfOpen

record circuitBreaker =
  cb_state :: CBState
  cb_failures :: int
  cb_maxFailures :: int
  cb_timeout :: duration
  cb_lastFailure :: time

text \<open>The zero \<open>time.Time\<close>, January 1 of year 1.\<close>

definition zero_time :: time where "zero_time = - 62135596800 * 10 ^ 9"

definition NewCircuitBreaker :: "int \<Rightarrow> duration \<Rightarrow> circuitBreaker" where
  "NewCircuitBreaker m t =
     \<lparr>cb_state = StateClosed, cb_failures = 0, cb_maxFailures = m, cb_timeout = t,
      cb_lastFailure = zero_time\<rparr>"

definition recordFailure :: "time \<Rightarrow> circuitBreaker \<Rightarrow> circuitBreaker" where
  "recordFailure now cb =
     (let cb = cb\<lparr>cb_failures := cb_failures cb + 1, cb_lastFailure := now\<rparr>
      in if cb_failures cb \<ge> cb_maxFailures cb then cb\<lparr>cb_state := StateOpen\<rparr> else cb)"

definition recordSuccess :: "circuitBreaker \<Rightarrow> circuitBreaker" where
  "recordSuccess cb = cb\<lparr>cb_failures := 0, cb_state := StateClosed\<rparr>"

text \<open>The critical section of \<open>Send\<close> that moves an open breaker to half-open.\<close>

definition tryHalfOpen :: "circuitBreaker \<Rightarrow> circuitBreaker" where
  "tryHalfOpen cb = (if cb_state cb = StateOpen then cb\<lparr>cb_state := StateHalfOpen\<rparr> else cb)"

type_synonym 'w sender = "notification \<Rightarrow> 'w \<Rightarrow> string result \<times> 'w"

definition doSend ::
  "'w sender \<Rightarrow> time \<Rightarrow> notification \<Rightarrow> circuitBreaker \<times> 'w \<Rightarrow> string result \<times> circuitBreaker \<times> 'w" where
  "doSend prov nowf n s =
     (case prov n (snd s) of
        (Inl e, w) \<Rightarrow> (Inl e, recordFailure nowf (fst s), w)
      | (Inr msgID, w) \<Rightarrow> (Inr msgID, recordSuccess (fst s), w))"

text \<open>\<open>now\<close> is the clock of \<open>time.Since\<close>, \<open>nowf\<close> the clock a failure is recorded with.\<close>

definition CircuitBreaker_Send ::
  "'w sender \<Rightarrow> time \<Rightarrow> time \<Rightarrow> notification \<Rightarrow> circuitBreaker \<times> 'w \<Rightarrow> string result \<times> circuitBreaker \<times> 'w" where
  "CircuitBreaker_Send prov now nowf n s =
     (let state = cb_state (fst s); lastFailure = cb_lastFailure (fst s)
      in case state of
           StateOpen \<Rightarrow>
             if now - lastFailure \<le> cb_timeout (fst s) then (Inl ErrCircuitOpen, s)
             else doSend prov nowf n (tryHalfOpen (fst s), snd s)
         | _ \<Rightarrow> doSend prov nowf n s)"

definition CircuitBreaker_State :: "circuitBreaker \<Rightarrow> CBState" where
  "CircuitBreaker_State cb = cb_state cb"

text \<open>A sequence of sends of one notification, each with its two clock values.\<close>

fun send_run ::
  "'w sender \<Rightarrow> notification \<Rightarrow> (time \<times> time) list \<Rightarrow> circuitBreaker \<times> 'w \<Rightarrow>
   string result list \<times> circuitBreaker \<times> 'w" where
  "send_run prov n [] s = ([], s)"
| "send_run prov n (t # ts) s =
     (let (x, s1) = CircuitBreaker_Send prov (fst t) (snd t) n s; (xs, s2) = send_run prov n ts s1
      in (x # xs, s2))"

section \<open>Concurrent calls on one breaker\<close>

text \<open>
  Where a call of \<open>Send\<close> is: before its read lock, with the snapshot it has read, about to
  take the write lock for half-open, inside the wrapped provider, with the provider's reply
  but before recording it, and returned.
\<close>

datatype pc = Idle | Checked CBState time | Opening | Calling
  | Returned "string result" | Finished "string result"

record cb_sys =
  sy_cb :: circuitBreaker
  sy_pc :: "nat \<Rightarrow> pc"
  sy_now :: time

abbreviation goto :: "nat \<Rightarrow> pc \<Rightarrow> cb_sys \<Rightarrow> cb_sys" where
  "goto t p s \<equiv> s\<lparr>sy_pc := (sy_pc s)(t := p)\<rparr>"

inductive cb_step :: "cb_sys \<Rightarrow> cb_sys \<Rightarrow> bool" where
  tick: "sy_now s \<le> now \<Longrightarrow> cb_step s (s\<lparr>sy_now := now\<rparr>)"
| read: "sy_pc s t = Idle \<Longrightarrow>
    cb_step s (goto t (Checked (cb_state (sy_cb s)) (cb_lastFailure (sy_cb s))) s)"
| reject: "sy_pc s t = Checked StateOpen lf \<Longrightarrow> sy_now s - lf \<le> cb_timeout (sy_cb s) \<Longrightarrow>
    cb_step s (goto t (Finished (Inl ErrCircuitOpen)) s)"
| elapsed: "sy_pc s t = Checked StateOpen lf \<Longrightarrow> \<not> sy_now s - lf \<le> cb_timeout (sy_cb s) \<Longrightarrow>
    cb_step s (goto t Opening s)"
| pass: "sy_pc s t = Checked st lf \<Longrightarrow> st \<noteq> StateOpen \<Longrightarrow> cb_step s (goto t Calling s)"
| half_open: "sy_pc s t = Opening \<Longrightarrow>
    cb_step s (goto t Calling (s\<lparr>sy_cb := tryHalfOpen (sy_cb s)\<rparr>))"
| reply: "sy_pc s t = Calling \<Longrightarrow> cb_step s (goto t (Returned x) s)"
| failure: "sy_pc s t = Returned (Inl e) \<Longrightarrow>
    cb_step s (goto t (Finished (Inl e)) (s\<lparr>sy_cb := recordFailure (sy_now s) (sy_cb s)\<rparr>))"
| success: "sy_pc s t = Returned (Inr msgID) \<Longrightarrow>
    cb_step s (goto t (Finished (Inr msgID)) (s\<lparr>sy_cb := recordSuccess (sy_cb s)\<rparr>))"

inductive_cases cb_stepE: "cb_step s s'"

definition cb_start :: "int \<Rightarrow> duration \<Rightarrow> time \<Rightarrow> cb_sys" where
  "cb_start m t now = \<lparr>sy_cb = NewCircuitBreaker m t, sy_pc = (\<lambda>_. Idle), sy_now = now\<rparr>"

text \<open>The invariant of the breaker: it is closed exactly while failures are below the limit.\<close>

definition breaker_inv :: "circuitBreaker \<Rightarrow> bool" where
  "breaker_inv cb = (0 \<le> cb_failures cb \<and> 0 < cb_maxFailures cb \<and>
     (cb_state cb = StateClosed) = (cb_failures cb < cb_maxFailures cb))"

section \<open>The specification of a breaker\<close>

text \<open>
  What a breaker promises, without the half-open state and the counters of the
  implementation: it is closed with a number of consecutive failures, or open since a time.
\<close>

datatype breaker = Closed int | Open time

fun spec_admits :: "duration \<Rightarrow> time \<Rightarrow> breaker \<Rightarrow> bool" where
  "spec_admits timeout now (Closed k) = True"
| "spec_admits timeout now (Open t) = (timeout < now - t)"

fun spec_record :: "int \<Rightarrow> time \<Rightarrow> string result \<Rightarrow> breaker \<Rightarrow> breaker" where
  "spec_record m now (Inr _) b = Closed 0"
| "spec_record m now (Inl _) (Closed k) = (if k + 1 < m then Closed (k + 1) else Open now)"
| "spec_record m now (Inl _) (Open t) = Open now"

definition breaker_abs :: "circuitBreaker \<Rightarrow> breaker" where
  "breaker_abs cb = (if cb_state cb = StateClosed then Closed (cb_failures cb) else Open (cb_lastFailure cb))"

section \<open>The provider contract\<close>

locale provider_contract =
  fixes send :: "'w sender" and accepted_log :: "'w \<Rightarrow> 'x list" and item :: "notification \<Rightarrow> 'x set"
  assumes send_ok: "send n w = (Inr msgID, w') \<Longrightarrow> \<exists>x \<in> item n. accepted_log w' = x # accepted_log w"
    and send_err: "send n w = (Inl e, w') \<Longrightarrow> accepted_log w' = accepted_log w \<or> (\<exists>x \<in> item n. accepted_log w' = x # accepted_log w)"

locale http_service =
  fixes ht :: "'h http"
  assumes newRequest: "ht_newRequest ht m u b = Inr req \<Longrightarrow> rq_body req = b"
    and accepted: "ht_do ht d req h = (Inr code, h') \<Longrightarrow> code < 400 \<Longrightarrow> ht_log ht h' = rq_body req # ht_log ht h"
    and uncertain: "ht_do ht d req h = (x, h') \<Longrightarrow>
          ht_log ht h' = ht_log ht h \<or> ht_log ht h' = rq_body req # ht_log ht h"

definition payload_bodies :: "'h http \<Rightarrow> notification \<Rightarrow> string set" where
  "payload_bodies ht n = {b. \<exists>now. ht_marshal ht (payload_of now n) = Inr b}"

lemma rq_body_Header_Set [simp]: "rq_body (Header_Set k v req) = rq_body req"
  by (simp add: Header_Set_def)

sublocale http_service \<subseteq> web: provider_contract "Client_Send ht c now fresh" "ht_log ht" "payload_bodies ht"
  for c now fresh
proof
  fix n h msgID h'
  assume "Client_Send ht c now fresh n h = (Inr msgID, h')"
  then show "\<exists>x \<in> payload_bodies ht n. ht_log ht h' = x # ht_log ht h"
    by (auto simp: Client_Send_def payload_bodies_def dest!: newRequest accepted
        split: sum.splits prod.splits if_splits)
next
  fix n h e h'
  assume "Client_Send ht c now fresh n h = (Inl e, h')"
  then show "ht_log ht h' = ht_log ht h \<or> (\<exists>x \<in> payload_bodies ht n. ht_log ht h' = x # ht_log ht h)"
    by (auto simp: Client_Send_def payload_bodies_def dest!: newRequest uncertain
        split: sum.splits prod.splits if_splits)
qed

context http_service
begin

lemma web_contract: "provider_contract (Client_Send ht c now fresh) (ht_log ht) (payload_bodies ht)"
  by (rule web.provider_contract_axioms)

end

section \<open>Lemmas on one call\<close>

lemmas breaker_ops = recordFailure_def recordSuccess_def tryHalfOpen_def

lemma breaker_inv_ops:
  assumes "breaker_inv cb"
  shows "breaker_inv (recordFailure now cb)" "breaker_inv (recordSuccess cb)" "breaker_inv (tryHalfOpen cb)"
  using assms by (auto simp: breaker_inv_def breaker_ops Let_def)

lemma breaker_inv_new: "0 < m \<Longrightarrow> breaker_inv (NewCircuitBreaker m t)"
  by (simp add: breaker_inv_def NewCircuitBreaker_def)

lemma cb_config [simp]:
  "cb_maxFailures (recordFailure now cb) = cb_maxFailures cb" "cb_timeout (recordFailure now cb) = cb_timeout cb"
  "cb_maxFailures (recordSuccess cb) = cb_maxFailures cb" "cb_timeout (recordSuccess cb) = cb_timeout cb"
  "cb_maxFailures (tryHalfOpen cb) = cb_maxFailures cb" "cb_timeout (tryHalfOpen cb) = cb_timeout cb"
  by (simp_all add: breaker_ops Let_def)

lemma abs_recordFailure:
  "breaker_inv cb \<Longrightarrow> breaker_abs (recordFailure now cb) = spec_record (cb_maxFailures cb) now (Inl e) (breaker_abs cb)"
  by (auto simp: breaker_abs_def breaker_inv_def breaker_ops Let_def)

lemma abs_recordSuccess:
  "breaker_abs (recordSuccess cb) = spec_record m now (Inr i) b"
  by (simp add: breaker_abs_def breaker_ops)

lemma abs_tryHalfOpen [simp]: "breaker_abs (tryHalfOpen cb) = breaker_abs cb"
  by (simp add: breaker_abs_def breaker_ops)

text \<open>A call in closed form: refused, or the provider's answer recorded.\<close>

lemma Send_cases:
  assumes "CircuitBreaker_Send prov now nowf n (cb, w) = (x, cb', w')"
  obtains (refused) "cb_state cb = StateOpen" "now - cb_lastFailure cb \<le> cb_timeout cb"
      "x = Inl ErrCircuitOpen" "cb' = cb" "w' = w"
  | (sent) "\<not> (cb_state cb = StateOpen \<and> now - cb_lastFailure cb \<le> cb_timeout cb)"
      "prov n w = (x, w')"
      "cb' = (case x of Inl _ \<Rightarrow> recordFailure nowf (tryHalfOpen cb) | Inr _ \<Rightarrow> recordSuccess cb)"
  using assms
  by (cases "cb_state cb")
    (auto simp: CircuitBreaker_Send_def doSend_def tryHalfOpen_def recordSuccess_def Let_def
      split: prod.splits sum.splits if_splits)

text \<open>The breaker keeps the contract of the provider it wraps.\<close>

lemma breaker_keeps_contract:
  assumes "provider_contract send accepted_log item"
  shows "provider_contract (CircuitBreaker_Send send now nowf) (\<lambda>s. accepted_log (snd s)) item"
proof
  fix n s msgID s'
  assume call: "CircuitBreaker_Send send now nowf n s = (Inr msgID, s')"
  obtain cb w cb' w' where "s = (cb, w)" "s' = (cb', w')" by fastforce
  with call show "\<exists>x \<in> item n. accepted_log (snd s') = x # accepted_log (snd s)"
    by (auto elim!: Send_cases dest: provider_contract.send_ok [OF assms])
next
  fix n s e s'
  assume call: "CircuitBreaker_Send send now nowf n s = (Inl e, s')"
  obtain cb w cb' w' where "s = (cb, w)" "s' = (cb', w')" by fastforce
  with call show "accepted_log (snd s') = accepted_log (snd s) \<or> (\<exists>x \<in> item n. accepted_log (snd s') = x # accepted_log (snd s))"
    by (auto elim!: Send_cases dest: provider_contract.send_err [OF assms])
qed

text \<open>A run of failing sends, as long as no timeout elapses.\<close>

lemma send_run_open:
  assumes "cb_state cb = StateOpen" "\<forall>t \<in> set ts. fst t - cb_lastFailure cb \<le> cb_timeout cb"
  shows "send_run prov n ts (cb, w) = (replicate (length ts) (Inl ErrCircuitOpen), cb, w)"
  using assms(2) by (induction ts) (simp_all add: CircuitBreaker_Send_def assms(1))

lemma send_run_failing:
  assumes fails: "\<And>w. fst (prov n w) = Inl e"
    and "breaker_inv cb" "cb_state cb = StateClosed"
    and "\<forall>t \<in> set ts. \<forall>t' \<in> set ts. fst t' - snd t \<le> cb_timeout cb"
    and "k = nat (cb_maxFailures cb - cb_failures cb)"
  shows "fst (send_run prov n ts (cb, w)) =
      replicate (min k (length ts)) (Inl e) @ replicate (length ts - k) (Inl ErrCircuitOpen)
    \<and> snd (snd (send_run prov n ts (cb, w))) = ((\<lambda>w. snd (prov n w)) ^^ min k (length ts)) w"
  using assms(2-)
proof (induction ts arbitrary: cb w k)
  case Nil
  then show ?case by simp
next
  case (Cons t ts)
  obtain w1 where prov: "prov n w = (Inl e, w1)" using fails [of w] by (metis prod.collapse)
  have k: "0 < k" using Cons.prems(1,2,4) by (simp add: breaker_inv_def)
  have call: "CircuitBreaker_Send prov (fst t) (snd t) n (cb, w) = (Inl e, recordFailure (snd t) cb, w1)"
    using Cons.prems(2) prov by (simp add: CircuitBreaker_Send_def doSend_def)
  show ?case
  proof (cases "k = 1")
    case True
    have st: "cb_state (recordFailure (snd t) cb) = StateOpen" "cb_lastFailure (recordFailure (snd t) cb) = snd t"
      using True Cons.prems(1,4) by (auto simp: breaker_ops Let_def breaker_inv_def)
    have ts: "\<forall>t' \<in> set ts. fst t' - cb_lastFailure (recordFailure (snd t) cb) \<le> cb_timeout (recordFailure (snd t) cb)"
      using Cons.prems(3) st by simp
    show ?thesis using True by (simp add: call prov send_run_open [OF st(1) ts])
  next
    case False
    then obtain j where j: "k = Suc j" "0 < j" using k by (metis Suc_pred' One_nat_def gr0I)
    have "nat (cb_maxFailures (recordFailure (snd t) cb) - cb_failures (recordFailure (snd t) cb)) = j"
      "cb_state (recordFailure (snd t) cb) = StateClosed"
      using Cons.prems(1,2,4) j by (auto simp: breaker_ops Let_def breaker_inv_def)
    with Cons.IH [of "recordFailure (snd t) cb" j w1] Cons.prems(1,3)
    show ?thesis using j(1) prov funpow_swap1 [of "\<lambda>w. snd (prov n w)" "min j (length ts)" w]
      by (simp add: call breaker_inv_ops case_prod_beta)
  qed
qed

section \<open>Lemmas on concurrent calls\<close>

definition sys_inv :: "cb_sys \<Rightarrow> bool" where
  "sys_inv s = (breaker_inv (sy_cb s) \<and> cb_lastFailure (sy_cb s) \<le> sy_now s)"

lemma sys_inv_step: "cb_step s s' \<Longrightarrow> sys_inv s \<Longrightarrow> sys_inv s'"
proof (induction rule: cb_step.induct)
  case (half_open s t)
  then show ?case using breaker_inv_ops(3) [of "sy_cb s"] by (simp add: sys_inv_def tryHalfOpen_def)
next
  case (failure s t e)
  then show ?case using breaker_inv_ops(1) [of "sy_cb s" "sy_now s"] by (simp add: sys_inv_def recordFailure_def Let_def)
next
  case (success s t msgID)
  then show ?case using breaker_inv_ops(2) [of "sy_cb s"] by (simp add: sys_inv_def recordSuccess_def)
qed (simp_all add: sys_inv_def)

lemma sys_inv_reachable:
  assumes "cb_step\<^sup>*\<^sup>* (cb_start m t now) s" "0 < m" "zero_time \<le> now"
  shows "sys_inv s"
  using assms(1)
proof (induction rule: rtranclp_induct)
  case base
  then show ?case using assms(2,3) breaker_inv_new by (simp add: sys_inv_def cb_start_def NewCircuitBreaker_def)
next
  case (step s s')
  then show ?case by (blast intro: sys_inv_step)
qed

text \<open>
  While the breaker stays open and its timeout has not elapsed, a call that has not begun
  gets no further than its snapshot. \<open>open_step\<close> is a step between states in which the
  breaker is open.
\<close>

definition open_step :: "cb_sys \<Rightarrow> cb_sys \<Rightarrow> bool" where
  "open_step s s' = (cb_step s s' \<and> cb_state (sy_cb s) = StateOpen \<and> cb_state (sy_cb s') = StateOpen)"

definition shielded :: "time \<Rightarrow> nat \<Rightarrow> cb_sys \<Rightarrow> bool" where
  "shielded lf t s =
     (sy_pc s t = Idle \<or> (\<exists>lf' \<ge> lf. sy_pc s t = Checked StateOpen lf') \<or>
      sy_pc s t = Finished (Inl ErrCircuitOpen))"

lemma lastFailure_step: "cb_step s s' \<Longrightarrow> sys_inv s \<Longrightarrow> cb_lastFailure (sy_cb s) \<le> cb_lastFailure (sy_cb s')"
  by (erule cb_stepE) (simp_all add: sys_inv_def breaker_ops Let_def)

lemma now_step: "cb_step s s' \<Longrightarrow> sy_now s \<le> sy_now s' \<and> cb_timeout (sy_cb s') = cb_timeout (sy_cb s)"
  by (erule cb_stepE) simp_all

lemma shielded_step:
  assumes "cb_step s s'" "shielded lf t s" "cb_state (sy_cb s) = StateOpen"
    and "lf \<le> cb_lastFailure (sy_cb s)" "sy_now s \<le> lf + cb_timeout (sy_cb s)"
  shows "shielded lf t s'"
  using assms by cases (auto simp: shielded_def)

lemma shielded_run:
  assumes "open_step\<^sup>*\<^sup>* s s'" "sys_inv s" "sy_pc s t = Idle" "cb_state (sy_cb s) = StateOpen"
    and "sy_now s' \<le> cb_lastFailure (sy_cb s) + cb_timeout (sy_cb s)"
  shows "shielded (cb_lastFailure (sy_cb s)) t s'"
proof -
  let ?lf = "cb_lastFailure (sy_cb s)"
  have "sys_inv s' \<and> cb_timeout (sy_cb s') = cb_timeout (sy_cb s) \<and> ?lf \<le> cb_lastFailure (sy_cb s') \<and>
      (sy_now s' \<le> ?lf + cb_timeout (sy_cb s) \<longrightarrow> shielded ?lf t s')"
    using assms(1)
  proof (induction rule: rtranclp_induct)
    case base
    then show ?case using assms(2,3) by (simp add: shielded_def)
  next
    case (step u v)
    then have uv: "cb_step u v" "cb_state (sy_cb u) = StateOpen" by (simp_all add: open_step_def)
    show ?case
      using step.IH uv(2) now_step [OF uv(1)] sys_inv_step [OF uv(1)] lastFailure_step [OF uv(1)]
        shielded_step [OF uv(1)] by auto
  qed
  then show ?thesis using assms(5) by simp
qed

text \<open>Calls that have waited for the timeout all get through: half-open admits every one.\<close>

lemma half_open_enters:
  assumes "sy_pc s t = Idle" "cb_state (sy_cb s) = StateHalfOpen"
  shows "cb_step\<^sup>*\<^sup>* s (goto t Calling s)"
proof -
  let ?c = "goto t (Checked StateHalfOpen (cb_lastFailure (sy_cb s))) s"
  have "cb_step s ?c" using cb_step.read [of s t] assms by simp
  moreover have "cb_step ?c (goto t Calling ?c)" by (rule cb_step.pass [of _ t StateHalfOpen]) simp_all
  ultimately have "cb_step\<^sup>*\<^sup>* s (goto t Calling ?c)" by simp
  then show ?thesis by simp
qed

lemma half_open_enters_all:
  assumes "distinct ts" "\<forall>t \<in> set ts. sy_pc s t = Idle" "cb_state (sy_cb s) = StateHalfOpen"
  shows "cb_step\<^sup>*\<^sup>* s (s\<lparr>sy_pc := (\<lambda>t. if t \<in> set ts then Calling else sy_pc s t)\<rparr>)"
  using assms
proof (induction ts arbitrary: s)
  case Nil
  then show ?case by simp
next
  case (Cons t ts)
  let ?s = "goto t Calling s"
  have eq: "(\<lambda>u. if u \<in> set ts then Calling else sy_pc ?s u) =
      (\<lambda>u. if u \<in> set (t # ts) then Calling else sy_pc s u)" by auto
  have "cb_step\<^sup>*\<^sup>* s ?s" using Cons.prems by (intro half_open_enters) simp_all
  also have "cb_step\<^sup>*\<^sup>* ?s (?s\<lparr>sy_pc := (\<lambda>u. if u \<in> set ts then Calling else sy_pc ?s u)\<rparr>)"
    using Cons.prems by (intro Cons.IH) auto
  finally show ?case unfolding eq by simp
qed

section \<open>An HTTP service in memory\<close>

text \<open>A service with a script of outcomes (then status 200) and the list of accepted bodies.\<close>

definition mem_http :: "(int result list \<times> string list) http" where
  "mem_http =
     \<lparr>ht_marshal = (\<lambda>p. Inr (p_NotificationID p @ '' '' @ p_Timestamp p @ '' '' @ p_Content p)),
      ht_newRequest = (\<lambda>m u b. Inr \<lparr>rq_method = m, rq_url = u, rq_header = [], rq_body = b\<rparr>),
      ht_do = (\<lambda>d req h.
        (case fst h of
           [] \<Rightarrow> (Inr 200, ([], rq_body req # snd h))
         | x # xs \<Rightarrow>
             (x, (xs, case x of Inr c \<Rightarrow> if c < 400 then rq_body req # snd h else snd h | Inl _ \<Rightarrow> snd h)))),
      ht_log = snd\<rparr>"

interpretation mh: http_service mem_http
  by unfold_locales (auto simp: mem_http_def split: list.splits sum.splits if_splits)

definition ex_notification :: notification where
  "ex_notification =
     \<lparr>n_ID = ''n1'', n_BatchID = None, n_IdempotencyKey = None, n_Recipient = ''+905551234567'',
      n_Channel = ChannelSMS, n_Content = ''hello'', n_Priority = PriorityNormal,
      n_Status = StatusProcessing, n_TemplateID = None, n_TemplateVars = None, n_ScheduledAt = None,
      n_ProviderMsgID = None, n_Attempts = 0, n_MaxAttempts = 5, n_LastError = None, n_SentAt = None,
      n_CreatedAt = 0, n_UpdatedAt = 0\<rparr>"

section \<open>Properties\<close>

text \<open>
  C6. The breaker implements its specification. A call on a breaker that no other call is
  using is admitted exactly when the specification admits it, then returns what the wrapped
  provider returns and records the outcome as specified; a refused call returns
  \<open>ErrCircuitOpen\<close> and reaches neither the provider nor the breaker's state. The
  invariant is kept and the breaker is never left half-open.
\<close>

theorem breaker_refines_spec:
  assumes "breaker_inv cb" "cb_state cb \<noteq> StateHalfOpen"
    and "CircuitBreaker_Send prov now nowf n (cb, w) = (x, cb', w')"
  shows "breaker_inv cb' \<and> cb_state cb' \<noteq> StateHalfOpen \<and>
    (if spec_admits (cb_timeout cb) now (breaker_abs cb)
     then prov n w = (x, w') \<and> breaker_abs cb' = spec_record (cb_maxFailures cb) nowf x (breaker_abs cb)
     else x = Inl ErrCircuitOpen \<and> cb' = cb \<and> w' = w)"
  using assms(3)
proof (cases rule: Send_cases)
  case refused
  then show ?thesis using assms(1,2) by (simp add: breaker_abs_def)
next
  case sent
  have adm: "spec_admits (cb_timeout cb) now (breaker_abs cb)"
    using sent(1) assms(2) by (cases "cb_state cb") (auto simp: breaker_abs_def)
  have inv: "breaker_inv (tryHalfOpen cb)" by (rule breaker_inv_ops [OF assms(1)])
  show ?thesis
  proof (cases x)
    case (Inl e)
    have "cb_state cb' \<noteq> StateHalfOpen"
      using sent(3) Inl assms(1,2) by (auto simp: breaker_ops Let_def breaker_inv_def)
    then show ?thesis
      using adm sent(2,3) Inl breaker_inv_ops(1) [OF inv] abs_recordFailure [OF inv] by simp
  next
    case (Inr i)
    then have "cb_state cb' \<noteq> StateHalfOpen" using sent(3) by (simp add: recordSuccess_def)
    then show ?thesis
      using adm sent(2,3) Inr breaker_inv_ops(2) [OF assms(1)]
      by (simp add: abs_recordSuccess [of _ "cb_maxFailures cb" nowf i "breaker_abs cb"] del: spec_record.simps)
  qed
qed

theorem breaker_refines_spec_witness:
  "let cb = NewCircuitBreaker 1 100; x = CircuitBreaker_Send (\<lambda>n w. (Inl (Err ''down''), w + 1)) 5 6 ex_notification (cb, 0::nat)
   in breaker_inv (fst (snd x)) \<and> breaker_abs (fst (snd x)) = Open 6"
proof -
  let ?f = "\<lambda>(n :: notification) (w :: nat). (Inl (Err ''down'') :: string result, w + 1)"
  let ?cb = "NewCircuitBreaker 1 100"
  have call: "CircuitBreaker_Send ?f 5 6 ex_notification (?cb, 0) = (Inl (Err ''down''), recordFailure 6 ?cb, 1)"
    by (simp add: CircuitBreaker_Send_def doSend_def NewCircuitBreaker_def)
  from breaker_refines_spec [OF _ _ call] breaker_inv_new [of 1 100] show ?thesis
    unfolding Let_def call by (simp add: NewCircuitBreaker_def breaker_abs_def)
qed

text \<open>
  C21. Concurrent calls keep the invariant. However the critical sections of any number of
  calls interleave, the breaker is closed exactly while its consecutive failures are below
  \<open>maxFailures\<close>.
\<close>

theorem breaker_concurrent_invariant:
  assumes "cb_step\<^sup>*\<^sup>* (cb_start m timeout now) s" "0 < m" "zero_time \<le> now"
  shows "(CircuitBreaker_State (sy_cb s) = StateClosed) = (cb_failures (sy_cb s) < cb_maxFailures (sy_cb s))"
  using sys_inv_reachable [OF assms] by (simp add: sys_inv_def breaker_inv_def CircuitBreaker_State_def)

text \<open>One call that fails on a breaker with limit one.\<close>

definition ex_open :: cb_sys where
  "ex_open = \<lparr>sy_cb = recordFailure 20 (NewCircuitBreaker 1 100),
     sy_pc = (\<lambda>_. Idle)(0 := Finished (Inl (Err ''down''))), sy_now = 20\<rparr>"

lemma ex_open_reachable: "cb_step\<^sup>*\<^sup>* (cb_start 1 100 20) ex_open"
proof -
  let ?s = "cb_start 1 100 20"
  let ?e = "Inl (Err ''down'') :: string result"
  have "cb_step ?s (goto 0 (Checked StateClosed zero_time) ?s)"
    using cb_step.read [of ?s 0] by (simp add: cb_start_def NewCircuitBreaker_def)
  moreover have "cb_step (goto 0 (Checked StateClosed zero_time) ?s) (goto 0 Calling ?s)"
    using cb_step.pass [of "goto 0 (Checked StateClosed zero_time) ?s" 0] by simp
  moreover have "cb_step (goto 0 Calling ?s) (goto 0 (Returned ?e) ?s)"
    using cb_step.reply [of "goto 0 Calling ?s" 0 ?e] by simp
  moreover have "cb_step (goto 0 (Returned ?e) ?s) ex_open"
    using cb_step.failure [of "goto 0 (Returned ?e) ?s" 0] by (simp add: ex_open_def cb_start_def)
  ultimately show ?thesis by (meson converse_rtranclp_into_rtranclp rtranclp.rtrancl_refl)
qed

lemma ex_open_state:
  "cb_state (sy_cb ex_open) = StateOpen" "cb_lastFailure (sy_cb ex_open) = 20"
  "cb_timeout (sy_cb ex_open) = 100" "sy_now ex_open = 20" "\<And>t. t \<noteq> 0 \<Longrightarrow> sy_pc ex_open t = Idle"
  by (simp_all add: ex_open_def recordFailure_def NewCircuitBreaker_def Let_def)

theorem breaker_concurrent_invariant_witness:
  "(CircuitBreaker_State (sy_cb ex_open) = StateClosed) = (cb_failures (sy_cb ex_open) < cb_maxFailures (sy_cb ex_open))"
  by (rule breaker_concurrent_invariant [OF ex_open_reachable]) (simp_all add: zero_time_def)

text \<open>
  An open breaker shields the provider. Take any reachable state in which the breaker is
  open, and any run from it during which it stays open and the clock does not pass the last
  failure plus the timeout. A call that begins in that run never enters the provider: it has
  not yet decided, or it has returned \<open>ErrCircuitOpen\<close>.
\<close>

theorem breaker_shields_provider:
  assumes "cb_step\<^sup>*\<^sup>* (cb_start m timeout now) s" "0 < m" "zero_time \<le> now"
    and "cb_state (sy_cb s) = StateOpen" "sy_pc s t = Idle" "open_step\<^sup>*\<^sup>* s s'"
    and "sy_now s' \<le> cb_lastFailure (sy_cb s) + cb_timeout (sy_cb s)"
  shows "sy_pc s' t = Idle \<or> (\<exists>lf. sy_pc s' t = Checked StateOpen lf) \<or> sy_pc s' t = Finished (Inl ErrCircuitOpen)"
  using shielded_run [OF assms(6) sys_inv_reachable [OF assms(1-3)] assms(5,4,7)]
  by (auto simp: shielded_def)

theorem breaker_shields_provider_witness:
  "let s = goto 3 (Checked StateOpen 20) ex_open
   in sy_pc s 3 = Idle \<or> (\<exists>lf. sy_pc s 3 = Checked StateOpen lf) \<or> sy_pc s 3 = Finished (Inl ErrCircuitOpen)"
proof -
  let ?s = "goto 3 (Checked StateOpen 20) ex_open"
  have "open_step ex_open ?s"
    using cb_step.read [of ex_open 3] by (simp add: open_step_def ex_open_state)
  then have run: "open_step\<^sup>*\<^sup>* ex_open ?s" by simp
  show ?thesis
    unfolding Let_def
    by (rule breaker_shields_provider [OF ex_open_reachable _ _ _ _ run])
      (simp_all add: ex_open_state zero_time_def)
qed

text \<open>
  Half-open is no limit. Once the timeout of an open breaker has elapsed, any number of
  calls that have not begun can be inside the provider at the same time while the breaker is
  half-open: it does not let a single probe through, as a half-open state suggests.
\<close>

theorem half_open_admits_all:
  assumes "cb_state (sy_cb s) = StateOpen" "cb_timeout (sy_cb s) < sy_now s - cb_lastFailure (sy_cb s)"
    and "distinct (t # ts)" "\<forall>u \<in> set (t # ts). sy_pc s u = Idle"
  shows "\<exists>s'. cb_step\<^sup>*\<^sup>* s s' \<and> cb_state (sy_cb s') = StateHalfOpen \<and> (\<forall>u \<in> set (t # ts). sy_pc s' u = Calling)"
proof -
  let ?lf = "cb_lastFailure (sy_cb s)"
  let ?h = "goto t Calling (s\<lparr>sy_cb := tryHalfOpen (sy_cb s)\<rparr>)"
  have "cb_step s (goto t (Checked StateOpen ?lf) s)"
    using cb_step.read [of s t] assms(1,4) by simp
  moreover have "cb_step (goto t (Checked StateOpen ?lf) s) (goto t Opening s)"
    using cb_step.elapsed [of "goto t (Checked StateOpen ?lf) s" t ?lf] assms(2) by simp
  moreover have "cb_step (goto t Opening s) ?h"
    using cb_step.half_open [of "goto t Opening s" t] by simp
  ultimately have "cb_step\<^sup>*\<^sup>* s ?h" by (meson converse_rtranclp_into_rtranclp rtranclp.rtrancl_refl)
  moreover have h: "cb_state (sy_cb ?h) = StateHalfOpen" using assms(1) by (simp add: tryHalfOpen_def)
  moreover have "\<forall>u \<in> set ts. sy_pc ?h u = Idle" using assms(3,4) by auto
  ultimately have "cb_step\<^sup>*\<^sup>* s (?h\<lparr>sy_pc := (\<lambda>u. if u \<in> set ts then Calling else sy_pc ?h u)\<rparr>)"
    using assms(3) half_open_enters_all [of ts ?h] by (meson distinct.simps(2) rtranclp_trans)
  then show ?thesis by (intro exI conjI, assumption) (use h in simp_all)
qed

theorem half_open_admits_all_witness:
  "\<exists>s'. cb_step\<^sup>*\<^sup>* (ex_open\<lparr>sy_now := 200\<rparr>) s' \<and> cb_state (sy_cb s') = StateHalfOpen
     \<and> (\<forall>u \<in> set [1, 2, 3]. sy_pc s' u = Calling)"
  by (rule half_open_admits_all) (simp_all add: ex_open_state)

text \<open>
  A provider that is down is called \<open>maxFailures\<close> times. In a run of sends that all fail
  on a fresh breaker, within one timeout, the first \<open>maxFailures\<close> sends return the
  provider's error and the rest \<open>ErrCircuitOpen\<close>, without a call.
\<close>

theorem failing_provider_called_max_times:
  assumes "\<And>w. fst (prov n w) = Inl e" "0 < m"
    and "\<forall>t \<in> set ts. \<forall>t' \<in> set ts. fst t' - snd t \<le> timeout"
  shows "fst (send_run prov n ts (NewCircuitBreaker m timeout, w)) =
      replicate (min (nat m) (length ts)) (Inl e) @ replicate (length ts - nat m) (Inl ErrCircuitOpen)
    \<and> snd (snd (send_run prov n ts (NewCircuitBreaker m timeout, w))) =
      ((\<lambda>w. snd (prov n w)) ^^ min (nat m) (length ts)) w"
  using send_run_failing [where prov = prov and n = n, OF assms(1) breaker_inv_new [OF assms(2), of timeout],
      of ts "nat m" w] assms(3)
  by (simp add: NewCircuitBreaker_def)

theorem failing_provider_called_max_times_witness:
  "snd (snd (send_run (\<lambda>n w. (Inl (Err ''down''), w + 1)) ex_notification (map (\<lambda>i. (i, i)) [1..9])
     (NewCircuitBreaker 5 (30 * 10 ^ 9), 0::nat))) = 5"
  using failing_provider_called_max_times [of "\<lambda>n w. (Inl (Err ''down''), w + 1 :: nat)" ex_notification
      "Err ''down''" 5 "map (\<lambda>i. (i, i)) [1..9]" "30 * 10 ^ 9" 0]
  by (simp add: upto.simps eval_nat_numeral)

text \<open>
  At most one delivery per send. With any HTTP service that accepts a request it
  answers below 400, the webhook client behind the circuit breaker returns a message id
  only if the service accepted the notification exactly once in this call, and an error only
  if it accepted it at most once.
\<close>

theorem worker_provider_contract:
  assumes "http_service ht"
  shows "provider_contract (CircuitBreaker_Send (Client_Send ht c now fresh) now1 now2)
    (\<lambda>s. ht_log ht (snd s)) (payload_bodies ht)"
proof -
  from assms have "provider_contract (Client_Send ht c now fresh) (ht_log ht) (payload_bodies ht)"
    by (rule http_service.web_contract)
  then show ?thesis by (rule breaker_keeps_contract)
qed

theorem worker_provider_contract_witness:
  "provider_contract (CircuitBreaker_Send (Client_Send mem_http \<lparr>baseURL = ''http://hook'', httpTimeout = 10\<rparr> 0 ''u1'') 0 0)
    (\<lambda>s. ht_log mem_http (snd s)) (payload_bodies mem_http)"
  by (rule worker_provider_contract) (rule mh.http_service_axioms)

end
