(* ===== verification/Hub.thy ===== *)
theory Hub
  imports Domain "HOL-Library.Word"
begin

text \<open>
  The WebSocket hub of \<open>internal/websocket\<close> and the metrics of
  \<open>internal/observability/metrics.go\<close>.

  A hub is the map of its clients; a \<open>*Client\<close> is a number. A client has the buffered
  channel \<open>send\<close> (a list of at most \<open>sendBuffer\<close> texts) and its subscriptions. Every hub
  operation is one critical section of \<open>hub.mu\<close>, so an interleaving of goroutines is a
  sequence of these operations. The order in which Go iterates over the clients does not
  matter, since a broadcast touches each client separately. A send on a full channel blocks its
  goroutine, with \<open>hub.mu\<close> held; \<open>None\<close> is such a broadcast, which does not return. The JSON
  encoding of events is a parameter (\<open>event_codec\<close>).
\<close>

section \<open>Definitions\<close>

record event =
  ev_Type :: string
  ev_NotificationID :: string
  ev_Channel :: string
  ev_Status :: string
  ev_Error :: string

record subscribeMessage =
  sub_Type :: string
  sub_Channels :: "string list"

record event_codec =
  marshal_event :: "event \<Rightarrow> string result"
  marshal_events :: "event list \<Rightarrow> string result"
  unmarshal_subscribe :: "string \<Rightarrow> subscribeMessage result"

definition sendBuffer :: nat where "sendBuffer = 256"

record client =
  c_send :: "string list"
  c_channels :: "string list"

definition NewClient :: client where
  "NewClient = \<lparr>c_send = [], c_channels = []\<rparr>"

type_synonym hub = "(nat \<times> client) list"

definition NewHub :: hub where "NewHub = []"

definition Client_WantsEvent :: "client \<Rightarrow> string \<Rightarrow> bool" where
  "Client_WantsEvent c channel = (if length (c_channels c) = 0 then True else channel \<in> set (c_channels c))"

text \<open>
  The send \<open>c.send <- data\<close> on the buffered channel: \<open>None\<close> if it would block. The \<open>select\<close> of a
  broadcast has it as its only case beside an empty \<open>default\<close>.
\<close>

definition chan_send :: "string \<Rightarrow> client \<Rightarrow> client option" where
  "chan_send data c =
     (if length (c_send c) < sendBuffer then Some (c\<lparr>c_send := c_send c @ [data]\<rparr>) else None)"

definition offer :: "string \<Rightarrow> client \<Rightarrow> client option" where
  "offer data c = (case chan_send data c of Some c' \<Rightarrow> Some c' | None \<Rightarrow> Some c)"

text \<open>The loop of a broadcast over the clients, of which \<open>wants\<close> are to get the data.\<close>

fun send_all :: "(client \<Rightarrow> bool) \<Rightarrow> string \<Rightarrow> hub \<Rightarrow> hub option" where
  "send_all wants data [] = Some []"
| "send_all wants data ((k, c) # h) =
     (if \<not> wants c then map_option ((#) (k, c)) (send_all wants data h)
      else case offer data c of
        None \<Rightarrow> None
      | Some c' \<Rightarrow> map_option ((#) (k, c')) (send_all wants data h))"

text \<open>\<open>Register\<close> adds a new client under an identity not in use.\<close>

definition Hub_Register :: "nat \<Rightarrow> hub \<Rightarrow> hub" where
  "Hub_Register k h = (if k \<in> fst ` set h then h else (k, NewClient) # h)"

definition Hub_Unregister :: "nat \<Rightarrow> hub \<Rightarrow> hub" where
  "Hub_Unregister k h = filter (\<lambda>p. fst p \<noteq> k) h"

definition Hub_Broadcast :: "event_codec \<Rightarrow> event \<Rightarrow> hub \<Rightarrow> hub option" where
  "Hub_Broadcast js event h =
     (case marshal_event js event of
        Inl e \<Rightarrow> Some h
      | Inr data \<Rightarrow> send_all (\<lambda>c. Client_WantsEvent c (ev_Channel event)) data h)"

definition Hub_BroadcastBatch :: "event_codec \<Rightarrow> event list \<Rightarrow> hub \<Rightarrow> hub option" where
  "Hub_BroadcastBatch js events h =
     (if events = [] then Some h
      else case marshal_events js events of
        Inl e \<Rightarrow> Some h
      | Inr data \<Rightarrow> send_all (\<lambda>c. list_ex (\<lambda>e. Client_WantsEvent c (ev_Channel e)) events) data h)"

definition Hub_Len :: "hub \<Rightarrow> int" where
  "Hub_Len h = int (length h)"

text \<open>
  One iteration of \<open>ReadPump\<close> with the data it has read: a subscription replaces the
  client's channels, anything else is ignored. When reading fails the client is unregistered.
\<close>

definition upd_client :: "nat \<Rightarrow> (client \<Rightarrow> client) \<Rightarrow> hub \<Rightarrow> hub" where
  "upd_client k f h = map (\<lambda>(j, c). (j, if j = k then f c else c)) h"

definition Client_ReadPump :: "event_codec \<Rightarrow> nat \<Rightarrow> string result \<Rightarrow> hub \<Rightarrow> hub" where
  "Client_ReadPump js k read h =
     (case read of
        Inl e \<Rightarrow> Hub_Unregister k h
      | Inr data \<Rightarrow>
          (case unmarshal_subscribe js data of
             Inl e \<Rightarrow> h
           | Inr msg \<Rightarrow>
               if sub_Type msg = ''subscribe''
               then upd_client k (\<lambda>c. c\<lparr>c_channels := remdups (sub_Channels msg)\<rparr>) h
               else h))"

text \<open>One iteration of \<open>WritePump\<close> takes the oldest text of the buffer.\<close>

definition Client_WritePump :: "nat \<Rightarrow> hub \<Rightarrow> hub" where
  "Client_WritePump k = upd_client k (\<lambda>c. c\<lparr>c_send := tl (c_send c)\<rparr>)"

section \<open>Metrics\<close>

record channelMetrics =
  mt_Sent :: "64 word"
  mt_Failed :: "64 word"
  mt_Processing :: "64 word"

text \<open>The collector's map has the three channels; any other key is a nil pointer (\<open>None\<close> is a panic).\<close>

type_synonym metrics = "(channel \<times> channelMetrics) list"

definition NewMetricsCollector :: metrics where
  "NewMetricsCollector =
     (let z = \<lparr>mt_Sent = 0, mt_Failed = 0, mt_Processing = 0\<rparr>
      in [(ChannelSMS, z), (ChannelEmail, z), (ChannelPush, z)])"

definition incr :: "(channelMetrics \<Rightarrow> channelMetrics) \<Rightarrow> channel \<Rightarrow> metrics \<Rightarrow> metrics option" where
  "incr f ch m =
     (if ch \<in> fst ` set m then Some (map (\<lambda>(k, v). (k, if k = ch then f v else v)) m) else None)"

definition IncrSent :: "channel \<Rightarrow> metrics \<Rightarrow> metrics option" where
  "IncrSent = incr (\<lambda>v. v\<lparr>mt_Sent := mt_Sent v + 1\<rparr>)"

definition IncrFailed :: "channel \<Rightarrow> metrics \<Rightarrow> metrics option" where
  "IncrFailed = incr (\<lambda>v. v\<lparr>mt_Failed := mt_Failed v + 1\<rparr>)"

definition IncrProcessing :: "channel \<Rightarrow> metrics \<Rightarrow> metrics option" where
  "IncrProcessing = incr (\<lambda>v. v\<lparr>mt_Processing := mt_Processing v + 1\<rparr>)"

record metricsSnapshot =
  sn_Channels :: "(string \<times> channelMetrics) list"
  sn_Connections :: int

definition Snapshot :: "(unit \<Rightarrow> int) option \<Rightarrow> metrics \<Rightarrow> metricsSnapshot" where
  "Snapshot connFunc m =
     \<lparr>sn_Channels = m, sn_Connections = (case connFunc of None \<Rightarrow> 0 | Some f \<Rightarrow> f ())\<rparr>"

section \<open>Lemmas\<close>

text \<open>Every goroutine that touches the hub performs one of these operations.\<close>

datatype hub_op = HRegister nat | HUnregister nat | HBroadcast event | HBroadcastBatch "event list"
  | HRead nat "string result" | HWrite nat

fun hub_exec :: "event_codec \<Rightarrow> hub_op \<Rightarrow> hub \<Rightarrow> hub option" where
  "hub_exec js (HRegister k) h = Some (Hub_Register k h)"
| "hub_exec js (HUnregister k) h = Some (Hub_Unregister k h)"
| "hub_exec js (HBroadcast e) h = Hub_Broadcast js e h"
| "hub_exec js (HBroadcastBatch es) h = Hub_BroadcastBatch js es h"
| "hub_exec js (HRead k x) h = Some (Client_ReadPump js k x h)"
| "hub_exec js (HWrite k) h = Some (Client_WritePump k h)"

fun hub_run :: "event_codec \<Rightarrow> hub_op list \<Rightarrow> hub \<Rightarrow> hub option" where
  "hub_run js [] h = Some h"
| "hub_run js (op # ops) h = (case hub_exec js op h of None \<Rightarrow> None | Some h' \<Rightarrow> hub_run js ops h')"

text \<open>What a client is after an offer: with the data, unless its buffer is full.\<close>

definition offered :: "string \<Rightarrow> client \<Rightarrow> client" where
  "offered data c = (if length (c_send c) < sendBuffer then c\<lparr>c_send := c_send c @ [data]\<rparr> else c)"

lemma offer_returns: "offer data c = Some (offered data c)"
  by (simp add: offer_def chan_send_def offered_def)

lemma send_all_returns: "send_all wants data h = Some (map (\<lambda>(k, c). (k, if wants c then offered data c else c)) h)"
  by (induction wants data h rule: send_all.induct) (simp_all add: offer_returns)

definition hub_inv :: "hub \<Rightarrow> bool" where
  "hub_inv h = (distinct (map fst h) \<and> (\<forall>(k, c) \<in> set h. length (c_send c) \<le> sendBuffer \<and> distinct (c_channels c)))"

definition client_ok :: "client \<Rightarrow> bool" where
  "client_ok c = (length (c_send c) \<le> sendBuffer \<and> distinct (c_channels c))"

lemma hub_inv_map:
  assumes "hub_inv h" "\<And>k c. client_ok c \<Longrightarrow> client_ok (f k c)"
  shows "hub_inv (map (\<lambda>(k, c). (k, f k c)) h)"
proof -
  have "map fst (map (\<lambda>(k, c). (k, f k c)) h) = map fst h" by (induction h) auto
  then show ?thesis using assms by (fastforce simp: hub_inv_def client_ok_def simp del: map_map)
qed

lemma client_ok_ops:
  "client_ok c \<Longrightarrow> client_ok (offered data c)" "client_ok c \<Longrightarrow> client_ok (c\<lparr>c_send := tl (c_send c)\<rparr>)"
  "client_ok c \<Longrightarrow> client_ok (c\<lparr>c_channels := remdups chs\<rparr>)"
  by (auto simp: client_ok_def offered_def)

lemma upd_client_inv: "hub_inv h \<Longrightarrow> (\<And>c. client_ok c \<Longrightarrow> client_ok (f c)) \<Longrightarrow> hub_inv (upd_client k f h)"
  unfolding upd_client_def by (rule hub_inv_map [where f = "\<lambda>j c. if j = k then f c else c"]) simp_all

lemma Unregister_inv: "hub_inv h \<Longrightarrow> hub_inv (Hub_Unregister k h)"
  by (auto simp: Hub_Unregister_def hub_inv_def distinct_map_filter)

lemma send_all_inv: "hub_inv h \<Longrightarrow> \<exists>h'. send_all wants data h = Some h' \<and> hub_inv h'"
  unfolding send_all_returns using hub_inv_map [of h "\<lambda>k c. if wants c then offered data c else c"] by (simp add: client_ok_ops)

lemma hub_exec_inv: "hub_inv h \<Longrightarrow> \<exists>h'. hub_exec js op h = Some h' \<and> hub_inv h'"
proof (cases op)
  case (HRegister k)
  assume "hub_inv h"
  then show ?thesis using HRegister by (auto simp: Hub_Register_def hub_inv_def NewClient_def image_iff)
next
  case (HRead k x)
  assume "hub_inv h"
  then show ?thesis
    using HRead by (simp add: Client_ReadPump_def Unregister_inv upd_client_inv client_ok_ops split: sum.splits)
qed (auto simp: Hub_Broadcast_def Hub_BroadcastBatch_def Client_WritePump_def send_all_inv Unregister_inv
    upd_client_inv client_ok_ops split: sum.splits)

lemma hub_run_inv: "hub_inv h \<Longrightarrow> \<exists>h'. hub_run js ops h = Some h' \<and> hub_inv h'"
proof (induction ops arbitrary: h)
  case (Cons op ops)
  then obtain h1 where "hub_exec js op h = Some h1" "hub_inv h1" using hub_exec_inv by blast
  then show ?case using Cons.IH by simp
qed simp

definition metrics_ok :: "metrics \<Rightarrow> bool" where
  "metrics_ok m = (fst ` set m = {ChannelSMS, ChannelEmail, ChannelPush})"

lemma metrics_ok_new: "metrics_ok NewMetricsCollector"
  by (simp add: metrics_ok_def NewMetricsCollector_def Let_def)

lemma incr_ok:
  assumes "metrics_ok m" "Channel_Valid ch"
  shows "\<exists>m'. incr f ch m = Some m' \<and> metrics_ok m'"
proof -
  have "fst ` set (map (\<lambda>(k, v). (k, if k = ch then f v else v)) m) = fst ` set m" by force
  moreover have "ch \<in> fst ` set m" using assms by (auto simp: metrics_ok_def Channel_Valid_def)
  ultimately show ?thesis using assms(1) by (simp add: incr_def metrics_ok_def)
qed

text \<open>A broadcast in terms of one client.\<close>

lemma map_of_broadcast:
  "map_of (map (\<lambda>(k, c). (k, f c)) h) k = map_option f (map_of h k)"
  by (induction h) auto

section \<open>Properties\<close>

text \<open>
  No operation of the hub blocks, and the buffers stay within their capacity. Any sequence of
  registrations, broadcasts, subscriptions and reads and writes of the clients runs to its end,
  and no client is registered twice.
\<close>

theorem hub_never_blocks: "\<exists>h. hub_run js ops NewHub = Some h \<and> hub_inv h"
  by (rule hub_run_inv) (simp add: hub_inv_def NewHub_def)

text \<open>
  C12. Delivery. A broadcast returns whatever the clients do, full buffers included, so no slow
  client stops a worker or the other clients. It appends the encoded event to the buffer of
  exactly those clients that subscribed to its channel or to nothing and whose buffer is not
  full; all others, and the set of clients, stay as they are.
\<close>

theorem broadcast_delivery:
  assumes "marshal_event js e = Inr data"
  shows "\<exists>h'. Hub_Broadcast js e h = Some h' \<and> map fst h' = map fst h \<and>
    (\<forall>k. map_of h' k = (case map_of h k of None \<Rightarrow> None | Some c \<Rightarrow>
      Some (if (c_channels c = [] \<or> ev_Channel e \<in> set (c_channels c)) \<and> length (c_send c) < sendBuffer
            then c\<lparr>c_send := c_send c @ [data]\<rparr> else c)))"
proof -
  let ?f = "\<lambda>c. if Client_WantsEvent c (ev_Channel e) then offered data c else c"
  let ?h = "map (\<lambda>(k, c). (k, ?f c)) h"
  have "Hub_Broadcast js e h = Some ?h" using assms by (simp add: Hub_Broadcast_def send_all_returns)
  moreover have "map fst ?h = map fst h" by (induction h) auto
  moreover have "map_of ?h k = map_option ?f (map_of h k)" for k by (rule map_of_broadcast)
  ultimately show ?thesis by (intro exI [of _ ?h]) (auto simp: Client_WantsEvent_def offered_def split: option.splits)
qed

definition ex_codec :: event_codec where
  "ex_codec = \<lparr>marshal_event = (\<lambda>e. Inr (ev_Type e)), marshal_events = (\<lambda>es. Inr (concat (map ev_Type es))),
     unmarshal_subscribe = (\<lambda>d. Inr \<lparr>sub_Type = ''subscribe'', sub_Channels = [d]\<rparr>)\<rparr>"

definition ex_event :: "string \<Rightarrow> string \<Rightarrow> event" where
  "ex_event t ch = \<lparr>ev_Type = t, ev_NotificationID = ''n1'', ev_Channel = ch, ev_Status = ''sent'', ev_Error = []\<rparr>"

text \<open>One client that gets the event, and one whose buffer is full.\<close>

theorem broadcast_delivery_witness:
  "\<exists>h'. Hub_Broadcast ex_codec (ex_event ''sent'' ''sms'')
       [(7, NewClient), (8, NewClient\<lparr>c_send := replicate 256 ''old''\<rparr>)] = Some h' \<and>
     map_of h' 7 = Some (NewClient\<lparr>c_send := [''sent'']\<rparr>) \<and> map_of h' 8 = Some (NewClient\<lparr>c_send := replicate 256 ''old''\<rparr>)"
proof -
  let ?h = "[(7, NewClient), (8, NewClient\<lparr>c_send := replicate 256 ''old''\<rparr>)]"
  have "marshal_event ex_codec (ex_event ''sent'' ''sms'') = Inr ''sent''" by (simp add: ex_codec_def ex_event_def)
  from broadcast_delivery [OF this, of ?h] obtain h' where
    h: "Hub_Broadcast ex_codec (ex_event ''sent'' ''sms'') ?h = Some h'"
    and d: "\<And>k. map_of h' k = (case map_of ?h k of None \<Rightarrow> None | Some c \<Rightarrow>
      Some (if (c_channels c = [] \<or> ev_Channel (ex_event ''sent'' ''sms'') \<in> set (c_channels c)) \<and> length (c_send c) < sendBuffer
            then c\<lparr>c_send := c_send c @ [''sent'']\<rparr> else c))" by blast
  show ?thesis using h d [of 7] d [of 8] by (simp add: NewClient_def sendBuffer_def)
qed

text \<open>
  Batches are not filtered by event. A client that wants one event of a batch receives
  the whole batch, with the events of channels it did not subscribe to.
\<close>

theorem batch_ignores_subscription:
  assumes "marshal_events js es = Inr data" "map_of h k = Some c" "length (c_send c) < sendBuffer"
    and "e \<in> set es" "ev_Channel e \<in> set (c_channels c)"
    and "e' \<in> set es" "ev_Channel e' \<notin> set (c_channels c)"
  shows "\<exists>h'. \<not> Client_WantsEvent c (ev_Channel e') \<and> Hub_BroadcastBatch js es h = Some h' \<and>
    map_of h' k = Some (c\<lparr>c_send := c_send c @ [data]\<rparr>)"
proof -
  have "list_ex (\<lambda>e. Client_WantsEvent c (ev_Channel e)) es"
    using assms(4,5) by (auto simp: list_ex_iff Client_WantsEvent_def)
  then show ?thesis
    using assms by (auto simp: Hub_BroadcastBatch_def send_all_returns map_of_broadcast offered_def Client_WantsEvent_def)
qed

theorem batch_ignores_subscription_witness:
  "\<exists>h'. Hub_BroadcastBatch ex_codec [ex_event ''a'' ''sms'', ex_event ''b'' ''email''] [(7, NewClient\<lparr>c_channels := [''sms'']\<rparr>)] = Some h' \<and>
     map_of h' 7 = Some (NewClient\<lparr>c_channels := [''sms''], c_send := [''ab'']\<rparr>)"
  using batch_ignores_subscription [of ex_codec "[ex_event ''a'' ''sms'', ex_event ''b'' ''email'']" "''ab''"
      "[(7, NewClient\<lparr>c_channels := [''sms'']\<rparr>)]" 7 "NewClient\<lparr>c_channels := [''sms'']\<rparr>"
      "ex_event ''a'' ''sms''" "ex_event ''b'' ''email''"]
  by (simp add: ex_codec_def ex_event_def NewClient_def sendBuffer_def)

end
