(* ===== verification/Retry.thy ===== *)
theory Retry
  imports Float64
begin

text \<open>
  The retry strategy of \<open>internal/retry/strategy.go\<close>: exponential backoff, capped, with
  jitter. All arithmetic is in float64 as the source has it; the draw of \<open>rand.Float64()\<close>
  is an argument. \<open>math.Pow(2, k)\<close> of an integer \<open>k\<close> is exact; the exponents where it would
  overflow to infinity or be subnormal (\<open>\<bar>k\<bar> > 1000\<close>) are outside the float model.
\<close>

section \<open>Definitions\<close>

record strategy =
  baseWait :: duration
  maxWait :: duration

definition NewStrategy :: "duration \<Rightarrow> duration \<Rightarrow> strategy" where
  "NewStrategy b m = \<lparr>baseWait = b, maxWait = m\<rparr>"

definition Strategy_NextDelay :: "strategy \<Rightarrow> float64 \<Rightarrow> int \<Rightarrow> duration" where
  "Strategy_NextDelay s rnd attempt =
     (let delay = f64 (float64_of_int (baseWait s) * 2 powi (attempt - 1));
          delay = (if delay > float64_of_int (maxWait s) then float64_of_int (maxWait s) else delay);
          jitter = f64 (f64 (delay * (1 / 4)) * f64 (f64 (rnd * 2) - 1));
          delay = f64 (delay + jitter)
      in int_of_float64 delay)"

text \<open>The wait before jitter, in exact arithmetic.\<close>

definition backoff :: "strategy \<Rightarrow> int \<Rightarrow> int" where
  "backoff s attempt = min (baseWait s * 2 ^ nat (attempt - 1)) (maxWait s)"

section \<open>Lemmas\<close>

text \<open>Numbers with 52 bits and two of them behind the point are exact.\<close>

lemma f64_quarter:
  assumes "\<bar>i\<bar> \<le> 2 ^ 53"
  shows "f64 (of_int i / 4) = of_int i / 4"
  by (rule f64_exact [of _ i "-2"]) (use assms in \<open>simp_all add: power_int_minus field_simps\<close>)

lemma int_of_float64_quarter:
  assumes "of_int i / 4 \<le> x" "x \<le> of_int j / 4" "0 \<le> i"
  shows "i div 4 \<le> int_of_float64 x" "int_of_float64 x \<le> j div 4"
proof -
  have "0 \<le> x" using assms by (meson divide_nonneg_nonneg of_int_0_le_iff order_trans zero_le_numeral)
  have "\<lfloor>rat_of_int k / 4\<rfloor> = k div 4" for k using floor_divide_of_int_eq [of k 4] by simp
  then show "i div 4 \<le> int_of_float64 x" "int_of_float64 x \<le> j div 4"
    using floor_mono [OF assms(1)] floor_mono [OF assms(2)] \<open>0 \<le> x\<close> by (simp_all add: int_of_float64_def)
qed

lemma capped_delay:
  assumes "0 \<le> baseWait s" "baseWait s \<le> maxWait s" "maxWait s \<le> 2 ^ 50" "1 \<le> attempt"
  defines "d \<equiv> f64 (float64_of_int (baseWait s) * 2 powi (attempt - 1))"
  shows "(if d > float64_of_int (maxWait s) then float64_of_int (maxWait s) else d)
     = of_int (backoff s attempt)"
proof -
  let ?x = "baseWait s * 2 ^ nat (attempt - 1)"
  have small: "float64_of_int (baseWait s) = of_int (baseWait s)" "float64_of_int (maxWait s) = of_int (maxWait s)"
    using assms(1-3) by (simp_all add: float64_of_int_def f64_of_small_int)
  have d: "d = f64 (of_int ?x)"
    using assms(4) by (simp add: d_def small power_int_def)
  show ?thesis
  proof (cases "?x \<le> 2 ^ 53")
    case True
    then have "d = of_int ?x" using assms(1) unfolding d by (intro f64_of_small_int) simp
    then show ?thesis by (simp add: small backoff_def min_def del: of_int_mult)
  next
    case False
    then have "rat_of_int (2 ^ 53) \<le> of_int ?x" by (simp only: of_int_le_iff)
    from f64_mono [OF this] have "of_int (2 ^ 53) \<le> d" unfolding d using f64_of_small_int [of "2 ^ 53"] by simp
    moreover have "rat_of_int (maxWait s) < of_int (2 ^ 53)"
      using assms(3) by (simp only: of_int_less_iff) simp
    ultimately show ?thesis using False assms(3) by (simp add: small backoff_def)
  qed
qed

lemma NextDelay_jitter:
  assumes "0 \<le> baseWait s" "baseWait s \<le> maxWait s" "maxWait s \<le> 2 ^ 50" "1 \<le> attempt"
  shows "Strategy_NextDelay s rnd attempt =
    int_of_float64 (f64 (of_int (backoff s attempt)
      + f64 (of_int (backoff s attempt) / 4 * f64 (f64 (rnd * 2) - 1))))"
proof -
  have "\<bar>backoff s attempt\<bar> \<le> 2 ^ 53" using assms by (simp add: backoff_def)
  then have q: "f64 (of_int (backoff s attempt) * (1 / 4)) = of_int (backoff s attempt) / 4"
    using f64_quarter by simp
  show ?thesis
    unfolding Strategy_NextDelay_def Let_def capped_delay [OF assms] q ..
qed

text \<open>A factor between -1 and 1 keeps the jitter within a quarter of the wait.\<close>

lemma jitter_bounds:
  assumes "0 \<le> c" "c \<le> 2 ^ 50" "\<bar>x\<bar> \<le> 1"
  shows "\<bar>f64 (of_int c / 4 * x)\<bar> \<le> of_int c / 4"
proof -
  have c: "f64 (of_int c / 4) = of_int c / 4" using assms by (simp add: f64_quarter)
  have "\<bar>of_int c / 4 * x\<bar> \<le> of_int c / 4"
    using assms(1,3) mult_left_mono [of "\<bar>x\<bar>" 1 "of_int c / 4"] by (simp add: abs_mult)
  then have "of_int c / 4 * x \<le> of_int c / 4" "- (of_int c / 4) \<le> of_int c / 4 * x"
    by (simp_all add: abs_le_iff)
  from f64_mono [OF this(1)] f64_mono [OF this(2)] show ?thesis
    by (simp add: c f64_minus abs_le_iff)
qed

lemma draw_bounds:
  assumes "0 \<le> rnd" "rnd \<le> 1"
  shows "\<bar>f64 (f64 (rnd * 2) - 1)\<bar> \<le> 1"
proof -
  have f: "f64 2 = 2" "f64 1 = 1" using f64_of_small_int [of 2] f64_of_small_int [of 1] by simp_all
  have "0 \<le> f64 (rnd * 2)" "f64 (rnd * 2) \<le> 2"
    using assms f64_nonneg [of "rnd * 2"] f64_mono [of "rnd * 2" 2] f by simp_all
  then have "f64 (- 1) \<le> f64 (f64 (rnd * 2) - 1)" "f64 (f64 (rnd * 2) - 1) \<le> f64 1"
    by (simp_all add: f64_mono)
  then show ?thesis by (simp add: f f64_minus abs_le_iff)
qed

section \<open>Properties\<close>

text \<open>
  C29. Backoff bounds. For every draw of the random generator the delay is within a quarter
  of \<open>min (baseWait * 2 ^ (attempt - 1)) maxWait\<close>, to the nanosecond (both limits rounded
  down), although the code computes in floating point.
\<close>

theorem next_delay_bounds:
  assumes "0 \<le> baseWait s" "baseWait s \<le> maxWait s" "maxWait s \<le> 2 ^ 50" "1 \<le> attempt"
    and "0 \<le> rnd" "rnd \<le> 1"
  shows "3 * backoff s attempt div 4 \<le> Strategy_NextDelay s rnd attempt
    \<and> Strategy_NextDelay s rnd attempt \<le> 5 * backoff s attempt div 4"
proof -
  let ?c = "backoff s attempt"
  let ?j = "f64 (of_int ?c / 4 * f64 (f64 (rnd * 2) - 1))"
  have c: "0 \<le> ?c" "?c \<le> 2 ^ 50" using assms(1-3) by (simp_all add: backoff_def)
  have j: "\<bar>?j\<bar> \<le> of_int ?c / 4" by (rule jitter_bounds [OF c draw_bounds [OF assms(5,6)]])
  have q: "f64 (of_int (3 * ?c) / 4) = of_int (3 * ?c) / 4" "f64 (of_int (5 * ?c) / 4) = of_int (5 * ?c) / 4"
    by (rule f64_quarter, use c in simp)+
  have "of_int (3 * ?c) / 4 \<le> of_int ?c + ?j" "of_int ?c + ?j \<le> of_int (5 * ?c) / 4"
    using j by (simp_all add: abs_le_iff)
  from f64_mono [OF this(1)] f64_mono [OF this(2)]
  have "of_int (3 * ?c) / 4 \<le> f64 (of_int ?c + ?j)" "f64 (of_int ?c + ?j) \<le> of_int (5 * ?c) / 4"
    by (simp_all only: q)
  from int_of_float64_quarter [OF this] c show ?thesis by (simp add: NextDelay_jitter [OF assms(1-4)])
qed

text \<open>The strategy of \<open>app.RunWorker\<close>: one second to five minutes.\<close>

theorem next_delay_bounds_witness:
  "3 * backoff (NewStrategy (10 ^ 9) (300 * 10 ^ 9)) 4 div 4 \<le> Strategy_NextDelay (NewStrategy (10 ^ 9) (300 * 10 ^ 9)) (1 / 2) 4
    \<and> Strategy_NextDelay (NewStrategy (10 ^ 9) (300 * 10 ^ 9)) (1 / 2) 4 \<le> 5 * backoff (NewStrategy (10 ^ 9) (300 * 10 ^ 9)) 4 div 4"
  by (rule next_delay_bounds) (simp_all add: NewStrategy_def)

text \<open>
  The cap is applied before the jitter: once the backoff has reached \<open>maxWait\<close>, a draw
  of 3/4 already gives a delay of 9/8 of \<open>maxWait\<close>.
\<close>

theorem next_delay_exceeds_max:
  assumes "0 \<le> baseWait s" "baseWait s \<le> maxWait s" "maxWait s \<le> 2 ^ 50" "1 \<le> attempt"
    and "backoff s attempt = maxWait s" "8 dvd maxWait s" "0 < maxWait s"
  shows "Strategy_NextDelay s (3 / 4) attempt = 9 * maxWait s div 8 \<and> maxWait s < Strategy_NextDelay s (3 / 4) attempt"
proof -
  obtain k where k: "maxWait s = 8 * k" using assms(6) by (elim dvdE)
  have f: "f64 (1 / 2) = 1 / 2" "f64 (3 / 2) = 3 / 2" using f64_quarter [of 2] f64_quarter [of 6] by simp_all
  have e: "f64 (of_int k) = of_int k" "f64 (of_int (9 * k)) = of_int (9 * k)"
    by (rule f64_of_small_int, use assms(3,7) k in simp)+
  have "Strategy_NextDelay s (3 / 4) attempt = int_of_float64 (of_int (9 * k))"
    using e by (simp add: NextDelay_jitter [OF assms(1-4)] assms(5) k f)
  also have "\<dots> = 9 * k" using k assms(7) unfolding int_of_float64_def by (simp only: floor_of_int of_int_0_le_iff) simp
  finally show ?thesis using k assms(7) by simp
qed

theorem next_delay_exceeds_max_witness:
  "Strategy_NextDelay (NewStrategy (10 ^ 9) (300 * 10 ^ 9)) (3 / 4) 20 = 9 * maxWait (NewStrategy (10 ^ 9) (300 * 10 ^ 9)) div 8
    \<and> maxWait (NewStrategy (10 ^ 9) (300 * 10 ^ 9)) < Strategy_NextDelay (NewStrategy (10 ^ 9) (300 * 10 ^ 9)) (3 / 4) 20"
  by (rule next_delay_exceeds_max) (simp_all add: NewStrategy_def backoff_def)

end
