(* ===== verification/Processor.thy ===== *)
theory Processor
  imports Notification_Repo Queue Provider Hub Retry
begin

text \<open>
  The processor of \<open>internal/worker/processor.go\<close>. As in the source it is built from
  interfaces: \<open>processor\<close> is a record of the operations it calls, over a world state of any
  type. Logging is left out. A panic (a metrics channel that does not exist) is the result
  \<open>None\<close>.

  The locale \<open>processor_env\<close> puts the contracts of the repository, the queue and the
  provider together with the frame conditions between them; the lemmas about \<open>Process\<close> and
  \<open>ProcessBatch\<close> are proved there. The theory \<open>Worker\<close> interprets it on the wiring of
  \<open>internal/app/worker.go\<close>.
\<close>

section \<open>Definitions\<close>

record 'w repository =
  repo_GetAndMarkProcessing :: "uuid \<Rightarrow> 'w \<Rightarrow> notification result \<times> 'w"
  repo_GetAndMarkProcessingBatch :: "uuid list \<Rightarrow> 'w \<Rightarrow> notification list result \<times> 'w"
  repo_UpdateStatus :: "uuid \<Rightarrow> status \<Rightarrow> 'w \<Rightarrow> err option \<times> 'w"
  repo_UpdateStatusWithError :: "uuid \<Rightarrow> status \<Rightarrow> string \<Rightarrow> int \<Rightarrow> 'w \<Rightarrow> err option \<times> 'w"
  repo_UpdateSent :: "uuid \<Rightarrow> string \<Rightarrow> 'w \<Rightarrow> err option \<times> 'w"
  repo_UpdateBatchSent :: "uuid list \<Rightarrow> string list \<Rightarrow> 'w \<Rightarrow> err option \<times> 'w"
  repo_GetPendingScheduled :: "'w \<Rightarrow> notification list result \<times> 'w"

record 'w processor =
  p_repo :: "'w repository"
  p_provider :: "'w sender"
  p_EnqueueDelayed :: "message \<Rightarrow> duration \<Rightarrow> 'w \<Rightarrow> err option \<times> 'w"
  p_Ack :: "channel \<Rightarrow> message list \<Rightarrow> 'w \<Rightarrow> err option \<times> 'w"
  p_NextDelay :: "int \<Rightarrow> 'w \<Rightarrow> duration \<times> 'w"
  p_Handle :: "uuid \<Rightarrow> string \<Rightarrow> int \<Rightarrow> 'w \<Rightarrow> err option \<times> 'w"
  p_Broadcast :: "event \<Rightarrow> 'w \<Rightarrow> 'w"
  p_BroadcastBatch :: "event list \<Rightarrow> 'w \<Rightarrow> 'w"
  p_IncrSent :: "channel \<Rightarrow> 'w \<Rightarrow> 'w option"
  p_IncrFailed :: "channel \<Rightarrow> 'w \<Rightarrow> 'w option"

definition Processor_ack :: "'w processor \<Rightarrow> message list \<Rightarrow> 'w \<Rightarrow> 'w" where
  "Processor_ack p msgs w =
     (case msgs of [] \<Rightarrow> w | m # _ \<Rightarrow> snd (p_Ack p (m_Channel m) msgs w))"

definition status_event :: "string \<Rightarrow> notification \<Rightarrow> status \<Rightarrow> string \<Rightarrow> event" where
  "status_event ty n st em =
     \<lparr>ev_Type = ty, ev_NotificationID = n_ID n, ev_Channel = n_Channel n, ev_Status = st, ev_Error = em\<rparr>"

definition Processor_handleFailure ::
  "'w processor \<Rightarrow> notification \<Rightarrow> message \<Rightarrow> err \<Rightarrow> 'w \<Rightarrow> 'w option" where
  "Processor_handleFailure p n0 msg sendErr w0 =
     (let n = n0\<lparr>n_Attempts := n_Attempts n0 + 1\<rparr>; errMsg = Error sendErr
      in case p_IncrFailed p (n_Channel n) w0 of
           None \<Rightarrow> None
         | Some w1 \<Rightarrow>
             if n_Attempts n \<ge> n_MaxAttempts n then
               (let (_, w2) = repo_UpdateStatusWithError (p_repo p) (n_ID n) StatusFailed errMsg (n_Attempts n) w1;
                    (_, w3) = p_Handle p (n_ID n) errMsg (n_Attempts n) w2;
                    w4 = Processor_ack p [msg] w3
                in Some (p_Broadcast p (status_event ''notification.failed'' n StatusFailed errMsg) w4))
             else
               (case repo_UpdateStatusWithError (p_repo p) (n_ID n) StatusQueued errMsg (n_Attempts n) w1 of
                  (Some _, w2) \<Rightarrow> Some w2
                | (None, w2) \<Rightarrow>
                    (let (delay, w3) = p_NextDelay p (n_Attempts n) w2
                     in case p_EnqueueDelayed p msg delay w3 of
                          (Some _, w4) \<Rightarrow> Some w4
                        | (None, w4) \<Rightarrow>
                            (let w5 = Processor_ack p [msg] w4
                             in Some (p_Broadcast p (status_event ''notification.retrying'' n StatusQueued
                                  (''retry '' @ Itoa (n_Attempts n) @ ''/'' @ Itoa (n_MaxAttempts n) @ '' in '' @
                                   Duration_String delay @ '': '' @ errMsg)) w5)))))"

definition Processor_Process :: "'w processor \<Rightarrow> message \<Rightarrow> 'w \<Rightarrow> 'w option" where
  "Processor_Process p msg w =
     (case repo_GetAndMarkProcessing (p_repo p) (m_NotificationID msg) w of
        (Inl e, w1) \<Rightarrow> if err_is e ErrNotFound then Some (Processor_ack p [msg] w1) else Some w1
      | (Inr n, w1) \<Rightarrow>
          (case p_provider p n w1 of
             (Inl e, w2) \<Rightarrow> Processor_handleFailure p n msg e w2
           | (Inr providerMsgID, w2) \<Rightarrow>
               (case repo_UpdateSent (p_repo p) (n_ID n) providerMsgID w2 of
                  (Some _, w3) \<Rightarrow> Some w3
                | (None, w3) \<Rightarrow>
                    (let w4 = Processor_ack p [msg] w3
                     in case p_IncrSent p (n_Channel n) w4 of
                          None \<Rightarrow> None
                        | Some w5 \<Rightarrow> Some (p_Broadcast p (status_event ''notification.sent'' n StatusSent []) w5)))))"

text \<open>\<open>msgMap[id]\<close>: the last message with the identifier, or the zero message.\<close>

definition zero_message :: message where
  "zero_message =
     \<lparr>m_NotificationID = ''00000000-0000-0000-0000-000000000000'', m_Channel = [], m_Priority = [],
      m_ScheduledAt = None\<rparr>"

definition msgMap :: "message list \<Rightarrow> uuid \<Rightarrow> message" where
  "msgMap msgs i =
     (case find (\<lambda>m. m_NotificationID m = i) (rev msgs) of Some m \<Rightarrow> m | None \<Rightarrow> zero_message)"

text \<open>The send loop of \<open>ProcessBatch\<close>, with what it collects: identifiers, provider identifiers, events.\<close>

fun send_loop ::
  "'w processor \<Rightarrow> message list \<Rightarrow> notification list \<Rightarrow> 'w \<Rightarrow>
   ((uuid \<times> string \<times> event) list \<times> 'w) option" where
  "send_loop p msgs [] w = Some ([], w)"
| "send_loop p msgs (n # ns) w =
     (case p_provider p n w of
        (Inl e, w1) \<Rightarrow>
          (case Processor_handleFailure p n (msgMap msgs (n_ID n)) e w1 of
             None \<Rightarrow> None
           | Some w2 \<Rightarrow> send_loop p msgs ns w2)
      | (Inr providerMsgID, w1) \<Rightarrow>
          (case p_IncrSent p (n_Channel n) w1 of
             None \<Rightarrow> None
           | Some w2 \<Rightarrow>
               (case send_loop p msgs ns w2 of
                  None \<Rightarrow> None
                | Some (sent, w3) \<Rightarrow>
                    Some ((n_ID n, providerMsgID, status_event ''notification.sent'' n StatusSent []) # sent, w3))))"

definition Processor_ProcessBatch :: "'w processor \<Rightarrow> message list \<Rightarrow> 'w \<Rightarrow> 'w option" where
  "Processor_ProcessBatch p msgs w =
     (if msgs = [] then Some w
      else
       (case repo_GetAndMarkProcessingBatch (p_repo p) (map m_NotificationID msgs) w of
          (Inl _, w1) \<Rightarrow> Some w1
        | (Inr claimed, w1) \<Rightarrow>
            if claimed = [] then Some w1
            else
             (case send_loop p msgs claimed w1 of
                None \<Rightarrow> None
              | Some (sent, w2) \<Rightarrow>
                  (let w3 = (if sent \<noteq> []
                             then snd (repo_UpdateBatchSent (p_repo p) (map fst sent) (map (fst \<circ> snd) sent) w2)
                             else w2);
                       w4 = Processor_ack p msgs w3
                   in Some (if sent \<noteq> [] then p_BroadcastBatch p (map (snd \<circ> snd) sent) w4 else w4)))))"

section \<open>The environment of the processor\<close>

text \<open>
  \<open>qview\<close> collects what the queue contract observes. The frame conditions say which part of
  the world an operation leaves alone: the repository does not touch the queue, the queue
  not the table, and provider, retry strategy, metrics and hub neither of them.
\<close>

locale processor_env =
  store: notification_store "repo_GetAndMarkProcessing (p_repo p)" "repo_GetAndMarkProcessingBatch (p_repo p)"
    "repo_UpdateStatus (p_repo p)" "repo_UpdateStatusWithError (p_repo p)" "repo_UpdateSent (p_repo p)"
    "repo_UpdateBatchSent (p_repo p)" tbl inv +
  wq: work_queue enq "\<lambda>_. p_EnqueueDelayed p" "p_Ack p" waiting held later +
  prov: provider_contract "p_provider p" deliveries item
  for p :: "'w processor" and tbl :: "'w \<Rightarrow> table" and inv :: "'w \<Rightarrow> bool"
    and enq :: "time \<Rightarrow> message \<Rightarrow> 'w \<Rightarrow> err option \<times> 'w"
    and waiting held :: "channel \<Rightarrow> 'w \<Rightarrow> message set" and later :: "'w \<Rightarrow> message set"
    and deliveries :: "'w \<Rightarrow> 'x list" and item :: "notification \<Rightarrow> 'x set" +
  fixes qview :: "'w \<Rightarrow> 'q"
  assumes qview: "qview w' = qview w \<Longrightarrow> held c w' = held c w \<and> waiting c w' = waiting c w \<and> later w' = later w"
    and claim_frame: "repo_GetAndMarkProcessing (p_repo p) i w = (x, w') \<Longrightarrow>
          qview w' = qview w \<and> deliveries w' = deliveries w"
    and claim_batch_frame: "repo_GetAndMarkProcessingBatch (p_repo p) ids w = (y, w') \<Longrightarrow>
          qview w' = qview w \<and> deliveries w' = deliveries w"
    and upd_error_frame: "repo_UpdateStatusWithError (p_repo p) i st em a w = (e, w') \<Longrightarrow>
          qview w' = qview w \<and> deliveries w' = deliveries w"
    and upd_sent_frame: "repo_UpdateSent (p_repo p) i pid w = (e, w') \<Longrightarrow>
          qview w' = qview w \<and> deliveries w' = deliveries w"
    and upd_sent_batch_frame: "repo_UpdateBatchSent (p_repo p) ids pids w = (e, w') \<Longrightarrow>
          qview w' = qview w \<and> deliveries w' = deliveries w"
    and send_frame: "p_provider p n w = (z, w') \<Longrightarrow> qview w' = qview w \<and> tbl w' = tbl w \<and> (inv w \<longrightarrow> inv w')"
    and delayed_frame: "p_EnqueueDelayed p m d w = (e, w') \<Longrightarrow>
          tbl w' = tbl w \<and> deliveries w' = deliveries w \<and> (inv w \<longrightarrow> inv w')"
    and ack_frame: "p_Ack p ch ms w = (e, w') \<Longrightarrow>
          tbl w' = tbl w \<and> deliveries w' = deliveries w \<and> (inv w \<longrightarrow> inv w')"
    and nextdelay_frame: "p_NextDelay p a w = (d, w') \<Longrightarrow>
          qview w' = qview w \<and> tbl w' = tbl w \<and> deliveries w' = deliveries w \<and> (inv w \<longrightarrow> inv w')"
    and handle_frame: "p_Handle p i em a w = (e, w') \<Longrightarrow>
          qview w' = qview w \<and> tbl w' = tbl w \<and> deliveries w' = deliveries w \<and> (inv w \<longrightarrow> inv w')"
    and broadcast_frame: "qview (p_Broadcast p ev w) = qview w \<and> tbl (p_Broadcast p ev w) = tbl w \<and>
          deliveries (p_Broadcast p ev w) = deliveries w \<and> (inv w \<longrightarrow> inv (p_Broadcast p ev w))"
    and broadcast_batch_frame: "qview (p_BroadcastBatch p evs w) = qview w \<and> tbl (p_BroadcastBatch p evs w) = tbl w \<and>
          deliveries (p_BroadcastBatch p evs w) = deliveries w \<and> (inv w \<longrightarrow> inv (p_BroadcastBatch p evs w))"
    and incr_sent: "inv w \<Longrightarrow> Channel_Valid ch \<Longrightarrow> \<exists>w'. p_IncrSent p ch w = Some w' \<and>
          qview w' = qview w \<and> tbl w' = tbl w \<and> deliveries w' = deliveries w \<and> inv w'"
    and incr_failed: "inv w \<Longrightarrow> Channel_Valid ch \<Longrightarrow> \<exists>w'. p_IncrFailed p ch w = Some w' \<and>
          qview w' = qview w \<and> tbl w' = tbl w \<and> deliveries w' = deliveries w \<and> inv w'"

section \<open>Lemmas\<close>

text \<open>The table after a write to one notification, if the row is there.\<close>

lemma upd_rows_at:
  assumes "\<And>i n. m i = Some n \<Longrightarrow> n_ID n = i"
  shows "upd_rows (\<lambda>n. n_ID n = i) f m = m(i := map_option f (m i))"
  by (rule upd_rows_id [OF assms])

definition moved :: "message set \<Rightarrow> message set \<Rightarrow> message set \<Rightarrow> bool" where
  "moved X H H' = (H - X \<subseteq> H' \<and> H' \<subseteq> H)"

text \<open>What the processing of a claimed notification makes of its row.\<close>

definition settled :: "notification \<Rightarrow> notification \<Rightarrow> bool" where
  "settled n n' =
     (n_Status n' \<in> {StatusProcessing, StatusSent, StatusQueued, StatusFailed} \<and>
      n_Attempts n \<le> n_Attempts n' \<and> n_Attempts n' \<le> n_Attempts n + 1 \<and>
      (n_Status n' = StatusFailed \<longrightarrow> n_MaxAttempts n \<le> n_Attempts n'))"

text \<open>The rows of a batch: unchanged, or claimed and settled.\<close>

definition rows_ok :: "uuid set \<Rightarrow> table \<Rightarrow> table \<Rightarrow> bool" where
  "rows_ok ids m m' =
     (\<forall>i. m' i = m i \<or> i \<in> ids \<and> (\<exists>n n'. m i = Some n \<and> claimable (n_Status n) \<and> m' i = Some n' \<and> settled n n'))"

lemma moved_simps [simp]: "moved X H H"
  by (auto simp: moved_def)

lemma moved_trans: "moved X H H1 \<Longrightarrow> moved X H1 H2 \<Longrightarrow> moved X H H2"
  by (auto simp: moved_def)

lemma moved_mono: "moved X H H1 \<Longrightarrow> X \<subseteq> Y \<Longrightarrow> moved Y H H1"
  by (auto simp: moved_def)

lemma disjoint_singleton: "A \<subseteq> {x} \<Longrightarrow> B \<subseteq> C \<Longrightarrow> x \<notin> C \<Longrightarrow> A \<inter> B = {}"
  by blast

context processor_env
begin

lemmas frames = claim_frame claim_batch_frame upd_error_frame upd_sent_frame upd_sent_batch_frame
  send_frame delayed_frame ack_frame nextdelay_frame handle_frame

lemma qviewD: "qview w' = qview w \<Longrightarrow> held c w' = held c w" "qview w' = qview w \<Longrightarrow> waiting c w' = waiting c w"
  "qview w' = qview w \<Longrightarrow> later w' = later w"
  using qview by blast+

lemma broadcast_same [simp]:
  "held c (p_Broadcast p ev w) = held c w" "waiting c (p_Broadcast p ev w) = waiting c w"
  "later (p_Broadcast p ev w) = later w" "tbl (p_Broadcast p ev w) = tbl w"
  "deliveries (p_Broadcast p ev w) = deliveries w" "inv w \<Longrightarrow> inv (p_Broadcast p ev w)"
  using broadcast_frame [of ev w] qviewD [of "p_Broadcast p ev w" w] by blast+

lemma broadcast_batch_same [simp]:
  "held c (p_BroadcastBatch p evs w) = held c w" "waiting c (p_BroadcastBatch p evs w) = waiting c w"
  "later (p_BroadcastBatch p evs w) = later w" "tbl (p_BroadcastBatch p evs w) = tbl w"
  "deliveries (p_BroadcastBatch p evs w) = deliveries w" "inv w \<Longrightarrow> inv (p_BroadcastBatch p evs w)"
  using broadcast_batch_frame [of evs w] qviewD [of "p_BroadcastBatch p evs w" w] by blast+

lemma ack_outcome:
  assumes "\<forall>m \<in> set msgs. valid_message m"
  shows "tbl (Processor_ack p msgs w) = tbl w" "deliveries (Processor_ack p msgs w) = deliveries w"
    "inv w \<Longrightarrow> inv (Processor_ack p msgs w)" "waiting c (Processor_ack p msgs w) = waiting c w"
    "later (Processor_ack p msgs w) = later w" "moved (set msgs) (held c w) (held c (Processor_ack p msgs w))"
proof -
  have "tbl (Processor_ack p msgs w) = tbl w \<and> deliveries (Processor_ack p msgs w) = deliveries w \<and>
    (inv w \<longrightarrow> inv (Processor_ack p msgs w)) \<and> waiting c (Processor_ack p msgs w) = waiting c w \<and>
    later (Processor_ack p msgs w) = later w \<and> moved (set msgs) (held c w) (held c (Processor_ack p msgs w))"
  proof (cases msgs)
    case (Cons m ms)
    obtain e w' where a: "p_Ack p (m_Channel m) msgs w = (e, w')" by fastforce
    then have "Processor_ack p msgs w = w'" by (simp add: Processor_ack_def Cons)
    then show ?thesis
      using ack_frame [OF a] wq.ack_frame [OF assms a] wq.ack_held [OF assms a] by (simp add: moved_def)
  qed (simp add: Processor_ack_def)
  then show "tbl (Processor_ack p msgs w) = tbl w" "deliveries (Processor_ack p msgs w) = deliveries w"
    "inv w \<Longrightarrow> inv (Processor_ack p msgs w)" "waiting c (Processor_ack p msgs w) = waiting c w"
    "later (Processor_ack p msgs w) = later w" "moved (set msgs) (held c w) (held c (Processor_ack p msgs w))"
    by blast+
qed

text \<open>
  \<open>handleFailure\<close>: the attempt is recorded at most once, nothing but this notification's row
  changes, and if the message has left the processing set while attempts remain, then the
  row is queued again and the message waits for its retry.
\<close>

lemma handleFailure_outcome:
  assumes inv: "inv w" and row: "tbl w (n_ID n) = Some n" and msg: "valid_message msg"
    and a: "a = n_Attempts n + 1"
  shows "\<exists>w'. Processor_handleFailure p n msg e w = Some w' \<and> inv w' \<and> deliveries w' = deliveries w \<and>
    (\<forall>c. waiting c w' = waiting c w) \<and> (\<forall>c. moved {msg} (held c w) (held c w')) \<and>
    later w \<subseteq> later w' \<and> later w' \<subseteq> insert msg (later w) \<and>
    (tbl w' = tbl w \<or> (\<exists>t. tbl w' = (tbl w)(n_ID n \<mapsto>
       set_error (if a \<ge> n_MaxAttempts n then StatusFailed else StatusQueued) (Error e) a t n))) \<and>
    (a < n_MaxAttempts n \<longrightarrow> held (m_Channel msg) w' \<noteq> held (m_Channel msg) w \<longrightarrow>
       (\<exists>t. tbl w' = (tbl w)(n_ID n \<mapsto> set_error StatusQueued (Error e) a t n)) \<and> msg \<in> later w')"
proof -
  have ids: "tbl u i = Some m \<Longrightarrow> n_ID m = i" if "inv u" for u i m
    using store.tbl_valid [OF that] by blast
  obtain w1 where w1: "p_IncrFailed p (n_Channel n) w = Some w1" "qview w1 = qview w" "tbl w1 = tbl w"
    "deliveries w1 = deliveries w" "inv w1"
    using incr_failed [OF inv] store.tbl_valid [OF inv row] by blast
  have upd: "upd_rows (\<lambda>m. n_ID m = n_ID n) f (tbl w1) = (tbl w)(n_ID n \<mapsto> f n)" for f
    by (subst upd_rows_at [OF ids [OF w1(5)]], assumption) (simp add: row w1(3))
  have msgs: "\<forall>m \<in> set [msg]. valid_message m" using msg by simp
  show ?thesis
  proof (cases "a \<ge> n_MaxAttempts n")
    case True
    obtain er w2 where w2: "repo_UpdateStatusWithError (p_repo p) (n_ID n) StatusFailed (Error e) a w1 = (er, w2)" by fastforce
    obtain er' w3 where w3: "p_Handle p (n_ID n) (Error e) a w2 = (er', w3)" by fastforce
    let ?w4 = "Processor_ack p [msg] w3"
    have r: "Processor_handleFailure p n msg e w = Some (p_Broadcast p (status_event ''notification.failed'' (n\<lparr>n_Attempts := a\<rparr>)
        StatusFailed (Error e)) ?w4)"
      using True w1(1) w2 w3 by (simp add: Processor_handleFailure_def a)
    have w2': "inv w2" "qview w2 = qview w" "deliveries w2 = deliveries w"
      using upd_error_frame [OF w2] store.upd_error [OF w1(5) w2] w1(2,4) by metis+
    have inv3: "inv w3" and t3: "tbl w3 = tbl w2" and q3: "qview w3 = qview w"
      and d3: "deliveries w3 = deliveries w"
      using handle_frame [OF w3] w2' by metis+
    have "tbl w3 = tbl w \<or> (\<exists>t. tbl w3 = (tbl w)(n_ID n \<mapsto> set_error StatusFailed (Error e) a t n))"
      using store.upd_error [OF w1(5) w2] upd by (auto simp: effect_def t3 w1(3))
    then show ?thesis
      using True inv3 ack_outcome [OF msgs, where w = w3] by (simp add: r d3 qviewD [OF q3]) blast
  next
    case False
    obtain er w2 where w2: "repo_UpdateStatusWithError (p_repo p) (n_ID n) StatusQueued (Error e) a w1 = (er, w2)" by fastforce
    have q2: "qview w2 = qview w" "deliveries w2 = deliveries w" "inv w2"
      using upd_error_frame [OF w2] store.upd_error [OF w1(5) w2] w1(2,4) by metis+
    have t2: "tbl w2 = tbl w \<and> er \<noteq> None \<or> (\<exists>t. tbl w2 = (tbl w)(n_ID n \<mapsto> set_error StatusQueued (Error e) a t n))"
      using store.upd_error [OF w1(5) w2] upd by (auto simp: effect_def w1(3))
    show ?thesis
    proof (cases er)
      case (Some x)
      then have "Processor_handleFailure p n msg e w = Some w2"
        using False w1(1) w2 by (simp add: Processor_handleFailure_def a)
      then show ?thesis using False q2(2,3) t2 by (simp add: qviewD [OF q2(1)]) blast
    next
      case None
      obtain t where t: "tbl w2 = (tbl w)(n_ID n \<mapsto> set_error StatusQueued (Error e) a t n)" using t2 None by blast
      obtain d w3 where w3: "p_NextDelay p a w2 = (d, w3)" by fastforce
      obtain er' w4 where w4: "p_EnqueueDelayed p msg d w3 = (er', w4)" by fastforce
      have q3: "qview w3 = qview w" "deliveries w3 = deliveries w" "inv w3" "tbl w3 = tbl w2"
        using nextdelay_frame [OF w3] q2 by metis+
      have q4: "tbl w4 = tbl w2" "deliveries w4 = deliveries w" "inv w4"
        using delayed_frame [OF w4] q3 by metis+
      have h4: "held c w4 = held c w" "waiting c w4 = waiting c w" for c
        using wq.enq_delayed_frame [OF msg w4] qviewD [OF q3(1)] by metis+
      have l4: "later w \<subseteq> later w4" "later w4 \<subseteq> insert msg (later w)" "er' = None \<Longrightarrow> msg \<in> later w4"
        using wq.enq_delayed_later [OF msg w4] wq.enq_delayed_ok [OF msg] w4 qviewD(3) [OF q3(1)] by metis+
      show ?thesis
      proof (cases er')
        case (Some x)
        then have "Processor_handleFailure p n msg e w = Some w4"
          using False w1(1) w2 w3 w4 None by (simp add: Processor_handleFailure_def a)
        then show ?thesis using False q4 l4 t by (simp add: h4) blast
      next
        case None': None
        let ?w5 = "Processor_ack p [msg] w4"
        obtain ev where r: "Processor_handleFailure p n msg e w = Some (p_Broadcast p ev ?w5)"
          using False w1(1) w2 w3 w4 None None' by (simp add: Processor_handleFailure_def a)
        then show ?thesis
          using False q4 l4 None' t ack_outcome [OF msgs, where w = w4] by (simp add: h4) blast
      qed
    qed
  qed
qed

text \<open>What \<open>mark\<close> does to the row of one claimed notification.\<close>

lemma claimed_row:
  assumes "inv w" "repo_GetAndMarkProcessing (p_repo p) i w = (Inr n, w')"
  obtains n0 t where "tbl w i = Some n0" "claimable (n_Status n0)" "n = set_status StatusProcessing t n0"
    "n_ID n = i" "tbl w' = (tbl w)(i \<mapsto> n)" "inv w'"
proof -
  obtain n0 where n0: "tbl w i = Some n0" "claimable (n_Status n0)" and n: "tbl w' i = Some n"
    using store.claim_ok [OF assms] by blast
  obtain t where t: "tbl w' = mark [i] t (tbl w)" using store.claim_effect [OF assms] by (auto simp: effect_def)
  have ids: "tbl w j = Some m \<Longrightarrow> n_ID m = j" for j m using store.tbl_valid [OF assms(1)] by blast
  have "tbl w' j = ((tbl w)(i \<mapsto> set_status StatusProcessing t n0)) j" for j
    using ids [of j] n0 by (cases "tbl w j") (auto simp: t mark_def upd_rows_def)
  then have w': "tbl w' = (tbl w)(i \<mapsto> set_status StatusProcessing t n0)" by blast
  then have "n = set_status StatusProcessing t n0" using n by simp
  moreover have "n_ID n = i" using calculation ids [OF n0(1)] by (simp add: set_status_def)
  ultimately show ?thesis using that n0 w' store.claim_inv [OF assms] by blast
qed

lemma claim_error_row:
  assumes "inv w" "repo_GetAndMarkProcessing (p_repo p) i w = (Inl e, w')" "j \<noteq> i"
  shows "tbl w' j = tbl w j"
proof -
  have ids: "tbl w j = Some m \<Longrightarrow> n_ID m = j" for m using store.tbl_valid [OF assms(1)] by blast
  show ?thesis
    using store.claim_effect [OF assms(1,2)] ids assms(3)
    by (cases "tbl w j") (auto simp: effect_def mark_def upd_rows_def)
qed

lemma Process_outcome:
  assumes inv: "inv w" and msg: "valid_message msg" and i: "i = m_NotificationID msg" and ch: "ch = m_Channel msg"
  shows "\<exists>w'. Processor_Process p msg w = Some w' \<and> inv w' \<and>
    (\<forall>c. waiting c w' = waiting c w) \<and> (\<forall>c. moved {msg} (held c w) (held c w')) \<and>
    later w \<subseteq> later w' \<and> later w' \<subseteq> insert msg (later w) \<and> (\<forall>j. j \<noteq> i \<longrightarrow> tbl w' j = tbl w j) \<and>
    (deliveries w' = deliveries w \<or>
      (\<exists>n0 t x. tbl w i = Some n0 \<and> claimable (n_Status n0) \<and> x \<in> item (set_status StatusProcessing t n0)
         \<and> deliveries w' = x # deliveries w)) \<and>
    (held ch w' \<noteq> held ch w \<longrightarrow>
      tbl w' = tbl w \<and> (\<forall>n0. tbl w i = Some n0 \<longrightarrow> \<not> claimable (n_Status n0)) \<or>
      (\<exists>n. tbl w' i = Some n \<and> n_Status n = StatusSent \<and> n_ProviderMsgID n \<noteq> None \<and> deliveries w' \<noteq> deliveries w) \<or>
      (\<exists>n0. tbl w i = Some n0 \<and> n_Attempts n0 + 1 \<ge> n_MaxAttempts n0) \<or>
      (\<exists>n0 n. tbl w i = Some n0 \<and> tbl w' i = Some n \<and> n_Status n = StatusQueued \<and>
         n_Attempts n = n_Attempts n0 + 1 \<and> msg \<in> later w'))"
proof -
  have msgs: "\<forall>m \<in> set [msg]. valid_message m" using msg by simp
  obtain x w1 where claim: "repo_GetAndMarkProcessing (p_repo p) i w = (x, w1)" by fastforce
  have q1: "held c w1 = held c w" "waiting c w1 = waiting c w" "later w1 = later w" "deliveries w1 = deliveries w"
    and inv1: "inv w1" for c
    using claim_frame [OF claim] qviewD store.claim_inv [OF inv claim] by metis+
  show ?thesis
  proof (cases x)
    case (Inl e)
    show ?thesis
    proof (cases "err_is e ErrNotFound")
      case True
      note nf = store.claim_notfound [OF inv claim [unfolded Inl] True]
      have r: "Processor_Process p msg w = Some (Processor_ack p [msg] w1)"
        using claim Inl True by (simp add: Processor_Process_def i)
      show ?thesis using nf inv1 ack_outcome [OF msgs, where w = w1] by (simp add: r q1) blast
    next
      case False
      then have "Processor_Process p msg w = Some w1" using claim Inl by (simp add: Processor_Process_def i)
      then show ?thesis using inv1 claim_error_row [OF inv claim [unfolded Inl]] by (auto simp: q1)
    qed
  next
    case (Inr n)
    obtain n0 t where n0: "tbl w i = Some n0" "claimable (n_Status n0)" "n = set_status StatusProcessing t n0"
      "n_ID n = i" "tbl w1 = (tbl w)(i \<mapsto> n)"
      using claimed_row [OF inv claim [unfolded Inr]] by metis
    have att: "n_Attempts n = n_Attempts n0" "n_MaxAttempts n = n_MaxAttempts n0"
      by (simp_all add: n0(3) set_status_def)
    obtain y w2 where send: "p_provider p n w1 = (y, w2)" by fastforce
    have q2: "held c w2 = held c w" "waiting c w2 = waiting c w" "later w2 = later w" "tbl w2 = tbl w1" "inv w2" for c
      using send_frame [OF send] qviewD inv1 q1 by metis+
    have d2: "deliveries w2 = deliveries w \<or> (\<exists>x \<in> item n. deliveries w2 = x # deliveries w)"
      "\<And>pid. y = Inr pid \<Longrightarrow> \<exists>x \<in> item n. deliveries w2 = x # deliveries w"
      using prov.send_ok prov.send_err send q1(4) by (cases y; metis)+
    have d2': "deliveries w2 = deliveries w \<or> (\<exists>n0 t x. tbl w i = Some n0 \<and> claimable (n_Status n0) \<and>
        x \<in> item (set_status StatusProcessing t n0) \<and> deliveries w2 = x # deliveries w)"
      using d2(1) n0(1-3) by blast
    show ?thesis
    proof (cases y)
      case (Inl e)
      have row: "tbl w2 (n_ID n) = Some n" by (simp add: q2(4) n0(4,5))
      obtain w' where w': "Processor_handleFailure p n msg e w2 = Some w'" "inv w'" "deliveries w' = deliveries w2"
        "\<forall>c. waiting c w' = waiting c w2" "\<forall>c. moved {msg} (held c w2) (held c w')"
        "later w2 \<subseteq> later w'" "later w' \<subseteq> insert msg (later w2)"
        "tbl w' = tbl w2 \<or> (\<exists>t. tbl w' = (tbl w2)(n_ID n \<mapsto> set_error (if n_Attempts n + 1 \<ge> n_MaxAttempts n
           then StatusFailed else StatusQueued) (Error e) (n_Attempts n + 1) t n))"
        "n_Attempts n + 1 < n_MaxAttempts n \<longrightarrow> held (m_Channel msg) w' \<noteq> held (m_Channel msg) w2 \<longrightarrow>
           (\<exists>t. tbl w' = (tbl w2)(n_ID n \<mapsto> set_error StatusQueued (Error e) (n_Attempts n + 1) t n)) \<and> msg \<in> later w'"
        using handleFailure_outcome [OF q2(5) row msg refl, of e] by blast
      have r: "Processor_Process p msg w = Some w'" using claim Inr send Inl w'(1) by (simp add: Processor_Process_def i)
      have other: "\<forall>j. j \<noteq> i \<longrightarrow> tbl w' j = tbl w j" using w'(8) by (auto simp: q2(4) n0(4,5))
      have "held ch w' \<noteq> held ch w \<Longrightarrow> n_Attempts n0 + 1 < n_MaxAttempts n0 \<Longrightarrow>
          \<exists>n. tbl w' i = Some n \<and> n_Status n = StatusQueued \<and> n_Attempts n = n_Attempts n0 + 1 \<and> msg \<in> later w'"
        using w'(9) by (auto simp: ch q2 n0(4) att set_error_def)
      then show ?thesis using w'(2-7) other d2' n0(1) by (simp add: r q2) force
    next
      case (Inr pid)
      obtain e w3 where upd: "repo_UpdateSent (p_repo p) (n_ID n) pid w2 = (e, w3)" by fastforce
      have q3: "held c w3 = held c w" "waiting c w3 = waiting c w" "later w3 = later w" "deliveries w3 = deliveries w2"
        and inv3: "inv w3" for c
        using upd_sent_frame [OF upd] qviewD q2 store.upd_sent [OF q2(5) upd] by metis+
      have ids: "tbl w2 j = Some m \<Longrightarrow> n_ID m = j" for j m using store.tbl_valid [OF q2(5)] by blast
      have ur: "upd_rows (\<lambda>m. n_ID m = n_ID n) f (tbl w2) = (tbl w1)(i \<mapsto> f n)" for f
        by (subst upd_rows_at [OF ids], assumption) (simp add: q2(4) n0(4,5))
      have t3: "tbl w3 = tbl w1 \<and> e \<noteq> None \<or> (\<exists>t. tbl w3 = (tbl w1)(i \<mapsto> set_sent pid t n))"
        using store.upd_sent [OF q2(5) upd] ur by (auto simp: effect_def q2(4))
      then have other: "\<forall>j. j \<noteq> i \<longrightarrow> tbl w3 j = tbl w j" by (auto simp: n0(5))
      show ?thesis
      proof (cases e)
        case (Some er)
        then have "Processor_Process p msg w = Some w3"
          using claim \<open>x = Inr n\<close> send Inr upd by (simp add: Processor_Process_def i)
        then show ?thesis using inv3 other d2' by (simp add: q3) blast
      next
        case None
        let ?w4 = "Processor_ack p [msg] w3"
        have cv: "Channel_Valid (n_Channel n)" using store.tbl_valid [OF q2(5), of i n] by (simp add: q2(4) n0(5))
        note ack = ack_outcome [OF msgs, where w = w3]
        obtain w5 where w5: "p_IncrSent p (n_Channel n) ?w4 = Some w5" "qview w5 = qview ?w4" "tbl w5 = tbl ?w4"
          "deliveries w5 = deliveries ?w4" "inv w5"
          using incr_sent [OF ack(3) [OF inv3] cv] by blast
        have r: "Processor_Process p msg w = Some (p_Broadcast p (status_event ''notification.sent'' n StatusSent []) w5)"
          using claim \<open>x = Inr n\<close> send Inr upd None w5(1) by (simp add: Processor_Process_def i)
        have sent: "\<exists>n. tbl w3 i = Some n \<and> n_Status n = StatusSent \<and> n_ProviderMsgID n \<noteq> None"
          using t3 None by (auto simp: set_sent_def)
        have del: "deliveries w2 \<noteq> deliveries w" using d2(2) [OF Inr] by auto
        show ?thesis
          using ack(4-6) other sent d2' del w5(5)
          by (simp add: r w5(3,4) qviewD [OF w5(2)] ack(1,2) q3) blast
      qed
    qed
  qed
qed

text \<open>The message found for a claimed notification is one of the batch.\<close>

lemma msgMap_mem:
  assumes "i \<in> m_NotificationID ` set msgs"
  shows "msgMap msgs i \<in> set msgs"
proof -
  have "find (\<lambda>m. m_NotificationID m = i) (rev msgs) \<noteq> None" using assms by (auto simp: find_None_iff)
  then obtain m where "find (\<lambda>m. m_NotificationID m = i) (rev msgs) = Some m" by blast
  then show ?thesis using find_SomeD [of _ "rev msgs" m] by (simp add: msgMap_def)
qed

text \<open>
  What the send loop has done to the world when it has gone through the claimed
  notifications \<open>ns\<close> and collected \<open>sent\<close>: at most one delivery each, the rows of the
  failed ones settled, those of the sent ones still to be updated, and no queue entry of
  another message touched.
\<close>

definition queue_ok :: "message set \<Rightarrow> 'w \<Rightarrow> 'w \<Rightarrow> bool" where
  "queue_ok X w w' =
     ((\<forall>c. waiting c w' = waiting c w) \<and> (\<forall>c. moved X (held c w) (held c w')) \<and>
      later w \<subseteq> later w' \<and> later w' \<subseteq> later w \<union> X)"

definition loop_ok :: "message set \<Rightarrow> notification list \<Rightarrow> 'w \<Rightarrow> (uuid \<times> string \<times> event) list \<Rightarrow> 'w \<Rightarrow> bool" where
  "loop_ok X ns w sent w' =
     (inv w' \<and> queue_ok X w w' \<and>
      (\<exists>xs. deliveries w' = xs @ deliveries w \<and> length sent \<le> length xs \<and> length xs \<le> length ns) \<and>
      (\<forall>i. i \<notin> n_ID ` set ns \<longrightarrow> tbl w' i = tbl w i) \<and>
      (\<forall>n \<in> set ns. \<exists>n'. tbl w' (n_ID n) = Some n' \<and> settled n n') \<and>
      (\<forall>s \<in> set sent. fst s \<in> n_ID ` set ns \<and> tbl w' (fst s) = tbl w (fst s)) \<and> distinct (map fst sent))"

lemma loop_okD:
  assumes "loop_ok X ns w sent w'"
  shows "inv w'" "queue_ok X w w'" "i \<notin> n_ID ` set ns \<Longrightarrow> tbl w' i = tbl w i"
    "\<exists>xs. deliveries w' = xs @ deliveries w \<and> length sent \<le> length xs \<and> length xs \<le> length ns"
    "n \<in> set ns \<Longrightarrow> \<exists>n'. tbl w' (n_ID n) = Some n' \<and> settled n n'"
    "s \<in> set sent \<Longrightarrow> fst s \<in> n_ID ` set ns \<and> tbl w' (fst s) = tbl w (fst s)" "distinct (map fst sent)"
  using assms unfolding loop_ok_def by blast+

lemma queue_ok_trans: "queue_ok X w w1 \<Longrightarrow> queue_ok X w1 w2 \<Longrightarrow> queue_ok X w w2"
  unfolding queue_ok_def by (metis (no_types, lifting) Un_least Un_upper2 moved_trans order_trans)

lemma queue_ok_qview: "qview w' = qview w \<Longrightarrow> queue_ok X w w'"
  unfolding queue_ok_def using qviewD by (metis Un_upper1 moved_simps order_refl)

lemma loop_ok_append:
  assumes 1: "loop_ok X [n] w s1 w1" and 2: "loop_ok X ns w1 s2 w2" and fresh: "n_ID n \<notin> n_ID ` set ns"
  shows "loop_ok X (n # ns) w (s1 @ s2) w2"
proof -
  note d1 = loop_okD [OF 1] and d2 = loop_okD [OF 2]
  obtain xs1 xs2 where xs: "deliveries w1 = xs1 @ deliveries w" "length s1 \<le> length xs1" "length xs1 \<le> 1"
    "deliveries w2 = xs2 @ deliveries w1" "length s2 \<le> length xs2" "length xs2 \<le> length ns"
    using d1(4) d2(4) by auto
  then have "deliveries w2 = (xs2 @ xs1) @ deliveries w \<and> length (s1 @ s2) \<le> length (xs2 @ xs1) \<and>
      length (xs2 @ xs1) \<le> length (n # ns)" by simp
  moreover have "queue_ok X w w2" by (rule queue_ok_trans [OF d1(2) d2(2)])
  moreover have ne: "i \<noteq> n_ID n" if "i \<in> n_ID ` set ns" for i using that fresh by blast
  have s1: "fst s = n_ID n \<and> tbl w2 (fst s) = tbl w (fst s)" if "s \<in> set s1" for s
    using d1(6) [OF that] d2(3) [OF fresh] by auto
  have s2: "fst s \<in> n_ID ` set ns \<and> tbl w2 (fst s) = tbl w (fst s)" if "s \<in> set s2" for s
    using d2(6) [OF that] d1(3) ne by auto
  have "\<forall>s \<in> set (s1 @ s2). fst s \<in> n_ID ` set (n # ns) \<and> tbl w2 (fst s) = tbl w (fst s)"
    using s1 s2 by auto
  moreover have "fst ` set s1 \<subseteq> {n_ID n}" "fst ` set s2 \<subseteq> n_ID ` set ns"
    using conjunct1 [OF s1] conjunct1 [OF s2] by auto
  then have "fst ` set s1 \<inter> fst ` set s2 = {}" by (rule disjoint_singleton [OF _ _ fresh])
  then have "distinct (map fst (s1 @ s2))" using d1(7) d2(7) by simp
  moreover have "\<forall>i. i \<notin> n_ID ` set (n # ns) \<longrightarrow> tbl w2 i = tbl w i" using d1(3) d2(3) by auto
  moreover have "\<forall>m \<in> set (n # ns). \<exists>n'. tbl w2 (n_ID m) = Some n' \<and> settled m n'"
    using d1(5) [of n] d2(5) d2(3) [OF fresh] by auto
  ultimately show ?thesis using d2(1) unfolding loop_ok_def by blast
qed

text \<open>One claimed notification that the provider refuses, and one that it accepts.\<close>

lemma loop_fail:
  assumes "inv w" "tbl w (n_ID n) = Some n" "n_Status n = StatusProcessing" "p_provider p n w = (Inl e, w1)"
    and "valid_message msg" "msg \<in> X"
  shows "\<exists>w2. Processor_handleFailure p n msg e w1 = Some w2 \<and> loop_ok X [n] w [] w2"
proof -
  have q1: "qview w1 = qview w" "tbl w1 = tbl w" "inv w1" using send_frame [OF assms(4)] assms(1) by auto
  have row: "tbl w1 (n_ID n) = Some n" by (simp add: q1 assms(2))
  obtain w2 where w2: "Processor_handleFailure p n msg e w1 = Some w2" "inv w2"
    "deliveries w2 = deliveries w1" "\<forall>c. waiting c w2 = waiting c w1" "\<forall>c. moved {msg} (held c w1) (held c w2)"
    "later w1 \<subseteq> later w2" "later w2 \<subseteq> insert msg (later w1)"
    "tbl w2 = tbl w1 \<or> (\<exists>t. tbl w2 = (tbl w1)(n_ID n \<mapsto> set_error (if n_Attempts n + 1 \<ge> n_MaxAttempts n
         then StatusFailed else StatusQueued) (Error e) (n_Attempts n + 1) t n))"
    using handleFailure_outcome [OF q1(3) row assms(5) refl, of e] by auto
  have "queue_ok X w1 w2"
    using w2(4-7) assms(6) unfolding queue_ok_def by (auto intro: moved_mono)
  then have "queue_ok X w w2" using queue_ok_qview [OF q1(1)] queue_ok_trans by blast
  moreover have "\<exists>xs. deliveries w2 = xs @ deliveries w \<and> length xs \<le> 1"
    using prov.send_err [OF assms(4)] w2(3) by (metis append_Cons append_Nil le_refl length_Cons list.size(3) One_nat_def zero_le)
  moreover have "\<exists>n'. tbl w2 (n_ID n) = Some n' \<and> settled n n'"
    using w2(8) assms(2,3) by (auto simp: q1(2) settled_def set_error_def)
  moreover have "\<forall>i. i \<noteq> n_ID n \<longrightarrow> tbl w2 i = tbl w i" using w2(8) by (auto simp: q1(2))
  ultimately show ?thesis using w2(1,2) by (auto simp: loop_ok_def)
qed

lemma loop_sent:
  assumes "inv w" "tbl w (n_ID n) = Some n" "n_Status n = StatusProcessing" "p_provider p n w = (Inr pid, w1)"
  shows "\<exists>w2. p_IncrSent p (n_Channel n) w1 = Some w2 \<and> loop_ok X [n] w [(n_ID n, pid, ev)] w2"
proof -
  have q1: "qview w1 = qview w" "tbl w1 = tbl w" "inv w1" using send_frame [OF assms(4)] assms(1) by auto
  have cv: "Channel_Valid (n_Channel n)" using store.tbl_valid [OF assms(1,2)] by blast
  obtain w2 where w2: "p_IncrSent p (n_Channel n) w1 = Some w2" "qview w2 = qview w1" "tbl w2 = tbl w1"
    "deliveries w2 = deliveries w1" "inv w2"
    using incr_sent [OF q1(3) cv] by blast
  have "queue_ok X w w2" using queue_ok_qview w2(2) q1(1) by metis
  moreover have "\<exists>xs. deliveries w2 = xs @ deliveries w \<and> length xs = 1"
    using prov.send_ok [OF assms(4)] w2(4) by (metis append_Cons append_Nil length_Cons list.size(3) One_nat_def)
  ultimately show ?thesis using w2 assms(2,3) by (auto simp: loop_ok_def q1(2) settled_def)
qed

lemma send_loop_outcome:
  assumes "inv w" "\<forall>n \<in> set ns. tbl w (n_ID n) = Some n \<and> n_Status n = StatusProcessing" "distinct (map n_ID ns)"
    and msgs: "\<forall>m \<in> set msgs. valid_message m" "n_ID ` set ns \<subseteq> m_NotificationID ` set msgs"
  shows "\<exists>sent w'. send_loop p msgs ns w = Some (sent, w') \<and> loop_ok (set msgs) ns w sent w'"
  using assms(1-3,5)
proof (induction ns arbitrary: w)
  case Nil
  then show ?case by (simp add: loop_ok_def queue_ok_def)
next
  case (Cons n ns)
  have row: "tbl w (n_ID n) = Some n" "n_Status n = StatusProcessing" using Cons.prems(2) by auto
  have fresh: "n_ID n \<notin> n_ID ` set ns" using Cons.prems(3) by simp
  have rest: "\<exists>sent w'. send_loop p msgs ns w1 = Some (sent, w') \<and> loop_ok (set msgs) (n # ns) w (s @ sent) w'"
    if ok: "loop_ok (set msgs) [n] w s w1" for s w1
  proof -
    have "tbl w1 (n_ID m) = Some m \<and> n_Status m = StatusProcessing" if m: "m \<in> set ns" for m
    proof -
      have "n_ID m \<noteq> n_ID n" using m fresh by (metis image_eqI)
      then show ?thesis using loop_okD(3) [OF ok, of "n_ID m"] m Cons.prems(2) by simp
    qed
    then have "\<exists>sent w'. send_loop p msgs ns w1 = Some (sent, w') \<and> loop_ok (set msgs) ns w1 sent w'"
      using Cons.IH [OF loop_okD(1) [OF ok]] Cons.prems(3,4) by simp
    then show ?thesis using loop_ok_append [OF ok _ fresh] by blast
  qed
  obtain y w1 where send: "p_provider p n w = (y, w1)" by fastforce
  show ?case
  proof (cases y)
    case (Inl e)
    have mv: "valid_message (msgMap msgs (n_ID n))" "msgMap msgs (n_ID n) \<in> set msgs"
      using msgMap_mem [of "n_ID n" msgs] Cons.prems(4) msgs(1) by auto
    obtain w2 where w2: "Processor_handleFailure p n (msgMap msgs (n_ID n)) e w1 = Some w2"
      "loop_ok (set msgs) [n] w [] w2"
      using loop_fail [OF Cons.prems(1) row send [unfolded Inl] mv] by blast
    from rest [OF w2(2)] show ?thesis by (simp add: send Inl w2(1))
  next
    case (Inr pid)
    let ?s = "(n_ID n, pid, status_event ''notification.sent'' n StatusSent [])"
    obtain w2 where w2: "p_IncrSent p (n_Channel n) w1 = Some w2" "loop_ok (set msgs) [n] w [?s] w2"
      using loop_sent [OF Cons.prems(1) row send [unfolded Inr]] by blast
    from rest [OF w2(2)] show ?thesis by (auto simp: send Inr w2(1))
  qed
qed

lemma settled_mark: "settled n (set_status StatusProcessing t n)" "settled n (set_sent pid t n)"
  "settled (set_status StatusProcessing t n) n' = settled n n'"
  by (simp_all add: settled_def set_status_def set_sent_def)

lemma mark_sent_row:
  assumes "\<And>i n. m i = Some n \<Longrightarrow> n_ID n = i"
  shows "mark_sent l t m i = m i \<or>
    i \<in> fst ` set l \<and> (\<exists>n pid. m i = Some n \<and> mark_sent l t m i = Some (set_sent pid t n))"
  using assms
proof (induction l arbitrary: m)
  case Nil
  then show ?case by (simp add: mark_sent_def)
next
  case (Cons jp l)
  obtain j pid where jp: "jp = (j, pid)" by fastforce
  let ?m = "m(j := map_option (set_sent pid t) (m j))"
  have m: "upd_rows (\<lambda>n. n_ID n = j) (set_sent pid t) m = ?m" by (rule upd_rows_at [OF Cons.prems])
  have step: "mark_sent (jp # l) t m = mark_sent l t ?m" by (simp add: mark_sent_def jp m)
  have ids: "?m k = Some n \<Longrightarrow> n_ID n = k" for k n
    using Cons.prems by (auto simp: set_sent_def split: if_splits)
  have twice: "set_sent p2 t (set_sent p1 t n) = set_sent p2 t n" for p1 p2 and n :: notification
    by (simp add: set_sent_def)
  have "mark_sent l t ?m i = ?m i \<or>
      i \<in> fst ` set l \<and> (\<exists>n pid. ?m i = Some n \<and> mark_sent l t ?m i = Some (set_sent pid t n))"
    by (rule Cons.IH) (rule ids)
  then show ?case unfolding step
    by (cases "i = j"; cases "m i") (auto simp: jp twice)
qed

lemma marked_rows:
  assumes "inv w" "effect e (tbl w) (tbl w') (\<lambda>t. mark ids t (tbl w))"
  shows "rows_ok (set ids) (tbl w) (tbl w')"
proof -
  have "tbl w' i = tbl w i \<or> i \<in> set ids \<and>
      (\<exists>n n'. tbl w i = Some n \<and> claimable (n_Status n) \<and> tbl w' i = Some n' \<and> settled n n')" for i
  proof (cases "tbl w i")
    case None
    then show ?thesis using assms(2) by (auto simp: effect_def mark_def upd_rows_def)
  next
    case (Some n)
    then have "n_ID n = i" using store.tbl_valid [OF assms(1)] by blast
    moreover obtain t where "tbl w' i = tbl w i \<or> tbl w' i = mark ids t (tbl w) i"
      using assms(2) unfolding effect_def by metis
    ultimately show ?thesis using Some settled_mark(1) [of n t] by (auto simp: mark_def upd_rows_def split: if_splits)
  qed
  then show ?thesis by (simp add: rows_ok_def)
qed

lemma claimed_batch:
  assumes inv: "inv w" and claim: "repo_GetAndMarkProcessingBatch (p_repo p) ids w = (Inr ns, w1)"
  shows "n \<in> set ns \<Longrightarrow> n_ID n \<in> set ids \<and> tbl w1 (n_ID n) = Some n \<and> n_Status n = StatusProcessing \<and>
      (\<exists>n0. tbl w (n_ID n) = Some n0 \<and> claimable (n_Status n0) \<and> (\<forall>n'. settled n n' = settled n0 n'))"
    and "distinct (map n_ID ns)"
    and "length ns \<le> card {i \<in> set ids. \<exists>n. tbl w i = Some n \<and> claimable (n_Status n)}"
proof -
  note ok = store.claim_batch_ok [OF inv claim]
  obtain t where t: "tbl w1 = mark ids t (tbl w)"
    using store.claim_batch_effect [OF inv claim] unfolding effect_def by auto
  show n: "n_ID n \<in> set ids \<and> tbl w1 (n_ID n) = Some n \<and> n_Status n = StatusProcessing \<and>
      (\<exists>n0. tbl w (n_ID n) = Some n0 \<and> claimable (n_Status n0) \<and> (\<forall>n'. settled n n' = settled n0 n'))"
    if "n \<in> set ns" for n
  proof -
    from ok that obtain n0 where n0: "n_ID n \<in> set ids" "tbl w1 (n_ID n) = Some n" "tbl w (n_ID n) = Some n0"
      "claimable (n_Status n0)" by blast
    have "n_ID n0 = n_ID n" using store.tbl_valid [OF inv n0(3)] by blast
    then have "n = set_status StatusProcessing t n0" using n0 by (simp add: t mark_def upd_rows_def)
    then have "n_Status n = StatusProcessing" "\<forall>n'. settled n n' = settled n0 n'"
      by (simp_all add: set_status_def settled_def)
    then show ?thesis using n0 by blast
  qed
  show d: "distinct (map n_ID ns)" using ok by blast
  have "n_ID ` set ns \<subseteq> {i \<in> set ids. \<exists>n. tbl w i = Some n \<and> claimable (n_Status n)}"
    using n by blast
  from card_mono [OF _ this] d show "length ns \<le> card {i \<in> set ids. \<exists>n. tbl w i = Some n \<and> claimable (n_Status n)}"
    using distinct_card [OF d] by simp
qed

text \<open>The rows after the loop and the batch update of the sent ones.\<close>

lemma batch_rows:
  assumes inv: "inv w" and claim: "repo_GetAndMarkProcessingBatch (p_repo p) ids w = (Inr ns, w1)"
    and loop: "loop_ok X ns w1 sent w2"
    and upd: "effect e (tbl w2) m (\<lambda>t. mark_sent (zip (map fst sent) pids) t (tbl w2))"
  shows "rows_ok (set ids) (tbl w) m"
  unfolding rows_ok_def
proof
  fix i
  note d = loop_okD [OF loop]
  have valid2: "tbl w2 j = Some n \<Longrightarrow> n_ID n = j" for j n using store.tbl_valid [OF d(1)] by blast
  have sub: "fst ` set (zip (map fst sent) pids) \<subseteq> fst ` set sent"
    using set_zip_leftD by fastforce
  have upd_i: "m i = tbl w2 i \<or> i \<in> fst ` set sent \<and> (\<exists>n pid t. tbl w2 i = Some n \<and> m i = Some (set_sent pid t n))"
    using upd mark_sent_row [OF valid2, where i = i and l = "zip (map fst sent) pids"] sub
    unfolding effect_def by blast
  show "m i = tbl w i \<or> i \<in> set ids \<and>
      (\<exists>n n'. tbl w i = Some n \<and> claimable (n_Status n) \<and> m i = Some n' \<and> settled n n')"
  proof (cases "i \<in> n_ID ` set ns")
    case False
    then have "m i = tbl w1 i" using upd_i d(3,6) by auto
    then show ?thesis
      using marked_rows [OF inv store.claim_batch_effect [OF inv claim]] by (simp add: rows_ok_def)
  next
    case True
    then obtain n where n: "n \<in> set ns" "i = n_ID n" by blast
    note c = claimed_batch(1) [OF inv claim n(1)]
    obtain n' where n': "tbl w2 i = Some n'" "settled n n'" using d(5) [OF n(1)] n(2) by blast
    have "\<exists>n'. m i = Some n' \<and> settled n n'"
      using upd_i
    proof
      assume "i \<in> fst ` set sent \<and> (\<exists>n pid t. tbl w2 i = Some n \<and> m i = Some (set_sent pid t n))"
      moreover have "tbl w2 i = Some n" if "i \<in> fst ` set sent" using that d(6) c n(2) by auto
      ultimately show ?thesis using settled_mark(2) by auto
    qed (use n' in simp)
    then show ?thesis using c n(2) by metis
  qed
qed

lemma ProcessBatch_outcome:
  assumes inv: "inv w" and msgs: "\<forall>m \<in> set msgs. valid_message m"
  shows "\<exists>w'. Processor_ProcessBatch p msgs w = Some w' \<and> inv w' \<and> queue_ok (set msgs) w w' \<and>
    (\<exists>xs. deliveries w' = xs @ deliveries w \<and>
       length xs \<le> card {i \<in> m_NotificationID ` set msgs. \<exists>n. tbl w i = Some n \<and> claimable (n_Status n)}) \<and>
    rows_ok (m_NotificationID ` set msgs) (tbl w) (tbl w')"
proof (cases "msgs = []")
  case True
  then show ?thesis using inv by (simp add: Processor_ProcessBatch_def queue_ok_def rows_ok_def)
next
  case False
  let ?ids = "map m_NotificationID msgs"
  let ?ok = "\<lambda>w'. inv w' \<and> queue_ok (set msgs) w w' \<and> (\<exists>xs. deliveries w' = xs @ deliveries w \<and>
       length xs \<le> card {i \<in> m_NotificationID ` set msgs. \<exists>n. tbl w i = Some n \<and> claimable (n_Status n)}) \<and>
    rows_ok (m_NotificationID ` set msgs) (tbl w) (tbl w')"
  obtain y w1 where claim: "repo_GetAndMarkProcessingBatch (p_repo p) ?ids w = (y, w1)" by fastforce
  have q1: "qview w1 = qview w" "deliveries w1 = deliveries w" using claim_batch_frame [OF claim] by auto
  have inv1: "inv w1" by (rule store.claim_batch_inv [OF inv claim])
  have base: "?ok w1"
    using inv1 marked_rows [OF inv store.claim_batch_effect [OF inv claim]] queue_ok_qview [OF q1(1)] q1(2) by auto
  show ?thesis
  proof (cases "\<exists>ns. y = Inr ns \<and> ns \<noteq> []")
    case no: False
    then have "Processor_ProcessBatch p msgs w = Some w1"
      using claim False by (auto simp: Processor_ProcessBatch_def split: sum.splits)
    then show ?thesis using base by blast
  next
    case True
    then obtain ns where ns: "y = Inr ns" "ns \<noteq> []" by blast
    note claim' = claim [unfolded ns(1)]
    note c = claimed_batch [OF inv claim']
    obtain sent w2 where w2: "send_loop p msgs ns w1 = Some (sent, w2)" "loop_ok (set msgs) ns w1 sent w2"
      using send_loop_outcome [OF inv1 _ c(2) msgs] c(1) by auto
    note d = loop_okD [OF w2(2)]
    define w3 where "w3 = (if sent \<noteq> [] then snd (repo_UpdateBatchSent (p_repo p) (map fst sent) (map (fst \<circ> snd) sent) w2) else w2)"
    obtain e where e: "sent \<noteq> [] \<Longrightarrow> repo_UpdateBatchSent (p_repo p) (map fst sent) (map (fst \<circ> snd) sent) w2 = (e, w3)"
      unfolding w3_def by (cases "repo_UpdateBatchSent (p_repo p) (map fst sent) (map (fst \<circ> snd) sent) w2") auto
    have w3: "inv w3 \<and> qview w3 = qview w2 \<and> deliveries w3 = deliveries w2 \<and>
        (\<exists>e. effect e (tbl w2) (tbl w3) (\<lambda>t. mark_sent (zip (map fst sent) (map (fst \<circ> snd) sent)) t (tbl w2)))"
    proof (cases "sent = []")
      case True
      then show ?thesis using d(1) by (auto simp: w3_def effect_def mark_sent_def)
    next
      case False
      then show ?thesis
        using store.upd_sent_batch [OF d(1) _ e [OF False]] upd_sent_batch_frame [OF e [OF False]] by auto
    qed
    note ack = ack_outcome [OF msgs, where w = w3]
    have rows: "rows_ok (m_NotificationID ` set msgs) (tbl w) (tbl w3)"
      using w3 batch_rows [OF inv claim' w2(2)] by auto
    have "queue_ok (set msgs) w w3"
      using queue_ok_trans [OF queue_ok_qview [OF q1(1)] queue_ok_trans [OF d(2) queue_ok_qview]] w3 by blast
    moreover have "queue_ok (set msgs) w3 (Processor_ack p msgs w3)"
      using ack(4-6) by (simp add: queue_ok_def)
    ultimately have q: "queue_ok (set msgs) w (Processor_ack p msgs w3)" by (rule queue_ok_trans)
    have "?ok (Processor_ack p msgs w3)"
      using d(4) c(3) w3 q rows ack(1-3) q1(2) by auto
    moreover have "queue_ok X w (p_BroadcastBatch p evs u) = queue_ok X w u" for X evs u by (simp add: queue_ok_def)
    ultimately have "?ok (if sent \<noteq> [] then p_BroadcastBatch p (map (snd \<circ> snd) sent) (Processor_ack p msgs w3)
        else Processor_ack p msgs w3)" by simp
    moreover have "Processor_ProcessBatch p msgs w = Some (if sent \<noteq> [] then p_BroadcastBatch p (map (snd \<circ> snd) sent)
        (Processor_ack p msgs w3) else Processor_ack p msgs w3)"
      using claim' w2(1) ns(2) False by (simp add: Processor_ProcessBatch_def w3_def)
    ultimately show ?thesis by blast
  qed
qed

end

end
