(* ===== verification/Worker.thy ===== *)
theory Worker
  imports Processor
begin

text \<open>
  A worker process as \<open>RunWorker\<close> of \<open>internal/app/worker.go\<close> wires it: the repository on
  PostgreSQL, the queue on Redis, the webhook client behind a circuit breaker, retry
  strategy, dead letters, hub and metrics, on one world state.

  The world holds the state of the three external services and of the worker's own objects.
  Clock readings, random draws and new UUIDs come from the record \<open>env\<close>, indexed by a counter
  in the world that every reading advances. The interpretation of \<open>processor_env\<close> on this
  wiring carries the lemmas of the theory \<open>Processor\<close> over to it, for all services that obey
  their locales.
\<close>

section \<open>Definitions\<close>

record ('p, 'r, 'h) world =
  w_db :: "'p pgdb"
  w_redis :: 'r
  w_http :: 'h
  w_cb :: circuitBreaker
  w_hub :: hub
  w_metrics :: metrics
  w_tick :: nat

record env =
  env_now :: "nat \<Rightarrow> time"
  env_rand :: "nat \<Rightarrow> float64"
  env_uuid :: "nat \<Rightarrow> uuid"

text \<open>The services and the settings a worker is given.\<close>

record ('p, 'r, 'h) services =
  sv_pg :: "'p pg"
  sv_rd :: "'r redis"
  sv_js :: codec
  sv_ht :: "'h http"
  sv_ev :: event_codec
  sv_env :: env
  sv_webhook :: webhookClient
  sv_retry :: strategy

definition on_db :: "('p pgdb \<Rightarrow> 'a \<times> 'p pgdb) \<Rightarrow> ('p, 'r, 'h) world \<Rightarrow> 'a \<times> ('p, 'r, 'h) world" where
  "on_db f w = (let (x, s) = f (w_db w) in (x, w\<lparr>w_db := s\<rparr>))"

definition on_redis :: "('r \<Rightarrow> 'a \<times> 'r) \<Rightarrow> ('p, 'r, 'h) world \<Rightarrow> 'a \<times> ('p, 'r, 'h) world" where
  "on_redis f w = (let (x, r) = f (w_redis w) in (x, w\<lparr>w_redis := r\<rparr>))"

definition advance :: "nat \<Rightarrow> ('p, 'r, 'h) world \<Rightarrow> ('p, 'r, 'h) world" where
  "advance k w = w\<lparr>w_tick := w_tick w + k\<rparr>"

definition worker_repo :: "'p pg \<Rightarrow> ('p, 'r, 'h) world repository" where
  "worker_repo pg =
     \<lparr>repo_GetAndMarkProcessing = (\<lambda>i. on_db (NotificationRepo_GetAndMarkProcessing pg i)),
      repo_GetAndMarkProcessingBatch = (\<lambda>ids. on_db (NotificationRepo_GetAndMarkProcessingBatch pg ids)),
      repo_UpdateStatus = (\<lambda>i st. on_db (NotificationRepo_UpdateStatus pg i st)),
      repo_UpdateStatusWithError = (\<lambda>i st em a. on_db (NotificationRepo_UpdateStatusWithError pg i st em a)),
      repo_UpdateSent = (\<lambda>i pid. on_db (NotificationRepo_UpdateSent pg i pid)),
      repo_UpdateBatchSent = (\<lambda>ids pids. on_db (NotificationRepo_UpdateBatchSent pg ids pids)),
      repo_GetPendingScheduled = on_db (NotificationRepo_GetPendingScheduled pg)\<rparr>"

text \<open>
  A send reads the clock for the breaker's timeout, for the payload and for a recorded
  failure, and draws one UUID.
\<close>

definition worker_send :: "('p, 'r, 'h) services \<Rightarrow> ('p, 'r, 'h) world sender" where
  "worker_send sv n w =
     (let k = w_tick w;
          (x, cb, h) =
            CircuitBreaker_Send
              (Client_Send (sv_ht sv) (sv_webhook sv) (env_now (sv_env sv) (k + 1)) (env_uuid (sv_env sv) (k + 2)))
              (env_now (sv_env sv) k) (env_now (sv_env sv) (k + 3)) n (w_cb w, w_http w)
      in (x, advance 4 (w\<lparr>w_cb := cb, w_http := h\<rparr>)))"

text \<open>
  The hub after a broadcast, which always returns (\<open>hub_exec_inv\<close> and \<open>send_all_returns\<close> in \<open>Hub\<close>), so
  that the second case does not occur.
\<close>

definition broadcast_end :: "hub option \<Rightarrow> hub \<Rightarrow> hub" where
  "broadcast_end x h = (case x of Some h' \<Rightarrow> h' | None \<Rightarrow> h)"

definition worker_processor :: "('p, 'r, 'h) services \<Rightarrow> ('p, 'r, 'h) world processor" where
  "worker_processor sv =
     \<lparr>p_repo = worker_repo (sv_pg sv),
      p_provider = worker_send sv,
      p_EnqueueDelayed = (\<lambda>msg d w.
        on_redis (Producer_EnqueueDelayed (sv_rd sv) (sv_js sv) (env_now (sv_env sv) (w_tick w)) msg d) (advance 1 w)),
      p_Ack = (\<lambda>ch msgs. on_redis (Consumer_Ack (sv_rd sv) (sv_js sv) ch msgs)),
      p_NextDelay = (\<lambda>a w. (Strategy_NextDelay (sv_retry sv) (env_rand (sv_env sv) (w_tick w)) a, advance 1 w)),
      p_Handle = (\<lambda>i em a w.
        on_db (DeadLetterHandler_Handle (sv_pg sv) (env_uuid (sv_env sv) (w_tick w)) (env_now (sv_env sv) (w_tick w + 1)) i em a)
          (advance 2 w)),
      p_Broadcast = (\<lambda>ev w. w\<lparr>w_hub := broadcast_end (Hub_Broadcast (sv_ev sv) ev (w_hub w)) (w_hub w)\<rparr>),
      p_BroadcastBatch = (\<lambda>evs w. w\<lparr>w_hub := broadcast_end (Hub_BroadcastBatch (sv_ev sv) evs (w_hub w)) (w_hub w)\<rparr>),
      p_IncrSent = (\<lambda>ch w. map_option (\<lambda>m. w\<lparr>w_metrics := m\<rparr>) (IncrSent ch (w_metrics w))),
      p_IncrFailed = (\<lambda>ch w. map_option (\<lambda>m. w\<lparr>w_metrics := m\<rparr>) (IncrFailed ch (w_metrics w)))\<rparr>"

text \<open>The fresh objects of \<open>RunWorker\<close>.\<close>

definition new_worker :: "int \<Rightarrow> duration \<Rightarrow> 'p pgdb \<Rightarrow> 'r \<Rightarrow> 'h \<Rightarrow> ('p, 'r, 'h) world" where
  "new_worker cbMaxFailures cbTimeout s r h =
     \<lparr>w_db = s, w_redis = r, w_http = h, w_cb = NewCircuitBreaker cbMaxFailures cbTimeout,
      w_hub = NewHub, w_metrics = NewMetricsCollector, w_tick = 0\<rparr>"

definition world_inv :: "'p pg \<Rightarrow> ('p, 'r, 'h) world \<Rightarrow> bool" where
  "world_inv pg w = (db_inv pg (w_db w) \<and> metrics_ok (w_metrics w))"

section \<open>The worker is an environment of the processor\<close>

lemma on_db_eq: "on_db f w = (x, w') \<longleftrightarrow> (\<exists>s. f (w_db w) = (x, s) \<and> w' = w\<lparr>w_db := s\<rparr>)"
  by (auto simp: on_db_def split: prod.splits)

lemma on_redis_eq: "on_redis f w = (x, w') \<longleftrightarrow> (\<exists>r. f (w_redis w) = (x, r) \<and> w' = w\<lparr>w_redis := r\<rparr>)"
  by (auto simp: on_redis_def split: prod.splits)

lemma worker_sel [simp]:
  "p_repo (worker_processor sv) = worker_repo (sv_pg sv)" "p_provider (worker_processor sv) = worker_send sv"
  "repo_GetAndMarkProcessing (worker_repo pg) i = on_db (NotificationRepo_GetAndMarkProcessing pg i)"
  "repo_GetAndMarkProcessingBatch (worker_repo pg) ids = on_db (NotificationRepo_GetAndMarkProcessingBatch pg ids)"
  "repo_UpdateStatus (worker_repo pg) i st = on_db (NotificationRepo_UpdateStatus pg i st)"
  "repo_UpdateStatusWithError (worker_repo pg) i st em a = on_db (NotificationRepo_UpdateStatusWithError pg i st em a)"
  "repo_UpdateSent (worker_repo pg) i pid = on_db (NotificationRepo_UpdateSent pg i pid)"
  "repo_UpdateBatchSent (worker_repo pg) ids pids = on_db (NotificationRepo_UpdateBatchSent pg ids pids)"
  "repo_GetPendingScheduled (worker_repo pg) = on_db (NotificationRepo_GetPendingScheduled pg)"
  by (simp_all add: worker_processor_def worker_repo_def)

lemma advance_sel [simp]:
  "w_db (advance k w) = w_db w" "w_redis (advance k w) = w_redis w" "w_http (advance k w) = w_http w"
  "w_metrics (advance k w) = w_metrics w" "w_cb (advance k w) = w_cb w" "w_hub (advance k w) = w_hub w"
  by (simp_all add: advance_def)

lemma worker_send_eq:
  assumes "worker_send sv n w = (x, w')"
  obtains cb h t0 t1 t2 u where
    "CircuitBreaker_Send (Client_Send (sv_ht sv) (sv_webhook sv) t0 u) t1 t2 n (w_cb w, w_http w) = (x, cb, h)"
    "w' = advance 4 (w\<lparr>w_cb := cb, w_http := h\<rparr>)"
  using assms by (auto simp: worker_send_def Let_def split: prod.splits)

locale worker = pg_server "sv_pg sv" + redis_queue "sv_rd sv" "sv_js sv" + http_service "sv_ht sv"
  for sv :: "('p, 'r, 'h) services"

sublocale worker \<subseteq> store: notification_store "repo_GetAndMarkProcessing (p_repo (worker_processor sv))"
  "repo_GetAndMarkProcessingBatch (p_repo (worker_processor sv))"
  "repo_UpdateStatus (p_repo (worker_processor sv))" "repo_UpdateStatusWithError (p_repo (worker_processor sv))"
  "repo_UpdateSent (p_repo (worker_processor sv))" "repo_UpdateBatchSent (p_repo (worker_processor sv))"
  "\<lambda>w. rows (w_db w)" "world_inv (sv_pg sv)"
proof (unfold_locales, unfold worker_sel on_db_eq world_inv_def, goal_cases)
  case (1 s i n)
  then show ?case using repo.tbl_valid by blast
next
  case (2 s i x s')
  then show ?case using repo.claim_inv by force
next
  case (3 s i x s')
  then show ?case using repo.claim_effect [of "w_db s" i x] by force
next
  case (4 s i n s')
  then show ?case using repo.claim_ok [of "w_db s" i n] by force
next
  case (5 s i e s')
  then show ?case using repo.claim_notfound [of "w_db s" i e] by force
next
  case (6 s ids y s')
  then show ?case using repo.claim_batch_inv by force
next
  case (7 s ids y s')
  then show ?case using repo.claim_batch_effect [of "w_db s" ids y] by force
next
  case (8 s ids ns s')
  then show ?case using repo.claim_batch_ok [of "w_db s" ids ns] by auto
next
  case (9 s i st e s')
  then show ?case using repo.upd_status [of "w_db s" i st e] by force
next
  case (10 s i st em a e s')
  then show ?case using repo.upd_error [of "w_db s" i st em a e] by force
next
  case (11 s i pid e s')
  then show ?case using repo.upd_sent [of "w_db s" i pid e] by force
next
  case (12 s pids ids e s')
  then show ?case using repo.upd_sent_batch [of "w_db s" pids ids e] by force
qed

sublocale worker \<subseteq> wq: work_queue "\<lambda>t m. on_redis (Producer_Enqueue (sv_rd sv) (sv_js sv) t m)"
  "\<lambda>_. p_EnqueueDelayed (worker_processor sv)" "p_Ack (worker_processor sv)"
  "\<lambda>c w. ready (sv_rd sv) (sv_js sv) c (w_redis w)" "\<lambda>c w. inflight (sv_rd sv) (sv_js sv) c (w_redis w)"
  "\<lambda>w. delayed (sv_rd sv) (sv_js sv) (w_redis w)"
proof (unfold_locales, unfold on_redis_eq, goal_cases)
  case (1 m t s s')
  then show ?case using enq_ok by force
next
  case (2 m t s e s' c)
  then show ?case using enq_waiting [of m t "w_redis s" e] by force
next
  case (3 m t s e s' c)
  then show ?case using enq_frame [of m t "w_redis s" e] by force
next
  case (4 m t d s s')
  then show ?case
    using enq_delayed_ok [of m "env_now (sv_env sv) (w_tick s)" d "w_redis s"]
    by (auto simp: worker_processor_def on_redis_eq)
next
  case (5 m t d s e s')
  then show ?case
    using enq_delayed_later [of m "env_now (sv_env sv) (w_tick s)" d "w_redis s" e]
    by (force simp: worker_processor_def on_redis_eq)
next
  case (6 m t d s e s' c)
  then show ?case
    using enq_delayed_frame [of m "env_now (sv_env sv) (w_tick s)" d "w_redis s" e]
    by (force simp: worker_processor_def on_redis_eq)
next
  case (7 ms ch s s')
  then show ?case using ack_ok [of ms ch "w_redis s"] by (auto simp: worker_processor_def on_redis_eq)
next
  case (8 ms ch s e s' c)
  then show ?case using ack_held [of ms ch "w_redis s" e] by (force simp: worker_processor_def on_redis_eq)
next
  case (9 ms ch s e s' c)
  then show ?case using ack_frame [of ms ch "w_redis s" e] by (force simp: worker_processor_def on_redis_eq)
qed

sublocale worker \<subseteq> prov: provider_contract "p_provider (worker_processor sv)"
  "\<lambda>w. ht_log (sv_ht sv) (w_http w)" "payload_bodies (sv_ht sv)"
proof (unfold_locales, unfold worker_sel, goal_cases)
  case (1 n w msgID w')
  then obtain cb h t0 t1 t2 u where
    call: "CircuitBreaker_Send (Client_Send (sv_ht sv) (sv_webhook sv) t0 u) t1 t2 n (w_cb w, w_http w) = (Inr msgID, cb, h)"
    and w': "w' = advance 4 (w\<lparr>w_cb := cb, w_http := h\<rparr>)"
    by (rule worker_send_eq)
  show ?case using provider_contract.send_ok [OF breaker_keeps_contract [OF web_contract] call] by (simp add: w')
next
  case (2 n w e w')
  then obtain cb h t0 t1 t2 u where
    call: "CircuitBreaker_Send (Client_Send (sv_ht sv) (sv_webhook sv) t0 u) t1 t2 n (w_cb w, w_http w) = (Inl e, cb, h)"
    and w': "w' = advance 4 (w\<lparr>w_cb := cb, w_http := h\<rparr>)"
    by (rule worker_send_eq)
  show ?case using provider_contract.send_err [OF breaker_keeps_contract [OF web_contract] call] by (simp add: w')
qed

sublocale worker \<subseteq> proc: processor_env "worker_processor sv" "\<lambda>w. rows (w_db w)" "world_inv (sv_pg sv)"
  "\<lambda>t m. on_redis (Producer_Enqueue (sv_rd sv) (sv_js sv) t m)"
  "\<lambda>c w. ready (sv_rd sv) (sv_js sv) c (w_redis w)" "\<lambda>c w. inflight (sv_rd sv) (sv_js sv) c (w_redis w)"
  "\<lambda>w. delayed (sv_rd sv) (sv_js sv) (w_redis w)"
  "\<lambda>w. ht_log (sv_ht sv) (w_http w)" "payload_bodies (sv_ht sv)" w_redis
proof (unfold_locales, goal_cases)
  case (7 n w z w')
  then show ?case by (auto simp: world_inv_def elim!: worker_send_eq)
next
  case (11 i em a w e w')
  then obtain s where "DeadLetterHandler_Handle (sv_pg sv) (env_uuid (sv_env sv) (w_tick w))
      (env_now (sv_env sv) (w_tick w + 1)) i em a (w_db w) = (e, s)" and w': "w' = (advance 2 w)\<lparr>w_db := s\<rparr>"
    by (auto simp: worker_processor_def on_db_eq)
  note h = this(1)
  have "rows s = rows (w_db w)" by (rule Handle_rows [OF h])
  then show ?case using Handle_inv [OF h] by (simp add: w' world_inv_def)
next
  case (14 w ch)
  then obtain m' where "IncrSent ch (w_metrics w) = Some m'" "metrics_ok m'"
    using incr_ok [of "w_metrics w" ch] unfolding IncrSent_def world_inv_def by metis
  with 14 show ?case by (simp add: worker_processor_def world_inv_def)
next
  case (15 w ch)
  then obtain m' where "IncrFailed ch (w_metrics w) = Some m'" "metrics_ok m'"
    using incr_ok [of "w_metrics w" ch] unfolding IncrFailed_def world_inv_def by metis
  with 15 show ?case by (simp add: worker_processor_def world_inv_def)
qed (auto simp: worker_processor_def on_db_eq on_redis_eq world_inv_def worker_repo_def)

section \<open>What a worker does to a message\<close>

context worker
begin

lemma process_outcome:
  assumes inv: "world_inv (sv_pg sv) w" and msg: "valid_message msg"
    and i: "i = m_NotificationID msg" and ch: "ch = m_Channel msg"
  shows "\<exists>w'. Processor_Process (worker_processor sv) msg w = Some w' \<and> world_inv (sv_pg sv) w' \<and>
    (msg \<in> inflight (sv_rd sv) (sv_js sv) ch (w_redis w) \<longrightarrow> msg \<notin> inflight (sv_rd sv) (sv_js sv) ch (w_redis w') \<longrightarrow>
      rows (w_db w') = rows (w_db w) \<and> (\<forall>n0. rows (w_db w) i = Some n0 \<longrightarrow> \<not> claimable (n_Status n0)) \<or>
      (\<exists>n. rows (w_db w') i = Some n \<and> n_Status n = StatusSent \<and> n_ProviderMsgID n \<noteq> None \<and>
         ht_log (sv_ht sv) (w_http w') \<noteq> ht_log (sv_ht sv) (w_http w)) \<or>
      (\<exists>n0. rows (w_db w) i = Some n0 \<and> n_Attempts n0 + 1 \<ge> n_MaxAttempts n0) \<or>
      (\<exists>n0 n. rows (w_db w) i = Some n0 \<and> rows (w_db w') i = Some n \<and> n_Status n = StatusQueued \<and>
         n_Attempts n = n_Attempts n0 + 1 \<and> msg \<in> delayed (sv_rd sv) (sv_js sv) (w_redis w')))"
  using proc.Process_outcome [OF assms] by (auto 6 0)

lemma process_frame:
  assumes inv: "world_inv (sv_pg sv) w" and msg: "valid_message msg" and i: "i = m_NotificationID msg"
    and run: "Processor_Process (worker_processor sv) msg w = Some w'"
  shows "(ht_log (sv_ht sv) (w_http w') = ht_log (sv_ht sv) (w_http w) \<or>
      (\<exists>n0 t x. rows (w_db w) i = Some n0 \<and> claimable (n_Status n0) \<and>
         x \<in> payload_bodies (sv_ht sv) (set_status StatusProcessing t n0) \<and>
         ht_log (sv_ht sv) (w_http w') = x # ht_log (sv_ht sv) (w_http w)))"
    and "j \<noteq> i \<Longrightarrow> rows (w_db w') j = rows (w_db w) j"
    and "m \<noteq> msg \<Longrightarrow> (m \<in> inflight (sv_rd sv) (sv_js sv) c (w_redis w')) = (m \<in> inflight (sv_rd sv) (sv_js sv) c (w_redis w))"
    and "ready (sv_rd sv) (sv_js sv) c (w_redis w') = ready (sv_rd sv) (sv_js sv) c (w_redis w)"
proof -
  have o: "\<forall>c. ready (sv_rd sv) (sv_js sv) c (w_redis w') = ready (sv_rd sv) (sv_js sv) c (w_redis w)"
    "\<forall>c. moved {msg} (inflight (sv_rd sv) (sv_js sv) c (w_redis w)) (inflight (sv_rd sv) (sv_js sv) c (w_redis w'))"
    "\<forall>j. j \<noteq> i \<longrightarrow> rows (w_db w') j = rows (w_db w) j"
    "ht_log (sv_ht sv) (w_http w') = ht_log (sv_ht sv) (w_http w) \<or>
      (\<exists>n0 t x. rows (w_db w) i = Some n0 \<and> claimable (n_Status n0) \<and>
         x \<in> payload_bodies (sv_ht sv) (set_status StatusProcessing t n0) \<and>
         ht_log (sv_ht sv) (w_http w') = x # ht_log (sv_ht sv) (w_http w))"
    using proc.Process_outcome [OF inv msg i refl] run by auto
  show "ht_log (sv_ht sv) (w_http w') = ht_log (sv_ht sv) (w_http w) \<or>
      (\<exists>n0 t x. rows (w_db w) i = Some n0 \<and> claimable (n_Status n0) \<and>
         x \<in> payload_bodies (sv_ht sv) (set_status StatusProcessing t n0) \<and>
         ht_log (sv_ht sv) (w_http w') = x # ht_log (sv_ht sv) (w_http w))" by (rule o(4))
  show "j \<noteq> i \<Longrightarrow> rows (w_db w') j = rows (w_db w) j" using o(3) by blast
  show "m \<noteq> msg \<Longrightarrow> (m \<in> inflight (sv_rd sv) (sv_js sv) c (w_redis w')) = (m \<in> inflight (sv_rd sv) (sv_js sv) c (w_redis w))"
    using o(2) unfolding moved_def by blast
  show "ready (sv_rd sv) (sv_js sv) c (w_redis w') = ready (sv_rd sv) (sv_js sv) c (w_redis w)" using o(1) by blast
qed

lemma batch_outcome:
  assumes "world_inv (sv_pg sv) w" "\<forall>m \<in> set msgs. valid_message m"
  shows "\<exists>w'. Processor_ProcessBatch (worker_processor sv) msgs w = Some w' \<and> world_inv (sv_pg sv) w' \<and>
    (\<exists>xs. ht_log (sv_ht sv) (w_http w') = xs @ ht_log (sv_ht sv) (w_http w) \<and>
       length xs \<le> card {i \<in> m_NotificationID ` set msgs. \<exists>n. rows (w_db w) i = Some n \<and> claimable (n_Status n)}) \<and>
    rows_ok (m_NotificationID ` set msgs) (rows (w_db w)) (rows (w_db w')) \<and>
    (\<forall>c. ready (sv_rd sv) (sv_js sv) c (w_redis w') = ready (sv_rd sv) (sv_js sv) c (w_redis w) \<and>
       moved (set msgs) (inflight (sv_rd sv) (sv_js sv) c (w_redis w)) (inflight (sv_rd sv) (sv_js sv) c (w_redis w')))"
  using proc.ProcessBatch_outcome [OF assms] unfolding proc.queue_ok_def by blast

lemma batch_unclaimable:
  assumes inv: "world_inv (sv_pg sv) w"
    and none: "\<forall>m \<in> set msgs. \<forall>n. rows (w_db w) (m_NotificationID m) = Some n \<longrightarrow> \<not> claimable (n_Status n)"
    and run: "Processor_ProcessBatch (worker_processor sv) msgs w = Some w'"
  shows "w_redis w' = w_redis w \<and> w_http w' = w_http w"
proof (cases "msgs = []")
  case True
  then show ?thesis using run by (simp add: Processor_ProcessBatch_def)
next
  case False
  obtain y w1 where claim: "repo_GetAndMarkProcessingBatch (p_repo (worker_processor sv)) (map m_NotificationID msgs) w = (y, w1)"
    by fastforce
  have "ns = []" if "y = Inr ns" for ns
  proof (rule ccontr)
    assume "ns \<noteq> []"
    then obtain n where "n \<in> set ns" by (cases ns) auto
    then show False using proc.claimed_batch(1) [OF inv claim [unfolded that], of n] none by fastforce
  qed
  then have "w' = w1" using run claim False by (auto simp: Processor_ProcessBatch_def split: sum.splits)
  then show ?thesis using claim by (auto simp: on_db_eq)
qed

end

section \<open>A worker in memory\<close>

text \<open>
  The services in memory; the clock advances by a second per reading. \<open>ex_world\<close> has one
  pending notification whose message a dequeue has put into the processing set; the
  arguments script the failures of Redis and the answers of the provider.
\<close>

definition ex_sv :: "(nat list \<times> time, mem, int result list \<times> string list) services" where
  "ex_sv =
     \<lparr>sv_pg = mem_pg, sv_rd = mem_redis, sv_js = text_codec, sv_ht = mem_http, sv_ev = ex_codec,
      sv_env = \<lparr>env_now = (\<lambda>k. 10 ^ 9 * int k), env_rand = (\<lambda>k. 1 / 2), env_uuid = (\<lambda>k. Itoa (int k))\<rparr>,
      sv_webhook = \<lparr>baseURL = ''http://hook'', httpTimeout = 10\<rparr>, sv_retry = NewStrategy (10 ^ 9) (300 * 10 ^ 9)\<rparr>"

definition ex_msg :: message where
  "ex_msg = MessageFromNotification (ex_pending ''a'' None)"

definition ex_world :: "fault list \<Rightarrow> int result list \<Rightarrow> (nat list \<times> time, mem, int result list \<times> string list) world" where
  "ex_world faults answers =
     new_worker 5 (30 * 10 ^ 9) (snd (NotificationRepo_Create mem_pg (ex_pending ''a'' None) (empty_db ([], 0))))
       (rd_zadd mem_redis (processingPrefix @ ChannelSMS) 30 ''sms,normal,a'' (mem_init faults)) (answers, [])"

interpretation mw: worker ex_sv
  by (rule worker.intro) (simp_all add: ex_sv_def mpg.pg_server_axioms mq.redis_queue_axioms mh.http_service_axioms)

lemma ex_sv_sel [simp]:
  "sv_pg ex_sv = mem_pg" "sv_rd ex_sv = mem_redis" "sv_js ex_sv = text_codec" "sv_ht ex_sv = mem_http"
  "sv_ev ex_sv = ex_codec" "sv_webhook ex_sv = \<lparr>baseURL = ''http://hook'', httpTimeout = 10\<rparr>"
  "sv_retry ex_sv = NewStrategy (10 ^ 9) (300 * 10 ^ 9)" "env_now (sv_env ex_sv) k = 10 ^ 9 * int k"
  "env_rand (sv_env ex_sv) k = 1 / 2" "env_uuid (sv_env ex_sv) k = Itoa (int k)"
  by (simp_all add: ex_sv_def)

lemma ex_world_inv: "world_inv mem_pg (ex_world faults answers)"
proof -
  have "db_inv mem_pg (snd (NotificationRepo_Create mem_pg (ex_pending ''a'' None) (empty_db ([], 0))))"
    using mpg.repo_exec_inv [OF db_inv_empty, of "OpCreate (ex_pending ''a'' None)"] by simp
  then show ?thesis by (simp add: world_inv_def ex_world_def new_worker_def metrics_ok_new)
qed

lemma ex_msg_sel [simp]: "m_NotificationID ex_msg = ''a''" "m_Channel ex_msg = ChannelSMS" "valid_message ex_msg"
  by (simp_all add: ex_msg_def MessageFromNotification_def ex_pending_def valid_message_def)

lemma ex_marshal: "marshal text_codec ex_msg = Inr ''sms,normal,a''"
  by (simp add: ex_msg_def MessageFromNotification_def ex_pending_def text_codec_def ChannelSMS_def PriorityNormal_def)

section \<open>Properties\<close>

text \<open>
  C3. No message is lost. \<open>Process\<close> returns (it does not panic), whatever PostgreSQL,
  Redis and the provider do. If it has taken the message out of the processing set, then
  there was nothing to send and nothing was changed, or the row is sent with its provider
  identifier and the provider has accepted the body, or the attempts are used up, or the row
  is queued again with one attempt more and the message waits for its retry.
\<close>

theorem process_no_silent_loss:
  assumes "worker sv" "world_inv (sv_pg sv) w" "valid_message msg"
    and "i = m_NotificationID msg" "ch = m_Channel msg"
  shows "\<exists>w'. Processor_Process (worker_processor sv) msg w = Some w' \<and> world_inv (sv_pg sv) w' \<and>
    (msg \<in> inflight (sv_rd sv) (sv_js sv) ch (w_redis w) \<longrightarrow> msg \<notin> inflight (sv_rd sv) (sv_js sv) ch (w_redis w') \<longrightarrow>
      rows (w_db w') = rows (w_db w) \<and> (\<forall>n0. rows (w_db w) i = Some n0 \<longrightarrow> \<not> claimable (n_Status n0)) \<or>
      (\<exists>n. rows (w_db w') i = Some n \<and> n_Status n = StatusSent \<and> n_ProviderMsgID n \<noteq> None \<and>
         ht_log (sv_ht sv) (w_http w') \<noteq> ht_log (sv_ht sv) (w_http w)) \<or>
      (\<exists>n0. rows (w_db w) i = Some n0 \<and> n_Attempts n0 + 1 \<ge> n_MaxAttempts n0) \<or>
      (\<exists>n0 n. rows (w_db w) i = Some n0 \<and> rows (w_db w') i = Some n \<and> n_Status n = StatusQueued \<and>
         n_Attempts n = n_Attempts n0 + 1 \<and> msg \<in> delayed (sv_rd sv) (sv_js sv) (w_redis w')))"
  by (rule worker.process_outcome [OF assms])

theorem process_no_silent_loss_witness:
  "\<exists>w'. Processor_Process (worker_processor ex_sv) ex_msg (ex_world [] [Inr 500]) = Some w' \<and> world_inv mem_pg w'"
  using process_no_silent_loss [OF mw.worker_axioms _ _ refl refl, of "ex_world [] [Inr 500]" ex_msg]
  by (auto simp: ex_world_inv)

text \<open>
  One call sends at most one request, for the notification of the message and only if
  it was pending or queued, with its stored content; it changes no other row and no queue
  entry of another message.
\<close>

theorem process_at_most_one_delivery:
  assumes "worker sv" "world_inv (sv_pg sv) w" "valid_message msg" "i = m_NotificationID msg"
    and "Processor_Process (worker_processor sv) msg w = Some w'"
  shows "(ht_log (sv_ht sv) (w_http w') = ht_log (sv_ht sv) (w_http w) \<or>
      (\<exists>n0 t x. rows (w_db w) i = Some n0 \<and> claimable (n_Status n0) \<and>
         x \<in> payload_bodies (sv_ht sv) (set_status StatusProcessing t n0) \<and>
         ht_log (sv_ht sv) (w_http w') = x # ht_log (sv_ht sv) (w_http w))) \<and>
    (\<forall>j. j \<noteq> i \<longrightarrow> rows (w_db w') j = rows (w_db w) j) \<and>
    (\<forall>c m. m \<noteq> msg \<longrightarrow> (m \<in> inflight (sv_rd sv) (sv_js sv) c (w_redis w')) = (m \<in> inflight (sv_rd sv) (sv_js sv) c (w_redis w))) \<and>
    (\<forall>c. ready (sv_rd sv) (sv_js sv) c (w_redis w') = ready (sv_rd sv) (sv_js sv) c (w_redis w))"
  using worker.process_frame [OF assms] by blast

theorem process_at_most_one_delivery_witness:
  "\<exists>w'. Processor_Process (worker_processor ex_sv) ex_msg (ex_world [] []) = Some w' \<and>
     rows (w_db w') ''b'' = rows (w_db (ex_world [] [])) ''b''"
proof -
  have i: "world_inv (sv_pg ex_sv) (ex_world [] [])" by (simp add: ex_world_inv)
  obtain w' where w': "Processor_Process (worker_processor ex_sv) ex_msg (ex_world [] []) = Some w'"
    using mw.process_outcome [OF i ex_msg_sel(3) refl refl] by blast
  then show ?thesis
    using process_at_most_one_delivery [OF mw.worker_axioms i ex_msg_sel(3) refl w'] by auto
qed

text \<open>
  C7. A batch is safe. \<open>ProcessBatch\<close> returns, whatever the services do; the provider gets
  at most one request per distinct notification that was pending or queued (duplicate
  messages are sent once); a row either stays as it was or was claimable and is afterwards
  processing, sent, queued or failed with at most one attempt more, and failed only when
  the attempts are used up; and no queue entry of another message is touched.
\<close>

theorem process_batch_safe:
  assumes "worker sv" "world_inv (sv_pg sv) w" "\<forall>m \<in> set msgs. valid_message m"
  shows "\<exists>w'. Processor_ProcessBatch (worker_processor sv) msgs w = Some w' \<and> world_inv (sv_pg sv) w' \<and>
    (\<exists>xs. ht_log (sv_ht sv) (w_http w') = xs @ ht_log (sv_ht sv) (w_http w) \<and>
       length xs \<le> card {i \<in> m_NotificationID ` set msgs. \<exists>n. rows (w_db w) i = Some n \<and> claimable (n_Status n)}) \<and>
    rows_ok (m_NotificationID ` set msgs) (rows (w_db w)) (rows (w_db w')) \<and>
    (\<forall>c. ready (sv_rd sv) (sv_js sv) c (w_redis w') = ready (sv_rd sv) (sv_js sv) c (w_redis w) \<and>
       moved (set msgs) (inflight (sv_rd sv) (sv_js sv) c (w_redis w)) (inflight (sv_rd sv) (sv_js sv) c (w_redis w')))"
  by (rule worker.batch_outcome [OF assms])

theorem process_batch_safe_witness:
  "\<exists>w'. Processor_ProcessBatch (worker_processor ex_sv) [ex_msg, ex_msg] (ex_world [] []) = Some w' \<and> world_inv mem_pg w'"
  using process_batch_safe [OF mw.worker_axioms, of "ex_world [] []" "[ex_msg, ex_msg]"]
  by (auto simp: ex_world_inv)

text \<open>
  A batch with nothing to claim is not acknowledged. If no notification of the batch is
  pending or queued, \<open>ProcessBatch\<close> returns without touching Redis, so the messages stay in
  the processing set until the scheduler puts them back into the queue and the next worker
  finds them again. (\<open>Process\<close> acknowledges such a message.)
\<close>

theorem batch_unclaimable_not_acked:
  assumes "worker sv" "world_inv (sv_pg sv) w"
    and "\<forall>m \<in> set msgs. \<forall>n. rows (w_db w) (m_NotificationID m) = Some n \<longrightarrow> \<not> claimable (n_Status n)"
    and "Processor_ProcessBatch (worker_processor sv) msgs w = Some w'"
  shows "w_redis w' = w_redis w \<and> w_http w' = w_http w"
  by (rule worker.batch_unclaimable [OF assms])

theorem batch_unclaimable_not_acked_witness:
  "let m = ex_msg\<lparr>m_NotificationID := ''z''\<rparr>; w = ex_world [] []
   in \<exists>w'. Processor_ProcessBatch (worker_processor ex_sv) [m] w = Some w' \<and> w_redis w' = w_redis w"
proof -
  let ?m = "ex_msg\<lparr>m_NotificationID := ''z''\<rparr>" and ?w = "ex_world [] []"
  have i: "world_inv (sv_pg ex_sv) ?w" by (simp add: ex_world_inv)
  have v: "valid_message ?m" using ex_msg_sel(3) by (simp add: valid_message_def)
  obtain w' where w': "Processor_ProcessBatch (worker_processor ex_sv) [?m] ?w = Some w'"
    using mw.batch_outcome [OF i, of "[?m]"] v by auto
  have "rows (w_db ?w) ''z'' = None"
    by (simp add: ex_world_def new_worker_def rows_def raw_def NotificationRepo_Create_def repo_eval)
  then show ?thesis
    using batch_unclaimable_not_acked [OF mw.worker_axioms i _ w'] w' by auto
qed

lemmas claim_eval = NotificationRepo_GetAndMarkProcessingBatch_def query_rows_def getAndMarkProcessingBatch_def
  update_where_def claimable_def set_status_def pg_time_def scanNotification_def Unmarshal_vars_def

lemmas send_eval = worker_send_def CircuitBreaker_Send_def NewCircuitBreaker_def doSend_def Client_Send_def
  mem_http_def payload_of_def Header_Set_def recordFailure_def recordSuccess_def

lemmas failure_eval = Processor_handleFailure_def msgMap_def IncrFailed_def incr_def NewMetricsCollector_def
  NotificationRepo_UpdateStatusWithError_def updateNotificationStatusWithError_def set_error_def

lemma Itoa_500: "Itoa 500 = ''500''"
  by code_simp

text \<open>The scenario of the lost retry, step by step: the claim, the refused send, the failure.\<close>

definition ex_claimed :: notification where
  "ex_claimed = (ex_pending ''a'' None)\<lparr>n_Status := StatusProcessing, n_UpdatedAt := 2000000\<rparr>"

lemma ex_claim:
  "\<exists>w1. repo_GetAndMarkProcessingBatch (p_repo (worker_processor ex_sv)) [''a''] (ex_world faults answers) = (Inr [ex_claimed], w1) \<and>
     notifications (w_db w1) = [notification.extend ex_claimed (nrow.fields (Some JNull))] \<and> fst (pg_conn (w_db w1)) = [] \<and>
     w_redis w1 = w_redis (ex_world faults answers) \<and> w_http w1 = (answers, []) \<and>
     w_cb w1 = NewCircuitBreaker 5 (30 * 10 ^ 9) \<and> w_metrics w1 = NewMetricsCollector"
  by (simp add: ex_world_def new_worker_def NotificationRepo_Create_def on_db_def repo_eval claim_eval ex_claimed_def Let_def)

lemma ex_refused:
  assumes "w_http w = ([Inr 500], [])" "w_cb w = NewCircuitBreaker 5 (30 * 10 ^ 9)"
  shows "\<exists>w'. worker_send ex_sv ex_claimed w = (Inl (Err ''provider returned status 500''), w') \<and>
    w_db w' = w_db w \<and> w_redis w' = w_redis w \<and> w_metrics w' = w_metrics w"
  using assms by (simp add: send_eval Itoa_500)

lemma worker_ops:
  "p_EnqueueDelayed (worker_processor sv) msg d w =
     on_redis (Producer_EnqueueDelayed (sv_rd sv) (sv_js sv) (env_now (sv_env sv) (w_tick w)) msg d) (advance 1 w)"
  "p_Ack (worker_processor sv) ch msgs w = on_redis (Consumer_Ack (sv_rd sv) (sv_js sv) ch msgs) w"
  "p_NextDelay (worker_processor sv) a w = (Strategy_NextDelay (sv_retry sv) (env_rand (sv_env sv) (w_tick w)) a, advance 1 w)"
  "p_IncrFailed (worker_processor sv) ch w = map_option (\<lambda>m. w\<lparr>w_metrics := m\<rparr>) (IncrFailed ch (w_metrics w))"
  "p_IncrSent (worker_processor sv) ch w = map_option (\<lambda>m. w\<lparr>w_metrics := m\<rparr>) (IncrSent ch (w_metrics w))"
  by (simp_all add: worker_processor_def)

lemma ex_requeued:
  assumes "notifications s = [notification.extend ex_claimed (nrow.fields (Some JNull))]" "fst (pg_conn s) = []"
  shows "\<exists>s'. NotificationRepo_UpdateStatusWithError mem_pg ''a'' StatusQueued ''provider returned status 500'' 1 s = (None, s') \<and>
    map_option n_Status (rows s' ''a'') = Some StatusQueued"
  using assms
  by (simp add: failure_eval pg_call_def remote_def update_where_def ex_claimed_def repo_eval rows_def raw_def row_view_def pg_time_def Let_def)

lemma ex_failure:
  assumes "notifications (w_db w) = [notification.extend ex_claimed (nrow.fields (Some JNull))]" "fst (pg_conn (w_db w)) = []"
    and "w_redis w = w_redis (ex_world [LostRequest (Err ''timeout'')] answers)" "w_metrics w = NewMetricsCollector"
  shows "\<exists>w'. Processor_handleFailure (worker_processor ex_sv) ex_claimed ex_msg (Err ''provider returned status 500'') w = Some w' \<and>
    w_redis w' = w_redis (ex_world [] answers) \<and> map_option n_Status (rows (w_db w') ''a'') = Some StatusQueued"
proof -
  obtain s' where s': "NotificationRepo_UpdateStatusWithError mem_pg ''a'' StatusQueued ''provider returned status 500'' 1 (w_db w) = (None, s')"
    "map_option n_Status (rows s' ''a'') = Some StatusQueued"
    using ex_requeued [OF assms(1,2)] by blast
  have n: "n_ID ex_claimed = ''a''" "n_Attempts ex_claimed = 0" "n_MaxAttempts ex_claimed = 5" "n_Channel ex_claimed = ChannelSMS"
    by (simp_all add: ex_claimed_def ex_pending_def)
  obtain m where m: "IncrFailed ChannelSMS (w_metrics w) = Some m" by (simp add: assms(4) IncrFailed_def incr_def NewMetricsCollector_def Let_def)
  have "Producer_EnqueueDelayed mem_redis text_codec t ex_msg d (w_redis w) = (Some (Err ''timeout''), w_redis (ex_world [] answers))" for t d
    by (simp add: assms(3) ex_world_def new_worker_def Producer_EnqueueDelayed_def ex_marshal rd_do_def remote_def mem_eval Let_def)
  then show ?thesis using s'(2)
    by (simp add: Processor_handleFailure_def n worker_ops m on_db_def s'(1) on_redis_def Let_def)
qed

text \<open>
  C32. A retry can be lost in a batch. The provider answers 500, the row is put back to
  queued, the request that schedules the retry is lost, and \<open>ProcessBatch\<close> acknowledges the
  message all the same: afterwards the row is queued and no message for it is left in any
  queue. (\<open>Process\<close> keeps the message in the processing set in this case.)
\<close>

theorem batch_retry_lost:
  "let w = ex_world [LostRequest (Err ''timeout'')] [Inr 500]
   in ex_msg \<in> inflight mem_redis text_codec ChannelSMS (w_redis w) \<and>
     (\<exists>w'. Processor_ProcessBatch (worker_processor ex_sv) [ex_msg] w = Some w' \<and>
        map_option n_Status (rows (w_db w') ''a'') = Some StatusQueued \<and>
        ex_msg \<notin> inflight mem_redis text_codec ChannelSMS (w_redis w') \<and>
        ex_msg \<notin> ready mem_redis text_codec ChannelSMS (w_redis w') \<and>
        ex_msg \<notin> delayed mem_redis text_codec (w_redis w'))"
proof -
  let ?w = "ex_world [LostRequest (Err ''timeout'')] [Inr 500]"
  obtain w1 where w1: "repo_GetAndMarkProcessingBatch (p_repo (worker_processor ex_sv)) [''a''] ?w = (Inr [ex_claimed], w1)"
     "notifications (w_db w1) = [notification.extend ex_claimed (nrow.fields (Some JNull))]" "fst (pg_conn (w_db w1)) = []"
     "w_redis w1 = w_redis ?w" "w_http w1 = ([Inr 500], [])"
     "w_cb w1 = NewCircuitBreaker 5 (30 * 10 ^ 9)" "w_metrics w1 = NewMetricsCollector"
    using ex_claim by blast
  obtain w2 where w2: "worker_send ex_sv ex_claimed w1 = (Inl (Err ''provider returned status 500''), w2)"
    "w_db w2 = w_db w1" "w_redis w2 = w_redis w1" "w_metrics w2 = w_metrics w1"
    using ex_refused [OF w1(5,6)] by blast
  obtain w3 where w3: "Processor_handleFailure (worker_processor ex_sv) ex_claimed ex_msg (Err ''provider returned status 500'') w2 = Some w3"
    "w_redis w3 = w_redis (ex_world [] [])" "map_option n_Status (rows (w_db w3) ''a'') = Some StatusQueued"
    using ex_failure [of w2 "[]"] w1 w2 by (auto simp: ex_world_def new_worker_def)
  let ?r = "rd_zrem mem_redis (processingPrefix @ ChannelSMS) [''sms,normal,a''] (w_redis (ex_world [] []))"
  have "msgMap [ex_msg] (n_ID ex_claimed) = ex_msg" by (simp add: msgMap_def ex_claimed_def ex_pending_def)
  moreover have "Consumer_Ack mem_redis text_codec ChannelSMS [ex_msg] (w_redis (ex_world [] [])) = (None, ?r)"
    by (simp add: Consumer_Ack_def ex_marshal rd_do_def remote_def mem_eval ex_world_def new_worker_def)
  ultimately have "Processor_ProcessBatch (worker_processor ex_sv) [ex_msg] ?w = Some (w3\<lparr>w_redis := ?r\<rparr>)"
    using w1(1) w2(1) w3 by (simp add: Processor_ProcessBatch_def Processor_ack_def worker_ops on_redis_def)
  moreover have "rd_zset mem_redis ?r k = []" for k
    by (simp add: mem_eval ex_world_def new_worker_def z_rem_def z_add_def)
  moreover have "''sms,normal,a'' \<in> z_members (rd_zset mem_redis (w_redis ?w) (processingPrefix @ ChannelSMS))"
    by (simp add: mem_eval ex_world_def new_worker_def)
  ultimately show ?thesis
    using w3(3) by (auto simp: inflight_def ready_def delayed_def in_zset_def ex_marshal)
qed

end
