(* ===== verification/Scheduler.thy ===== *)
theory Scheduler
  imports Worker
begin

text \<open>
  The scheduler of \<open>internal/queue/redis/scheduler.go\<close>, on the world of the theory \<open>Worker\<close>:
  it turns due scheduled notifications into queue messages, moves due retries into the
  queue, and takes back messages whose visibility timeout is over. One call of \<open>poll\<close> is a
  function; its inner loop may not end, so it is a partial function and \<open>None\<close> means that
  the call does not return. \<open>Start\<close> only calls \<open>poll\<close> at every tick.
\<close>

section \<open>Definitions\<close>

definition schedulerLockKey :: string where "schedulerLockKey = ''scheduler:lock''"
definition schedulerLockTTL :: duration where "schedulerLockTTL = 5 * 10 ^ 9"

text \<open>The producer of the worker: \<open>Enqueue\<close> reads the clock once.\<close>

definition worker_Enqueue :: "('p, 'r, 'h) services \<Rightarrow> message \<Rightarrow> ('p, 'r, 'h) world \<Rightarrow> err option \<times> ('p, 'r, 'h) world" where
  "worker_Enqueue sv msg w =
     on_redis (Producer_Enqueue (sv_rd sv) (sv_js sv) (env_now (sv_env sv) (w_tick w)) msg) (advance 1 w)"

definition scheduled_message :: "notification \<Rightarrow> message" where
  "scheduled_message n =
     \<lparr>m_NotificationID = n_ID n, m_Channel = n_Channel n, m_Priority = n_Priority n, m_ScheduledAt = None\<rparr>"

text \<open>The loop over one page of due notifications.\<close>

fun schedule_all :: "('p, 'r, 'h) services \<Rightarrow> notification list \<Rightarrow> ('p, 'r, 'h) world \<Rightarrow> ('p, 'r, 'h) world" where
  "schedule_all sv [] w = w"
| "schedule_all sv (n # ns) w =
     (case worker_Enqueue sv (scheduled_message n) w of
        (Some _, w1) \<Rightarrow> schedule_all sv ns w1
      | (None, w1) \<Rightarrow>
          schedule_all sv ns (snd (repo_UpdateStatus (worker_repo (sv_pg sv)) (n_ID n) StatusQueued w1)))"

text \<open>\<open>Process in batches until no more pending scheduled notifications\<close>.\<close>

partial_function (option) poll_loop ::
  "('p, 'r, 'h) services \<Rightarrow> ('p, 'r, 'h) world \<Rightarrow> ('p, 'r, 'h) world option" where
  "poll_loop sv w =
     (case repo_GetPendingScheduled (worker_repo (sv_pg sv)) w of
        (Inl _, w1) \<Rightarrow> Some w1
      | (Inr ns, w1) \<Rightarrow> if ns = [] then Some w1 else poll_loop sv (schedule_all sv ns w1))"

declare poll_loop.simps [code]

text \<open>
  The bodies of the two loops over queue members are the same: decode, enqueue, remove
  from the set it came from; a member that cannot be decoded or enqueued stays.
\<close>

fun requeue_all :: "('p, 'r, 'h) services \<Rightarrow> string \<Rightarrow> string list \<Rightarrow> ('p, 'r, 'h) world \<Rightarrow> ('p, 'r, 'h) world" where
  "requeue_all sv key [] w = w"
| "requeue_all sv key (member # members) w =
     (case unmarshal (sv_js sv) member of
        Inl _ \<Rightarrow> requeue_all sv key members w
      | Inr msg \<Rightarrow>
          (case worker_Enqueue sv msg w of
             (Some _, w1) \<Rightarrow> requeue_all sv key members w1
           | (None, w1) \<Rightarrow>
               requeue_all sv key members (snd (on_redis (rd_do (sv_rd sv) (rd_zrem (sv_rd sv) key [member])) w1))))"

text \<open>\<open>ZRANGE key -inf now BYSCORE\<close>.\<close>

definition due_members :: "('p, 'r, 'h) services \<Rightarrow> string \<Rightarrow> time \<Rightarrow> ('p, 'r, 'h) world \<Rightarrow> string list result \<times> ('p, 'r, 'h) world" where
  "due_members sv key now =
     on_redis (remote (rd_net (sv_rd sv)) (\<lambda>r. (rd_zrangebyscore (sv_rd sv) key (float64_of_int now) r, r)))"

definition promoteDelayedRetries :: "('p, 'r, 'h) services \<Rightarrow> ('p, 'r, 'h) world \<Rightarrow> ('p, 'r, 'h) world" where
  "promoteDelayedRetries sv w =
     (let now = env_now (sv_env sv) (w_tick w)
      in case due_members sv retryDelayedKey now (advance 1 w) of
           (Inl _, w1) \<Rightarrow> w1
         | (Inr results, w1) \<Rightarrow> requeue_all sv retryDelayedKey results w1)"

definition reclaim_channel :: "('p, 'r, 'h) services \<Rightarrow> time \<Rightarrow> channel \<Rightarrow> ('p, 'r, 'h) world \<Rightarrow> ('p, 'r, 'h) world" where
  "reclaim_channel sv now ch w =
     (case due_members sv (processingPrefix @ ch) now w of
        (Inl _, w1) \<Rightarrow> w1
      | (Inr results, w1) \<Rightarrow> requeue_all sv (processingPrefix @ ch) results w1)"

definition reclaimExpiredProcessing :: "('p, 'r, 'h) services \<Rightarrow> ('p, 'r, 'h) world \<Rightarrow> ('p, 'r, 'h) world" where
  "reclaimExpiredProcessing sv w =
     (let now = env_now (sv_env sv) (w_tick w)
      in fold (reclaim_channel sv now) [ChannelSMS, ChannelEmail, ChannelPush] (advance 1 w))"

definition Scheduler_poll :: "('p, 'r, 'h) services \<Rightarrow> ('p, 'r, 'h) world \<Rightarrow> ('p, 'r, 'h) world option" where
  "Scheduler_poll sv w =
     (case on_redis (remote (rd_net (sv_rd sv)) (rd_setnx (sv_rd sv) schedulerLockKey ''1'' schedulerLockTTL)) w of
        (Inl _, w1) \<Rightarrow> Some w1
      | (Inr acquired, w1) \<Rightarrow>
          if \<not> acquired then Some w1
          else map_option (\<lambda>w2. reclaimExpiredProcessing sv (promoteDelayedRetries sv w2)) (poll_loop sv w1))"

section \<open>Messages are kept\<close>

text \<open>All the messages the queue holds, in any of its sets.\<close>

definition queued :: "('p, 'r, 'h) services \<Rightarrow> ('p, 'r, 'h) world \<Rightarrow> message set" where
  "queued sv w =
     {m. (\<exists>c. m \<in> ready (sv_rd sv) (sv_js sv) c (w_redis w)) \<or> (\<exists>c. m \<in> inflight (sv_rd sv) (sv_js sv) c (w_redis w)) \<or>
         m \<in> delayed (sv_rd sv) (sv_js sv) (w_redis w)}"

definition queue_key :: "string \<Rightarrow> bool" where
  "queue_key k = (k = retryDelayedKey \<or> (\<exists>c. k = queuePrefix @ c \<or> k = processingPrefix @ c))"

lemma queue_keyI [simp]: "queue_key retryDelayedKey" "queue_key (queuePrefix @ c)" "queue_key (processingPrefix @ c)"
  by (auto simp: queue_key_def)

context worker
begin

lemma queued_iff: "m \<in> queued sv w \<longleftrightarrow> valid_message m \<and> (\<exists>k. queue_key k \<and> in_zset (sv_rd sv) (sv_js sv) k (w_redis w) m)"
  by (auto simp: queued_def ready_def inflight_def delayed_def queue_key_def)

lemma queuedI: "valid_message m \<Longrightarrow> queue_key k \<Longrightarrow> in_zset (sv_rd sv) (sv_js sv) k (w_redis w) m \<Longrightarrow> m \<in> queued sv w"
  unfolding queued_iff by blast

lemma queued_mono:
  assumes "\<And>k m. valid_message m \<Longrightarrow> in_zset (sv_rd sv) (sv_js sv) k (w_redis w) m \<Longrightarrow> in_zset (sv_rd sv) (sv_js sv) k (w_redis w') m"
  shows "queued sv w \<subseteq> queued sv w'"
  unfolding queued_iff subset_iff using assms by blast

text \<open>Enqueueing any message, valid or not, takes nothing out of any set.\<close>

lemma Enqueue_mono:
  assumes "Producer_Enqueue (sv_rd sv) (sv_js sv) now msg r = (e, r')" "in_zset (sv_rd sv) (sv_js sv) k r m"
  shows "in_zset (sv_rd sv) (sv_js sv) k r' m"
proof (cases "marshal (sv_js sv) msg")
  case (Inl x)
  then show ?thesis using assms by (simp add: Producer_Enqueue_def)
next
  case (Inr d)
  then have "rd_do (sv_rd sv) (rd_zadd (sv_rd sv) (queuePrefix @ m_Channel msg) (calculateScore now msg) d) r = (e, r')"
    using assms(1) by (simp add: Producer_Enqueue_def)
  from zadd_effect(2) [OF this] show ?thesis
    using in_zset_same in_zset_upd_add assms(2) by blast
qed

lemma worker_Enqueue_frame:
  assumes "worker_Enqueue sv msg w = (e, w')"
  shows "w_db w' = w_db w" "w_http w' = w_http w" "w_metrics w' = w_metrics w" "queued sv w \<subseteq> queued sv w'"
    "valid_message msg \<Longrightarrow> e = None \<Longrightarrow> msg \<in> ready (sv_rd sv) (sv_js sv) (m_Channel msg) (w_redis w')"
proof -
  obtain r where r: "Producer_Enqueue (sv_rd sv) (sv_js sv) (env_now (sv_env sv) (w_tick w)) msg (w_redis w) = (e, r)"
    "w' = (advance 1 w)\<lparr>w_redis := r\<rparr>"
    using assms by (auto simp: worker_Enqueue_def on_redis_eq)
  show "w_db w' = w_db w" "w_http w' = w_http w" "w_metrics w' = w_metrics w" by (simp_all add: r(2))
  show "queued sv w \<subseteq> queued sv w'" using Enqueue_mono [OF r(1)] by (intro queued_mono) (simp add: r(2))
  show "msg \<in> ready (sv_rd sv) (sv_js sv) (m_Channel msg) (w_redis w')" if "valid_message msg" "e = None"
    using enq_ok [OF that(1) r(1) [unfolded that(2)]] by (simp add: r(2))
qed

lemma zrem_member:
  assumes "rd_do (sv_rd sv) (rd_zrem (sv_rd sv) key [member]) r = (e, r')" "unmarshal (sv_js sv) member = Inr msg"
    and "valid_message m" "m \<noteq> msg \<or> k \<noteq> key" "in_zset (sv_rd sv) (sv_js sv) k r m"
  shows "in_zset (sv_rd sv) (sv_js sv) k r' m"
proof -
  from zrem_effect(2) [OF assms(1)] show ?thesis
  proof
    assume "rd_zset (sv_rd sv) r' = rd_zset (sv_rd sv) r"
    then show ?thesis using in_zset_same assms(5) by blast
  next
    assume r': "rd_zset (sv_rd sv) r' = (rd_zset (sv_rd sv) r)(key := z_rem [member] (rd_zset (sv_rd sv) r key))"
    have "marshal (sv_js sv) m \<noteq> Inr member" if "m \<noteq> msg" using roundtrip [OF assms(3)] assms(2) that by force
    then show ?thesis using in_zset_upd_rem [OF r'] assms(4,5) by auto
  qed
qed

lemma setnx_state: "rd_setnx (sv_rd sv) k v ttl r = (b, r') \<Longrightarrow> rd_zset (sv_rd sv) r' = rd_zset (sv_rd sv) r"
  using setnx_zset [of k v ttl r] by simp

text \<open>A member is removed only after its message has been enqueued.\<close>

lemma requeue_all_frame:
  assumes "key = retryDelayedKey \<or> (\<exists>c. key = processingPrefix @ c)"
  shows "w_db (requeue_all sv key ms w) = w_db w \<and> w_http (requeue_all sv key ms w) = w_http w \<and>
    w_metrics (requeue_all sv key ms w) = w_metrics w \<and> queued sv w \<subseteq> queued sv (requeue_all sv key ms w)"
proof (induction ms arbitrary: w)
  case (Cons member ms)
  show ?case
  proof (cases "unmarshal (sv_js sv) member")
    case (Inr msg)
    obtain e w1 where enq: "worker_Enqueue sv msg w = (e, w1)" by fastforce
    note f = worker_Enqueue_frame [OF enq]
    show ?thesis
    proof (cases e)
      case None
      obtain e' r2 where rem: "rd_do (sv_rd sv) (rd_zrem (sv_rd sv) key [member]) (w_redis w1) = (e', r2)" by fastforce
      let ?w2 = "w1\<lparr>w_redis := r2\<rparr>"
      have "m \<in> queued sv ?w2" if m: "m \<in> queued sv w" for m
      proof (cases "m = msg")
        case True
        have v: "valid_message m" using m by (simp add: queued_iff)
        then have "in_zset (sv_rd sv) (sv_js sv) (queuePrefix @ m_Channel m) (w_redis w1) m"
          using f(5) None True by (auto simp: ready_def)
        then have "in_zset (sv_rd sv) (sv_js sv) (queuePrefix @ m_Channel m) (w_redis ?w2) m"
          using zrem_member [OF rem Inr v, of "queuePrefix @ m_Channel m"] assms by auto
        then show ?thesis using v by (intro queuedI) auto
      next
        case False
        obtain k where k: "valid_message m" "queue_key k" "in_zset (sv_rd sv) (sv_js sv) k (w_redis w1) m"
          using subsetD [OF f(4) m] unfolding queued_iff by blast
        then have "in_zset (sv_rd sv) (sv_js sv) k (w_redis ?w2) m" using zrem_member [OF rem Inr, of m k] False by simp
        then show ?thesis by (rule queuedI [OF k(1,2)])
      qed
      then have "queued sv w \<subseteq> queued sv ?w2" by blast
      then show ?thesis using Cons.IH [of ?w2] f(1-3) by (auto simp: Inr enq None on_redis_def rem)
    next
      case (Some x)
      then show ?thesis using Cons.IH [of w1] f(1-4) by (auto simp: Inr enq)
    qed
  qed (use Cons.IH in simp)
qed simp

lemma due_members_frame:
  assumes "due_members sv key now w = (x, w')"
  shows "w_db w' = w_db w" "w_http w' = w_http w" "w_metrics w' = w_metrics w" "queued sv w' = queued sv w"
    "rd_zset (sv_rd sv) (w_redis w') = rd_zset (sv_rd sv) (w_redis w)"
proof -
  obtain r where r: "remote (rd_net (sv_rd sv)) (\<lambda>r. (rd_zrangebyscore (sv_rd sv) key (float64_of_int now) r, r)) (w_redis w) = (x, r)"
    "w' = w\<lparr>w_redis := r\<rparr>"
    using assms by (auto simp: due_members_def on_redis_eq)
  show z: "rd_zset (sv_rd sv) (w_redis w') = rd_zset (sv_rd sv) (w_redis w)"
    using r(1) by (cases rule: remote_cases) (auto simp: r(2) net_state)
  show "w_db w' = w_db w" "w_http w' = w_http w" "w_metrics w' = w_metrics w" by (simp_all add: r(2))
  have "in_zset (sv_rd sv) (sv_js sv) k (w_redis w') m = in_zset (sv_rd sv) (sv_js sv) k (w_redis w) m" for k m
    by (rule in_zset_same [OF z])
  then show "queued sv w' = queued sv w" by (simp add: queued_iff set_eq_iff)
qed

text \<open>What a step of the scheduler leaves alone, and that no message gets lost.\<close>

definition requeues :: "('p, 'r, 'h) world \<Rightarrow> ('p, 'r, 'h) world \<Rightarrow> bool" where
  "requeues w w' = (w_db w' = w_db w \<and> w_http w' = w_http w \<and> w_metrics w' = w_metrics w \<and> queued sv w \<subseteq> queued sv w')"

lemma requeues_trans: "requeues w w1 \<Longrightarrow> requeues w1 w2 \<Longrightarrow> requeues w w2"
  by (auto simp: requeues_def)

lemma requeues_advance: "requeues w (advance k w)"
  by (simp add: requeues_def queued_iff subset_iff)

lemma requeue_due:
  assumes "key = retryDelayedKey \<or> (\<exists>c. key = processingPrefix @ c)"
  shows "requeues w (case due_members sv key now w of (Inl _, w1) \<Rightarrow> w1 | (Inr ms, w1) \<Rightarrow> requeue_all sv key ms w1)"
proof -
  obtain x w1 where due: "due_members sv key now w = (x, w1)" by fastforce
  note f = due_members_frame [OF due]
  have "requeues w1 (requeue_all sv key ms w1)" for ms using requeue_all_frame [OF assms] by (simp add: requeues_def)
  moreover have "requeues w w1" using f by (simp add: requeues_def)
  ultimately show ?thesis using requeues_trans by (auto simp: due split: sum.splits)
qed

lemma promote_requeues: "requeues w (promoteDelayedRetries sv w)"
  unfolding promoteDelayedRetries_def Let_def
  by (rule requeues_trans [OF requeues_advance requeue_due]) simp

lemma reclaim_channel_requeues: "requeues w (reclaim_channel sv now ch w)"
  unfolding reclaim_channel_def by (rule requeue_due) auto

lemma requeues_fold:
  assumes "\<And>x u. requeues u (f x u)"
  shows "requeues u (fold f xs u)"
proof (induction xs arbitrary: u)
  case Nil
  then show ?case by (simp add: requeues_def)
next
  case (Cons x xs)
  then show ?case using requeues_trans [OF assms Cons.IH] by simp
qed

lemma reclaim_requeues: "requeues w (reclaimExpiredProcessing sv w)"
  unfolding reclaimExpiredProcessing_def Let_def
  by (rule requeues_trans [OF requeues_advance requeues_fold [OF reclaim_channel_requeues]])

end

section \<open>Due notifications\<close>

text \<open>The database clock does not run backwards from one call to the next.\<close>

locale scheduler_env = worker sv for sv :: "('p, 'r, 'h) services" +
  assumes clock: "pg_now (sv_pg sv) c \<le> pg_now (sv_pg sv) (snd (pg_net (sv_pg sv) c))"

text \<open>
  What the scheduler may do to a row: nothing, or queue a scheduled notification whose time
  has come, with its message in the queue.
\<close>

definition scheduled_row :: "('p, 'r, 'h) services \<Rightarrow> ('p, 'r, 'h) world \<Rightarrow> ('p, 'r, 'h) world \<Rightarrow> uuid \<Rightarrow> bool" where
  "scheduled_row sv w w' i =
     (rows (w_db w') i = rows (w_db w) i \<or>
      (\<exists>n t t0. rows (w_db w) i = Some n \<and> n_Status n = StatusScheduled \<and> n_ScheduledAt n = Some t0 \<and>
         t0 \<le> pg_time (sv_pg sv) (w_db w') \<and> rows (w_db w') i = Some (set_status StatusQueued t n) \<and>
         scheduled_message n \<in> queued sv w'))"

definition schedules :: "('p, 'r, 'h) services \<Rightarrow> ('p, 'r, 'h) world \<Rightarrow> ('p, 'r, 'h) world \<Rightarrow> bool" where
  "schedules sv w w' =
     (world_inv (sv_pg sv) w' \<and> w_http w' = w_http w \<and> queued sv w \<subseteq> queued sv w' \<and>
      pg_time (sv_pg sv) (w_db w) \<le> pg_time (sv_pg sv) (w_db w') \<and> (\<forall>i. scheduled_row sv w w' i))"

lemma scheduled_row_trans:
  assumes "scheduled_row sv w w1 i" "scheduled_row sv w1 w2 i"
    and "queued sv w1 \<subseteq> queued sv w2" "pg_time (sv_pg sv) (w_db w1) \<le> pg_time (sv_pg sv) (w_db w2)"
  shows "scheduled_row sv w w2 i"
proof (cases "rows (w_db w1) i = rows (w_db w) i")
  case True
  then show ?thesis using assms(2) by (simp add: scheduled_row_def)
next
  case False
  then obtain n t t0 where n: "rows (w_db w) i = Some n" "n_Status n = StatusScheduled" "n_ScheduledAt n = Some t0"
    "t0 \<le> pg_time (sv_pg sv) (w_db w1)" "rows (w_db w1) i = Some (set_status StatusQueued t n)"
    "scheduled_message n \<in> queued sv w1"
    using assms(1) by (auto simp: scheduled_row_def)
  have "n_Status (set_status StatusQueued t n) \<noteq> StatusScheduled" by (simp add: set_status_def)
  then have "rows (w_db w2) i = rows (w_db w1) i" using assms(2) n(5) by (auto simp: scheduled_row_def)
  then show ?thesis
    unfolding scheduled_row_def using n assms(3,4) by (metis order_trans subsetD)
qed

lemma schedules_trans: "schedules sv w w1 \<Longrightarrow> schedules sv w1 w2 \<Longrightarrow> schedules sv w w2"
  unfolding schedules_def using scheduled_row_trans by (metis order_trans)

lemma scheduled_row_refl [simp]: "rows (w_db w') i = rows (w_db w) i \<Longrightarrow> scheduled_row sv w w' i"
  by (simp add: scheduled_row_def)

lemma pg_call_conn:
  assumes "pg_call pg f s = (x, s')" "\<And>u. pg_conn (snd (f u)) = pg_conn u"
  shows "pg_conn s' = snd (pg_net pg (pg_conn s))"
  using assms(1)
  by (cases rule: pg_call_cases) (use assms(2) in \<open>force dest!: arg_cong [of _ _ snd]\<close>)+

lemma distinct_map_sort: "distinct (map f (sort_key g xs)) = distinct (map f xs)"
  by (metis mset_eq_imp_distinct_iff mset_map mset_sort)

lemma update_where_conn: "pg_conn (snd (update_where pg P f s)) = pg_conn s"
  by (simp add: update_where_def Let_def split: option.splits)

context scheduler_env
begin

lemma requeues_schedules: "world_inv (sv_pg sv) w \<Longrightarrow> requeues w w' \<Longrightarrow> schedules sv w w'"
  by (simp add: requeues_def schedules_def world_inv_def)

lemma UpdateStatus_clock:
  assumes "NotificationRepo_UpdateStatus (sv_pg sv) i st s = (e, s')"
  shows "pg_time (sv_pg sv) s \<le> pg_time (sv_pg sv) s'"
proof -
  obtain x where x: "pg_call (sv_pg sv) (updateNotificationStatus (sv_pg sv) i st) s = (x, s')"
    using assms by (auto simp: NotificationRepo_UpdateStatus_def split: prod.splits)
  have "pg_conn s' = snd (pg_net (sv_pg sv) (pg_conn s))"
    by (rule pg_call_conn [OF x]) (simp add: updateNotificationStatus_def update_where_conn)
  then show ?thesis using clock by (simp add: pg_time_def)
qed

lemma scheduled_valid:
  fixes w :: "('p, 'r, 'h) world"
  assumes "world_inv (sv_pg sv) w" "rows (w_db w) i = Some n"
  shows "valid_message (scheduled_message n)"
  using store.tbl_valid [OF assms] by (simp add: valid_message_def scheduled_message_def)

lemma schedule_one:
  assumes inv: "world_inv (sv_pg sv) w" and row: "rows (w_db w) (n_ID n) = Some n" and st: "n_Status n = StatusScheduled"
    and due: "n_ScheduledAt n = Some t0" "t0 \<le> pg_time (sv_pg sv) (w_db w)"
    and enq: "worker_Enqueue sv (scheduled_message n) w = (None, w1)"
    and upd: "repo_UpdateStatus (worker_repo (sv_pg sv)) (n_ID n) StatusQueued w1 = (e, w2)"
  shows "schedules sv w w2" "j \<noteq> n_ID n \<Longrightarrow> rows (w_db w2) j = rows (w_db w) j"
    "e = None \<Longrightarrow> \<exists>t. rows (w_db w2) (n_ID n) = Some (set_status StatusQueued t n)"
proof -
  note f = worker_Enqueue_frame [OF enq]
  obtain s where s: "NotificationRepo_UpdateStatus (sv_pg sv) (n_ID n) StatusQueued (w_db w) = (e, s)" "w2 = w1\<lparr>w_db := s\<rparr>"
    using upd by (auto simp: on_db_eq f(1))
  have inv1: "world_inv (sv_pg sv) w1" using inv f by (simp add: world_inv_def)
  have u: "world_inv (sv_pg sv) w2"
    "effect e (rows (w_db w1)) (rows (w_db w2)) (\<lambda>t. upd_rows (\<lambda>m. n_ID m = n_ID n) (set_status StatusQueued t) (rows (w_db w1)))"
    using store.upd_status [OF inv1] upd by auto
  have ids: "rows (w_db w1) i = Some m \<Longrightarrow> n_ID m = i" for i m using store.tbl_valid [OF inv1] by blast
  have ur: "upd_rows (\<lambda>m. n_ID m = n_ID n) (set_status StatusQueued t) (rows (w_db w1)) =
      (rows (w_db w))(n_ID n \<mapsto> set_status StatusQueued t n)" for t
    by (subst upd_rows_at [OF ids], assumption) (simp add: f(1) row)
  have r: "rows (w_db w2) = rows (w_db w) \<and> e \<noteq> None \<or> (\<exists>t. rows (w_db w2) = (rows (w_db w))(n_ID n \<mapsto> set_status StatusQueued t n))"
    using u(2) unfolding effect_def ur by (auto simp: f(1))
  have t: "pg_time (sv_pg sv) (w_db w) \<le> pg_time (sv_pg sv) (w_db w2)" using UpdateStatus_clock [OF s(1)] by (simp add: s(2))
  have q1: "scheduled_message n \<in> queued sv w1"
    using f(5) scheduled_valid [OF inv row] by (auto simp: queued_def)
  have q2: "queued sv w2 = queued sv w1" by (simp add: s(2) queued_def)
  have "scheduled_row sv w w2 i" for i
  proof (cases "rows (w_db w2) i = rows (w_db w) i")
    case False
    then obtain t where "i = n_ID n" "rows (w_db w2) i = Some (set_status StatusQueued t n)" using r by (auto split: if_splits)
    then show ?thesis using row st due t q1 q2 unfolding scheduled_row_def by auto
  qed simp
  then show "schedules sv w w2" using u(1) t f(2,4) q2 by (simp add: schedules_def s(2))
  show "j \<noteq> n_ID n \<Longrightarrow> rows (w_db w2) j = rows (w_db w) j" using r by auto
  show "e = None \<Longrightarrow> \<exists>t. rows (w_db w2) (n_ID n) = Some (set_status StatusQueued t n)" using r by auto
qed

lemma GetPendingScheduled_spec:
  assumes inv: "db_inv (sv_pg sv) s" and call: "NotificationRepo_GetPendingScheduled (sv_pg sv) s = (x, s')"
  shows "same_db s s'" "pg_time (sv_pg sv) s \<le> pg_time (sv_pg sv) s'"
    and "x = Inr ns \<Longrightarrow> distinct (map n_ID ns) \<and> (\<forall>n \<in> set ns. rows s (n_ID n) = Some n \<and> n_Status n = StatusScheduled \<and>
           (\<exists>t0. n_ScheduledAt n = Some t0 \<and> t0 \<le> pg_time (sv_pg sv) s'))"
    and "x = Inr [] \<Longrightarrow> rows s i = Some n \<Longrightarrow> n_Status n = StatusScheduled \<Longrightarrow> n_ScheduledAt n = Some t0 \<Longrightarrow>
         pg_time (sv_pg sv) s' < t0"
proof -
  obtain y where y: "pg_call (sv_pg sv) (selectPendingScheduled (sv_pg sv) 500) s = (y, s')"
    using call by (auto simp: NotificationRepo_GetPendingScheduled_def query_rows_def split: prod.splits sum.splits)
  have snd: "snd (selectPendingScheduled (sv_pg sv) 500 u) = u" for u by (simp add: selectPendingScheduled_def select_where_def)
  show same: "same_db s s'" by (rule pg_call_same [OF y]) (rule snd)
  have "pg_conn s' = snd (pg_net (sv_pg sv) (pg_conn s))" by (rule pg_call_conn [OF y]) (simp add: snd)
  then show "pg_time (sv_pg sv) s \<le> pg_time (sv_pg sv) s'" using clock by (simp add: pg_time_def)
  let ?P = "\<lambda>r :: nrow. n_Status r = StatusScheduled \<and> (case n_ScheduledAt r of None \<Rightarrow> False | Some t \<Rightarrow> t \<le> pg_time (sv_pg sv) s')"
  let ?l = "sort_key (\<lambda>r. case n_ScheduledAt r of None \<Rightarrow> 0 | Some t \<Rightarrow> t) (pg_order (sv_pg sv) (pg_conn s') (filter ?P (notifications s)))"
  have ns: "ns = map row_view (take 500 ?l)" if x: "x = Inr ns" for ns
  proof -
    obtain rs where rs: "y = Inr rs" "scanNotifications rs = Inr ns"
      using call y x by (auto simp: NotificationRepo_GetPendingScheduled_def query_rows_def split: sum.splits)
    obtain c where c: "selectPendingScheduled (sv_pg sv) 500 (s\<lparr>pg_conn := c\<rparr>) = (Inr rs, s')"
      using y unfolding rs(1) by (cases rule: pg_call_cases) auto
    then have s': "s' = s\<lparr>pg_conn := c\<rparr>" using snd [of "s\<lparr>pg_conn := c\<rparr>"] by simp
    have "rs = take 500 ?l" using c unfolding s' by (simp add: selectPendingScheduled_def select_where_def)
    moreover have "\<forall>r \<in> set (take 500 ?l). vars_ok (r_vars r)" using inv by (auto simp: db_inv_def dest!: in_set_takeD)
    ultimately have "scanNotifications rs = Inr (map row_view (take 500 ?l))" by (simp only: scanNotifications_ok)
    then show ?thesis using rs(2) by simp
  qed
  show "distinct (map n_ID ns) \<and> (\<forall>n \<in> set ns. rows s (n_ID n) = Some n \<and> n_Status n = StatusScheduled \<and>
           (\<exists>t0. n_ScheduledAt n = Some t0 \<and> t0 \<le> pg_time (sv_pg sv) s'))" if x: "x = Inr ns"
  proof
    have "distinct (map n_ID (notifications s))" using inv by (simp add: db_inv_def)
    then have "distinct (map n_ID ?l)" by (simp add: distinct_map_sort distinct_order distinct_map_filter)
    then show "distinct (map n_ID ns)" by (simp add: ns [OF x] comp_def distinct_map_take)
    show "\<forall>n \<in> set ns. rows s (n_ID n) = Some n \<and> n_Status n = StatusScheduled \<and>
           (\<exists>t0. n_ScheduledAt n = Some t0 \<and> t0 \<le> pg_time (sv_pg sv) s')"
      using rows_mem [OF inv] by (auto simp: ns [OF x] dest!: in_set_takeD split: option.splits)
  qed
  show "pg_time (sv_pg sv) s' < t0"
    if x: "x = Inr []" and n: "rows s i = Some n" "n_Status n = StatusScheduled" "n_ScheduledAt n = Some t0"
  proof (rule ccontr)
    assume "\<not> pg_time (sv_pg sv) s' < t0"
    moreover obtain r where "r \<in> set (notifications s)" "n = row_view r" using rows_Some [OF n(1)] by blast
    ultimately have "r \<in> set ?l" using n(2,3) by auto
    moreover have "take 500 ?l = []" using ns [OF x] by (simp only: Nil_is_map_conv)
    then have "?l = []" by (simp only: take_eq_Nil) simp
    ultimately show False by simp
  qed
qed

definition due_page :: "notification list \<Rightarrow> ('p, 'r, 'h) world \<Rightarrow> bool" where
  "due_page ns w =
     (distinct (map n_ID ns) \<and>
      (\<forall>n \<in> set ns. rows (w_db w) (n_ID n) = Some n \<and> n_Status n = StatusScheduled \<and>
         (\<exists>t0. n_ScheduledAt n = Some t0 \<and> t0 \<le> pg_time (sv_pg sv) (w_db w))))"

lemma due_page_step:
  assumes page: "due_page (n # ns) w" and other: "\<And>j. j \<noteq> n_ID n \<Longrightarrow> rows (w_db w2) j = rows (w_db w) j"
    and time: "pg_time (sv_pg sv) (w_db w) \<le> pg_time (sv_pg sv) (w_db w2)"
  shows "due_page ns w2"
proof -
  have "rows (w_db w2) (n_ID m) = Some m \<and> n_Status m = StatusScheduled \<and>
      (\<exists>t0. n_ScheduledAt m = Some t0 \<and> t0 \<le> pg_time (sv_pg sv) (w_db w2))" if m: "m \<in> set ns" for m
  proof -
    have "distinct (map n_ID (n # ns))" using page unfolding due_page_def by blast
    then have "n_ID m \<noteq> n_ID n" using m by (metis distinct.simps(2) image_eqI list.set_map list.simps(9))
    moreover obtain t0 where "rows (w_db w) (n_ID m) = Some m" "n_Status m = StatusScheduled" "n_ScheduledAt m = Some t0"
      "t0 \<le> pg_time (sv_pg sv) (w_db w)" using page m unfolding due_page_def by (meson list.set_intros(2))
    ultimately show ?thesis using other [of "n_ID m"] time order_trans by auto
  qed
  moreover have "distinct (map n_ID ns)" using page unfolding due_page_def by simp
  ultimately show ?thesis unfolding due_page_def by blast
qed

lemma schedule_all_schedules:
  assumes "world_inv (sv_pg sv) w" "due_page ns w"
  shows "schedules sv w (schedule_all sv ns w)"
  using assms
proof (induction ns arbitrary: w)
  case Nil
  then show ?case by (simp add: schedules_def)
next
  case (Cons n ns)
  obtain e w1 where enq: "worker_Enqueue sv (scheduled_message n) w = (e, w1)" by fastforce
  note f = worker_Enqueue_frame [OF enq]
  obtain t0 where n: "rows (w_db w) (n_ID n) = Some n" "n_Status n = StatusScheduled" "n_ScheduledAt n = Some t0"
    "t0 \<le> pg_time (sv_pg sv) (w_db w)"
    using Cons.prems(2) by (auto simp: due_page_def)
  show ?case
  proof (cases e)
    case None
    obtain e2 w2 where upd: "repo_UpdateStatus (worker_repo (sv_pg sv)) (n_ID n) StatusQueued w1 = (e2, w2)" by fastforce
    note one = schedule_one [OF Cons.prems(1) n enq [unfolded None] upd]
    have s: "world_inv (sv_pg sv) w2" "pg_time (sv_pg sv) (w_db w) \<le> pg_time (sv_pg sv) (w_db w2)"
      using one(1) by (simp_all add: schedules_def)
    have "schedules sv w2 (schedule_all sv ns w2)"
      by (rule Cons.IH [OF s(1) due_page_step [OF Cons.prems(2) one(2) s(2)]])
    from schedules_trans [OF one(1) this] show ?thesis by (simp only: schedule_all.simps enq None upd option.simps prod.case snd_conv)
  next
    case (Some x)
    have "requeues w w1" using f(1-4) by (simp add: requeues_def)
    from requeues_schedules [OF Cons.prems(1) this] have s: "schedules sv w w1" .
    then have "world_inv (sv_pg sv) w1" by (simp add: schedules_def)
    then have "schedules sv w1 (schedule_all sv ns w1)"
      using Cons.IH [of w1] due_page_step [OF Cons.prems(2), of w1] f(1) by simp
    from schedules_trans [OF s this] show ?thesis by (simp add: enq Some)
  qed
qed

lemma page_read:
  assumes "world_inv (sv_pg sv) w" "repo_GetPendingScheduled (worker_repo (sv_pg sv)) w = (x, w1)"
  shows "schedules sv w w1" "x = Inr ns \<Longrightarrow> due_page ns w1" "rows (w_db w1) = rows (w_db w)"
    "w_redis w1 = w_redis w"
proof -
  obtain s where s: "NotificationRepo_GetPendingScheduled (sv_pg sv) (w_db w) = (x, s)" "w1 = w\<lparr>w_db := s\<rparr>"
    using assms(2) by (auto simp: on_db_eq)
  have inv: "db_inv (sv_pg sv) (w_db w)" using assms(1) by (simp add: world_inv_def)
  note g = GetPendingScheduled_spec [OF inv s(1)]
  show r: "rows (w_db w1) = rows (w_db w)" using g(1) by (auto simp: same_db_def s(2))
  show "due_page ns w1" if "x = Inr ns" using g(3) [OF that] r by (simp add: due_page_def s(2))
  show "schedules sv w w1"
    using assms(1) g(1,2) r same_dbD(2) [OF g(1)] by (simp add: schedules_def s(2) world_inv_def queued_def)
  show "w_redis w1 = w_redis w" by (simp add: s(2))
qed

lemma poll_loop_schedules:
  assumes "poll_loop sv w = Some w'" "world_inv (sv_pg sv) w"
  shows "schedules sv w w'"
proof -
  let ?P = "\<lambda>sv' w w'. sv' = sv \<longrightarrow> world_inv (sv_pg sv) w \<longrightarrow> schedules sv w w'"
  have "?P sv w w'"
  proof (rule poll_loop.raw_induct [of ?P sv w w'], goal_cases)
    case (1 loop sv' w w')
    have "schedules sv w w'" if sv': "sv' = sv" and inv: "world_inv (sv_pg sv) w"
    proof -
      obtain x w1 where page: "repo_GetPendingScheduled (worker_repo (sv_pg sv)) w = (x, w1)" by fastforce
      note p = page_read [OF inv page]
      show ?thesis
      proof (cases "\<exists>ns. x = Inr ns \<and> ns \<noteq> []")
        case True
        then obtain ns where ns: "x = Inr ns" "ns \<noteq> []" by blast
        have inv1: "world_inv (sv_pg sv) w1" using p(1) by (simp add: schedules_def)
        note s = schedule_all_schedules [OF inv1 p(2) [OF ns(1)]]
        have inv2: "world_inv (sv_pg sv) (schedule_all sv ns w1)" using s by (simp add: schedules_def)
        have "loop sv (schedule_all sv ns w1) = Some w'" using 1(2) sv' page ns by simp
        from 1(1) [OF this] inv2 have "schedules sv (schedule_all sv ns w1) w'" by blast
        then show ?thesis using p(1) s schedules_trans by blast
      next
        case False
        then have "w' = w1" using 1(2) sv' page by (auto split: sum.splits if_splits)
        then show ?thesis using p(1) by simp
      qed
    qed
    then show ?case by blast
  qed (rule assms(1))
  then show ?thesis using assms(2) by blast
qed

lemma poll_schedules:
  assumes "Scheduler_poll sv w = Some w'" "world_inv (sv_pg sv) w"
  shows "schedules sv w w'"
proof -
  obtain x r where lock: "remote (rd_net (sv_rd sv)) (rd_setnx (sv_rd sv) schedulerLockKey ''1'' schedulerLockTTL) (w_redis w) = (x, r)"
    by fastforce
  let ?w1 = "w\<lparr>w_redis := r\<rparr>"
  have z: "rd_zset (sv_rd sv) r = rd_zset (sv_rd sv) (w_redis w)"
    using lock by (cases rule: remote_cases) (auto simp: net_state setnx_state)
  have "in_zset (sv_rd sv) (sv_js sv) k r m = in_zset (sv_rd sv) (sv_js sv) k (w_redis w) m" for k m by (rule in_zset_same [OF z])
  then have "requeues w ?w1" by (simp add: requeues_def queued_iff subset_iff)
  note s1 = requeues_schedules [OF assms(2) this]
  show ?thesis
  proof (cases "x = Inr True")
    case True
    obtain w2 where w2: "poll_loop sv ?w1 = Some w2" "w' = reclaimExpiredProcessing sv (promoteDelayedRetries sv w2)"
      using assms(1) lock True by (auto simp: Scheduler_poll_def on_redis_def)
    have s2: "schedules sv ?w1 w2" using poll_loop_schedules [OF w2(1)] s1 by (simp add: schedules_def)
    have "requeues w2 w'" using requeues_trans [OF promote_requeues reclaim_requeues] by (simp add: w2(2))
    moreover have "world_inv (sv_pg sv) w2" using s2 by (simp add: schedules_def)
    ultimately have "schedules sv w2 w'" by (intro requeues_schedules)
    then show ?thesis using schedules_trans [OF schedules_trans [OF s1 s2]] by blast
  next
    case False
    then have "w' = ?w1" using assms(1) lock by (auto simp: Scheduler_poll_def on_redis_def split: sum.splits if_splits)
    then show ?thesis using s1 by simp
  qed
qed

end

section \<open>When the inner loop ends\<close>

definition redis_up :: "'r redis \<Rightarrow> bool" where
  "redis_up rd = (\<forall>r. fst (rd_net rd r) = Delivered)"

definition pg_up :: "'p pg \<Rightarrow> bool" where
  "pg_up pg = (\<forall>c. fst (pg_net pg c) = Delivered)"

definition redis_down :: "'r redis \<Rightarrow> bool" where
  "redis_down rd = (\<forall>r. \<exists>e. fst (rd_net rd r) = LostRequest e)"

lemma rd_do_up: "redis_up rd \<Longrightarrow> fst (rd_do rd f r) = None"
  by (simp add: redis_up_def rd_do_def remote_def split: prod.splits fault.splits) (metis fault.distinct fst_conv)

lemma rd_do_down: "redis_down rd \<Longrightarrow> fst (rd_do rd f r) \<noteq> None"
  by (simp add: redis_down_def rd_do_def remote_def split: prod.splits fault.splits) (metis fault.distinct fst_conv)

lemma pg_call_up: "pg_up pg \<Longrightarrow> pg_call pg f s = f (s\<lparr>pg_conn := snd (pg_net pg (pg_conn s))\<rparr>)"
  by (auto simp: pg_up_def pg_call_def remote_def Let_def split: prod.splits fault.splits sum.splits)
    (metis fault.distinct fst_conv)+

lemma status_checks [simp]:
  "status_check StatusPending" "status_check StatusScheduled" "status_check StatusQueued" "status_check StatusProcessing"
  "status_check StatusSent" "status_check StatusFailed" "status_check StatusCancelled"
  by (simp_all add: status_check_def)

context pg_server
begin

lemma status_text: "status_check st \<Longrightarrow> pg_text pg st \<and> pg_varchar pg 20 st"
  using text_ascii [of st] varchar_ascii [of st 20] by (auto simp: status_check_def ascii_def status_defs)

lemma row_error_status: "row_error pg r = None \<Longrightarrow> status_check st \<Longrightarrow> row_error pg (set_status st t r) = None"
  using status_text [of st] by (auto simp: row_error_def set_status_def split: if_splits)

lemma update_status_where:
  assumes "db_inv pg s" "status_check st"
  shows "\<exists>rs s'. update_where pg P (set_status st t) (s\<lparr>pg_conn := c\<rparr>) = (Inr rs, s')"
proof -
  have "first_error pg (map (set_status st t) (filter P (notifications s))) = None"
    using assms row_error_status by (auto simp: db_inv_def)
  then show ?thesis by (simp add: update_where_def del: first_error_None)
qed

lemma UpdateStatus_up:
  assumes "pg_up pg" "db_inv pg s" "status_check st"
  shows "fst (NotificationRepo_UpdateStatus pg i st s) = None"
proof -
  obtain rs s' where "updateNotificationStatus pg i st (s\<lparr>pg_conn := snd (pg_net pg (pg_conn s))\<rparr>) = (Inr rs, s')"
    unfolding updateNotificationStatus_def using status_text [OF assms(3)] update_status_where [OF assms(2,3)] by metis
  then show ?thesis by (simp add: NotificationRepo_UpdateStatus_def pg_call_up [OF assms(1)])
qed

end

context scheduler_env
begin

definition waiting_rows :: "('p, 'r, 'h) world \<Rightarrow> uuid set" where
  "waiting_rows w = {i. \<exists>n. rows (w_db w) i = Some n \<and> n_Status n = StatusScheduled}"

lemma finite_waiting_rows: "finite (waiting_rows w)"
proof -
  have "waiting_rows w \<subseteq> n_ID ` set (notifications (w_db w))" by (auto simp: waiting_rows_def dest: rows_Some)
  then show ?thesis using finite_surj by blast
qed

lemma schedules_waiting: "schedules sv w w' \<Longrightarrow> waiting_rows w' \<subseteq> waiting_rows w"
proof
  fix i assume s: "schedules sv w w'" and i: "i \<in> waiting_rows w'"
  have "n_Status (set_status StatusQueued t n) \<noteq> StatusScheduled" for t and n :: notification by (simp add: set_status_def)
  moreover obtain n where "rows (w_db w') i = Some n" "n_Status n = StatusScheduled" using i by (auto simp: waiting_rows_def)
  moreover have "scheduled_row sv w w' i" using s by (simp add: schedules_def)
  ultimately have "rows (w_db w') i = rows (w_db w) i" by (auto simp: scheduled_row_def)
  then show "i \<in> waiting_rows w" using i by (simp add: waiting_rows_def)
qed

text \<open>With both services up, every page makes progress.\<close>

lemma page_progress:
  assumes up: "redis_up (sv_rd sv)" "pg_up (sv_pg sv)" and inv: "world_inv (sv_pg sv) w"
    and page: "due_page (n # ns) w"
  shows "waiting_rows (schedule_all sv (n # ns) w) \<subset> waiting_rows w"
proof -
  obtain t0 where n: "rows (w_db w) (n_ID n) = Some n" "n_Status n = StatusScheduled" "n_ScheduledAt n = Some t0"
    "t0 \<le> pg_time (sv_pg sv) (w_db w)"
    using page unfolding due_page_def by (meson list.set_intros(1))
  obtain e w1 where enq: "worker_Enqueue sv (scheduled_message n) w = (e, w1)" by fastforce
  have "\<exists>d. marshal (sv_js sv) (scheduled_message n) = Inr d"
    using marshal_ok scheduled_valid [OF inv n(1)] by (simp add: scheduled_message_def)
  then have "e = None"
    using enq rd_do_up [OF up(1)] by (auto simp: worker_Enqueue_def on_redis_eq Producer_Enqueue_def) (metis fst_conv option.distinct(1))
  obtain e2 w2 where upd: "repo_UpdateStatus (worker_repo (sv_pg sv)) (n_ID n) StatusQueued w1 = (e2, w2)" by fastforce
  have "db_inv (sv_pg sv) (w_db w1)" using worker_Enqueue_frame [OF enq] inv by (simp add: world_inv_def)
  then have "e2 = None" using upd UpdateStatus_up [OF up(2), of "w_db w1" StatusQueued "n_ID n"] by (auto simp: on_db_eq)
  note one = schedule_one [OF inv n enq [unfolded \<open>e = None\<close>] upd]
  have inv2: "world_inv (sv_pg sv) w2" and tm: "pg_time (sv_pg sv) (w_db w) \<le> pg_time (sv_pg sv) (w_db w2)"
    using one(1) by (simp_all add: schedules_def)
  have "schedules sv w2 (schedule_all sv ns w2)"
    by (rule schedule_all_schedules [OF inv2 due_page_step [OF page one(2) tm]])
  then have "waiting_rows (schedule_all sv ns w2) \<subseteq> waiting_rows w2" by (rule schedules_waiting)
  moreover have "waiting_rows w2 \<subseteq> waiting_rows w" by (rule schedules_waiting [OF one(1)])
  moreover have "n_ID n \<in> waiting_rows w" using n(1,2) by (auto simp: waiting_rows_def)
  moreover have "n_ID n \<notin> waiting_rows w2"
    using one(3) \<open>e2 = None\<close> by (auto simp: waiting_rows_def set_status_def)
  ultimately show ?thesis using enq upd \<open>e = None\<close> by auto
qed

lemma poll_loop_returns:
  assumes up: "redis_up (sv_rd sv)" "pg_up (sv_pg sv)" and "world_inv (sv_pg sv) w"
  shows "\<exists>w'. poll_loop sv w = Some w'"
  using assms(3)
proof (induction "card (waiting_rows w)" arbitrary: w rule: less_induct)
  case less
  obtain x w1 where page: "repo_GetPendingScheduled (worker_repo (sv_pg sv)) w = (x, w1)" by fastforce
  note p = page_read [OF less.prems page]
  show ?case
  proof (cases "\<exists>n ns. x = Inr (n # ns)")
    case True
    then obtain n ns where x: "x = Inr (n # ns)" by blast
    have inv1: "world_inv (sv_pg sv) w1" using p(1) by (simp add: schedules_def)
    have "waiting_rows w1 = waiting_rows w" by (simp add: waiting_rows_def p(3))
    then have "card (waiting_rows (schedule_all sv (n # ns) w1)) < card (waiting_rows w)"
      using page_progress [OF up inv1 p(2) [OF x]] psubset_card_mono [OF finite_waiting_rows] by metis
    moreover have "world_inv (sv_pg sv) (schedule_all sv (n # ns) w1)"
      using schedule_all_schedules [OF inv1 p(2) [OF x]] unfolding schedules_def by blast
    ultimately obtain w' where "poll_loop sv (schedule_all sv (n # ns) w1) = Some w'" using less.hyps by blast
    then have "poll_loop sv w = Some w'" using page x by (subst poll_loop.simps) simp
    then show ?thesis by blast
  next
    case False
    then have "poll_loop sv w = Some w1" using page by (subst poll_loop.simps) (auto simp: neq_Nil_conv split: sum.splits)
    then show ?thesis by blast
  qed
qed

lemma poll_returns:
  assumes "redis_up (sv_rd sv)" "pg_up (sv_pg sv)" "world_inv (sv_pg sv) w"
  shows "\<exists>w'. Scheduler_poll sv w = Some w'"
proof -
  have "\<exists>w'. poll_loop sv (w\<lparr>w_redis := r\<rparr>) = Some w'" for r
    using poll_loop_returns [OF assms(1,2), of "w\<lparr>w_redis := r\<rparr>"] assms(3) by (simp add: world_inv_def)
  then show ?thesis by (auto simp: Scheduler_poll_def on_redis_def split: prod.splits sum.splits)
qed

lemma select_where_set:
  "\<exists>rs. select_where (sv_pg sv) P key l (s\<lparr>pg_conn := c\<rparr>) = (Inr rs, s\<lparr>pg_conn := c\<rparr>) \<and> set rs \<subseteq> set (notifications s)"
proof -
  have "set (take l (sort_key key (pg_order (sv_pg sv) c (filter P (notifications s))))) \<subseteq> set (notifications s)"
    using set_take_subset [of l "sort_key key (pg_order (sv_pg sv) c (filter P (notifications s)))"] by auto
  then show ?thesis by (simp add: select_where_def)
qed

text \<open>While Redis refuses every request, a due notification keeps the loop running.\<close>

lemma Enqueue_down:
  assumes "redis_down (sv_rd sv)" "worker_Enqueue sv msg w = (e, w1)"
  shows "e \<noteq> None"
proof -
  obtain r where r: "Producer_Enqueue (sv_rd sv) (sv_js sv) (env_now (sv_env sv) (w_tick w)) msg (w_redis w) = (e, r)"
    using assms(2) by (auto simp: worker_Enqueue_def on_redis_eq)
  then show ?thesis
    using rd_do_down [OF assms(1)] by (auto simp: Producer_Enqueue_def split: sum.splits) (metis fst_conv)
qed

lemma schedule_all_down:
  assumes "redis_down (sv_rd sv)"
  shows "w_db (schedule_all sv ns w) = w_db w \<and> w_metrics (schedule_all sv ns w) = w_metrics w"
proof (induction ns arbitrary: w)
  case (Cons n ns)
  obtain e w1 where enq: "worker_Enqueue sv (scheduled_message n) w = (e, w1)" by fastforce
  obtain x where x: "e = Some x" using Enqueue_down [OF assms enq] by blast
  show ?case using Cons.IH [of w1] worker_Enqueue_frame(1,3) [OF enq] by (simp add: enq x)
qed simp

lemma page_up:
  fixes w :: "('p, 'r, 'h) world"
  assumes "pg_up (sv_pg sv)" "world_inv (sv_pg sv) w" "repo_GetPendingScheduled (worker_repo (sv_pg sv)) w = (x, w1)"
    and "rows (w_db w) i = Some n" "n_Status n = StatusScheduled" "n_ScheduledAt n = Some t0" "t0 \<le> pg_time (sv_pg sv) (w_db w)"
  obtains ns where "x = Inr ns" "ns \<noteq> []" "world_inv (sv_pg sv) w1" "rows (w_db w1) = rows (w_db w)"
    "t0 \<le> pg_time (sv_pg sv) (w_db w1)"
proof -
  note p = page_read [OF assms(2,3)]
  obtain s where s: "NotificationRepo_GetPendingScheduled (sv_pg sv) (w_db w) = (x, s)" "w1 = w\<lparr>w_db := s\<rparr>"
    using assms(3) by (auto simp: on_db_eq)
  have inv: "db_inv (sv_pg sv) (w_db w)" using assms(2) by (simp add: world_inv_def)
  let ?s = "(w_db w)\<lparr>pg_conn := snd (pg_net (sv_pg sv) (pg_conn (w_db w)))\<rparr>"
  obtain rs where q: "selectPendingScheduled (sv_pg sv) 500 ?s = (Inr rs, ?s)" "set rs \<subseteq> set (notifications (w_db w))"
    using select_where_set unfolding selectPendingScheduled_def by blast
  have rs: "scanNotifications rs = x" "set rs \<subseteq> set (notifications (w_db w))"
    using s(1) q by (simp_all add: NotificationRepo_GetPendingScheduled_def query_rows_def pg_call_up [OF assms(1)])
  have "\<forall>r \<in> set rs. vars_ok (r_vars r)" using rs(2) inv by (auto simp: db_inv_def)
  then obtain ns where ns: "x = Inr ns" using rs(1) scanNotifications_ok by metis
  have t: "t0 \<le> pg_time (sv_pg sv) (w_db w1)" using GetPendingScheduled_spec(2) [OF inv s(1)] assms(7) by (simp add: s(2))
  have "ns \<noteq> []" using GetPendingScheduled_spec(4) [OF inv s(1) _ assms(4-6)] ns t by (auto simp: s(2))
  then show ?thesis using that ns p(1,3) t by (simp add: schedules_def)
qed

lemma poll_loop_stuck:
  assumes down: "redis_down (sv_rd sv)" and up: "pg_up (sv_pg sv)" and "world_inv (sv_pg sv) w"
    and "rows (w_db w) i = Some n" "n_Status n = StatusScheduled" "n_ScheduledAt n = Some t0" "t0 \<le> pg_time (sv_pg sv) (w_db w)"
  shows "poll_loop sv w = None"
proof -
  let ?stuck = "\<lambda>w. world_inv (sv_pg sv) w \<and> rows (w_db w) i = Some n \<and> t0 \<le> pg_time (sv_pg sv) (w_db w)"
  let ?P = "\<lambda>sv' w w'. sv' = sv \<longrightarrow> ?stuck w \<longrightarrow> False"
  have "?P sv w w'" if run: "poll_loop sv w = Some w'" for w'
  proof (rule poll_loop.raw_induct [of ?P sv w w'], goal_cases)
    case (1 loop sv' w w')
    have False if sv': "sv' = sv" and st: "?stuck w"
    proof -
      obtain x w1 where page: "repo_GetPendingScheduled (worker_repo (sv_pg sv)) w = (x, w1)" by fastforce
      obtain ns where ns: "x = Inr ns" "ns \<noteq> []" "world_inv (sv_pg sv) w1" "rows (w_db w1) = rows (w_db w)"
          "t0 \<le> pg_time (sv_pg sv) (w_db w1)"
        using page_up [OF up _ page] st assms(5,6) by metis
      have "loop sv (schedule_all sv ns w1) = Some w'" using 1(2) sv' page ns by simp
      moreover have "?stuck (schedule_all sv ns w1)"
        using ns st schedule_all_down [OF down] by (simp add: world_inv_def)
      ultimately show False using 1(1) by blast
    qed
    then show ?case by blast
  qed (rule run)
  then show ?thesis using assms(3,4,7) by (metis not_None_eq)
qed

end

section \<open>Expired messages return\<close>

context worker
begin

text \<open>What the requeueing of a processing set does to the sorted sets.\<close>

lemma requeue_all_sets:
  assumes "key = processingPrefix @ c"
  shows "c' \<noteq> c \<Longrightarrow> rd_zset (sv_rd sv) (w_redis (requeue_all sv key ms w)) (processingPrefix @ c') =
      rd_zset (sv_rd sv) (w_redis w) (processingPrefix @ c')"
    and "valid_message m \<Longrightarrow> in_zset (sv_rd sv) (sv_js sv) (queuePrefix @ c') (w_redis w) m \<Longrightarrow>
      in_zset (sv_rd sv) (sv_js sv) (queuePrefix @ c') (w_redis (requeue_all sv key ms w)) m"
    and "in_zset (sv_rd sv) (sv_js sv) key (w_redis (requeue_all sv key ms w)) m \<Longrightarrow>
      in_zset (sv_rd sv) (sv_js sv) key (w_redis w) m"
proof -
  have enq_proc: "rd_zset (sv_rd sv) (w_redis w1) (processingPrefix @ d) = rd_zset (sv_rd sv) (w_redis u) (processingPrefix @ d)"
    if enq: "worker_Enqueue sv msg u = (e, w1)" for msg u e w1 d
  proof -
    obtain r where r: "Producer_Enqueue (sv_rd sv) (sv_js sv) (env_now (sv_env sv) (w_tick u)) msg (w_redis u) = (e, r)"
      "w1 = (advance 1 u)\<lparr>w_redis := r\<rparr>"
      using enq by (auto simp: worker_Enqueue_def on_redis_eq)
    then show ?thesis
      using zadd_effect(2) by (auto simp: Producer_Enqueue_def Let_def split: sum.splits) (metis fun_upd_other queue_keys(4))
  qed
  have step: "(c' \<noteq> c \<longrightarrow> rd_zset (sv_rd sv) (w_redis (requeue_all sv key ms w)) (processingPrefix @ c') =
        rd_zset (sv_rd sv) (w_redis w) (processingPrefix @ c')) \<and>
      (valid_message m \<longrightarrow> in_zset (sv_rd sv) (sv_js sv) (queuePrefix @ c') (w_redis w) m \<longrightarrow>
        in_zset (sv_rd sv) (sv_js sv) (queuePrefix @ c') (w_redis (requeue_all sv key ms w)) m) \<and>
      z_members (rd_zset (sv_rd sv) (w_redis (requeue_all sv key ms w)) key) \<subseteq> z_members (rd_zset (sv_rd sv) (w_redis w) key)"
  proof (induction ms arbitrary: w)
    case (Cons d ms)
    show ?case
    proof (cases "unmarshal (sv_js sv) d")
      case (Inr msg)
      obtain e w1 where enq: "worker_Enqueue sv msg w = (e, w1)" by fastforce
      have mono: "in_zset (sv_rd sv) (sv_js sv) k (w_redis w) m' \<Longrightarrow> in_zset (sv_rd sv) (sv_js sv) k (w_redis w1) m'" for k m'
        using enq Enqueue_mono by (auto simp: worker_Enqueue_def on_redis_eq)
      show ?thesis
      proof (cases e)
        case None
        obtain e' r2 where rem: "rd_do (sv_rd sv) (rd_zrem (sv_rd sv) key [d]) (w_redis w1) = (e', r2)" by fastforce
        have eq: "requeue_all sv key (d # ms) w = requeue_all sv key ms (w1\<lparr>w_redis := r2\<rparr>)"
          by (simp add: Inr enq None on_redis_def rem)
        have z: "rd_zset (sv_rd sv) r2 = rd_zset (sv_rd sv) (w_redis w1) \<or>
            rd_zset (sv_rd sv) r2 = (rd_zset (sv_rd sv) (w_redis w1))(key := z_rem [d] (rd_zset (sv_rd sv) (w_redis w1) key))"
          by (rule zrem_effect(2) [OF rem])
        have 1: "rd_zset (sv_rd sv) r2 (processingPrefix @ c') = rd_zset (sv_rd sv) (w_redis w) (processingPrefix @ c')" if "c' \<noteq> c"
          using z enq_proc [OF enq, of c'] that assms by auto
        have 2: "z_members (rd_zset (sv_rd sv) r2 key) \<subseteq> z_members (rd_zset (sv_rd sv) (w_redis w) key)"
          using z enq_proc [OF enq, of c] assms by auto
        have 3: "in_zset (sv_rd sv) (sv_js sv) (queuePrefix @ c') r2 m"
          if "valid_message m" "in_zset (sv_rd sv) (sv_js sv) (queuePrefix @ c') (w_redis w) m"
          using zrem_member [OF rem Inr that(1)] mono [OF that(2)] assms by simp
        show ?thesis unfolding eq using Cons.IH [of "w1\<lparr>w_redis := r2\<rparr>"] 1 2 3 by auto
      next
        case (Some x)
        have "rd_zset (sv_rd sv) (w_redis w1) key = rd_zset (sv_rd sv) (w_redis w) key" using enq_proc [OF enq] assms by simp
        then show ?thesis using Cons.IH [of w1] mono enq_proc [OF enq, of c'] by (auto simp: Inr enq Some)
      qed
    qed (use Cons.IH in simp)
  qed simp
  show "c' \<noteq> c \<Longrightarrow> rd_zset (sv_rd sv) (w_redis (requeue_all sv key ms w)) (processingPrefix @ c') =
      rd_zset (sv_rd sv) (w_redis w) (processingPrefix @ c')" using step by blast
  show "valid_message m \<Longrightarrow> in_zset (sv_rd sv) (sv_js sv) (queuePrefix @ c') (w_redis w) m \<Longrightarrow>
      in_zset (sv_rd sv) (sv_js sv) (queuePrefix @ c') (w_redis (requeue_all sv key ms w)) m" using step by blast
  show "in_zset (sv_rd sv) (sv_js sv) key (w_redis (requeue_all sv key ms w)) m \<Longrightarrow>
      in_zset (sv_rd sv) (sv_js sv) key (w_redis w) m" using step by (auto simp: in_zset_def split: sum.splits)
qed

lemma requeue_one:
  assumes up: "redis_up (sv_rd sv)" and m: "valid_message m" "marshal (sv_js sv) m = Inr d" and key: "key = processingPrefix @ c"
  shows "\<exists>w2. requeue_all sv key (d # ms) w = requeue_all sv key ms w2 \<and>
    in_zset (sv_rd sv) (sv_js sv) (queuePrefix @ m_Channel m) (w_redis w2) m \<and> \<not> in_zset (sv_rd sv) (sv_js sv) key (w_redis w2) m"
proof -
  have um: "unmarshal (sv_js sv) d = Inr m" by (rule roundtrip [OF m])
  obtain e w1 where enq: "worker_Enqueue sv m w = (e, w1)" by fastforce
  have "e = None"
    using enq rd_do_up [OF up] m(2) by (auto simp: worker_Enqueue_def on_redis_eq Producer_Enqueue_def) (metis fst_conv option.distinct(1))
  then have q1: "in_zset (sv_rd sv) (sv_js sv) (queuePrefix @ m_Channel m) (w_redis w1) m"
    using worker_Enqueue_frame(5) [OF enq m(1)] by (simp add: ready_def)
  obtain e' r2 where rem: "rd_do (sv_rd sv) (rd_zrem (sv_rd sv) key [d]) (w_redis w1) = (e', r2)" by fastforce
  have "e' = None" using rd_do_up [OF up] rem by (metis fst_conv)
  then have "\<not> in_zset (sv_rd sv) (sv_js sv) key r2 m"
    using zrem_effect(1) [OF rem] m(2) by (simp add: in_zset_def)
  moreover have "in_zset (sv_rd sv) (sv_js sv) (queuePrefix @ m_Channel m) r2 m"
    using zrem_member [OF rem um m(1)] q1 key by simp
  ultimately show ?thesis
    using enq um \<open>e = None\<close> rem by (intro exI [of _ "w1\<lparr>w_redis := r2\<rparr>"]) (simp add: on_redis_def)
qed

lemma requeue_all_returns:
  assumes up: "redis_up (sv_rd sv)" and m: "valid_message m" "marshal (sv_js sv) m = Inr d" and key: "key = processingPrefix @ c"
    and "d \<in> set ms"
  shows "in_zset (sv_rd sv) (sv_js sv) (queuePrefix @ m_Channel m) (w_redis (requeue_all sv key ms w)) m \<and>
    \<not> in_zset (sv_rd sv) (sv_js sv) key (w_redis (requeue_all sv key ms w)) m"
  using assms(5)
proof (induction ms arbitrary: w)
  case (Cons d' ms)
  show ?case
  proof (cases "d' = d")
    case True
    obtain w2 where w2: "requeue_all sv key (d # ms) w = requeue_all sv key ms w2"
      "in_zset (sv_rd sv) (sv_js sv) (queuePrefix @ m_Channel m) (w_redis w2) m" "\<not> in_zset (sv_rd sv) (sv_js sv) key (w_redis w2) m"
      using requeue_one [OF up m key] by blast
    then show ?thesis
      unfolding True w2(1) using requeue_all_sets(2) [OF key m(1)] requeue_all_sets(3) [OF key] by blast
  next
    case False
    then have d: "d \<in> set ms" using Cons.prems by simp
    have "\<exists>w2. requeue_all sv key (d' # ms) w = requeue_all sv key ms w2"
      by (simp split: sum.split prod.split option.split) blast
    then show ?thesis using Cons.IH [OF d] by metis
  qed
qed simp

lemma reclaim_channel_returns:
  assumes up: "redis_up (sv_rd sv)" and m: "valid_message m" "marshal (sv_js sv) m = Inr d"
    and s: "(s, d) \<in> set (rd_zset (sv_rd sv) (w_redis w) (processingPrefix @ c))" "s \<le> float64_of_int now"
  shows "in_zset (sv_rd sv) (sv_js sv) (queuePrefix @ m_Channel m) (w_redis (reclaim_channel sv now c w)) m"
    "\<not> in_zset (sv_rd sv) (sv_js sv) (processingPrefix @ c) (w_redis (reclaim_channel sv now c w)) m"
proof -
  obtain x w1 where due: "due_members sv (processingPrefix @ c) now w = (x, w1)" by fastforce
  obtain ms where ms: "x = Inr ms" "d \<in> set ms"
  proof -
    obtain r where r: "remote (rd_net (sv_rd sv)) (\<lambda>r. (rd_zrangebyscore (sv_rd sv) (processingPrefix @ c) (float64_of_int now) r, r)) (w_redis w) = (x, r)"
      using due by (auto simp: due_members_def on_redis_eq)
    then show ?thesis
    proof (cases rule: remote_cases)
      case (delivered s1 v)
      then have "d \<in> set v" using s by (auto simp: zrangebyscore net_state)
      then show ?thesis using that delivered(3) by blast
    qed (use up in \<open>metis fault.distinct fst_conv redis_up_def\<close>)+
  qed
  then show "in_zset (sv_rd sv) (sv_js sv) (queuePrefix @ m_Channel m) (w_redis (reclaim_channel sv now c w)) m"
    "\<not> in_zset (sv_rd sv) (sv_js sv) (processingPrefix @ c) (w_redis (reclaim_channel sv now c w)) m"
    using requeue_all_returns [OF up m refl ms(2)] by (auto simp: reclaim_channel_def due)
qed

lemma reclaim_channel_other:
  shows "c' \<noteq> c \<Longrightarrow> rd_zset (sv_rd sv) (w_redis (reclaim_channel sv now c w)) (processingPrefix @ c') =
      rd_zset (sv_rd sv) (w_redis w) (processingPrefix @ c')"
    and "valid_message m \<Longrightarrow> in_zset (sv_rd sv) (sv_js sv) (queuePrefix @ c') (w_redis w) m \<Longrightarrow>
      in_zset (sv_rd sv) (sv_js sv) (queuePrefix @ c') (w_redis (reclaim_channel sv now c w)) m"
proof -
  obtain x w1 where due: "due_members sv (processingPrefix @ c) now w = (x, w1)" by fastforce
  note z = due_members_frame(5) [OF due]
  show "rd_zset (sv_rd sv) (w_redis (reclaim_channel sv now c w)) (processingPrefix @ c') =
      rd_zset (sv_rd sv) (w_redis w) (processingPrefix @ c')" if "c' \<noteq> c"
    using requeue_all_sets(1) [OF refl that] z by (auto simp: reclaim_channel_def due split: sum.splits)
  show "in_zset (sv_rd sv) (sv_js sv) (queuePrefix @ c') (w_redis (reclaim_channel sv now c w)) m"
    if v: "valid_message m" and q: "in_zset (sv_rd sv) (sv_js sv) (queuePrefix @ c') (w_redis w) m"
  proof -
    have "in_zset (sv_rd sv) (sv_js sv) (queuePrefix @ c') (w_redis w1) m" using in_zset_same [OF z] q by blast
    then show ?thesis
      using requeue_all_sets(2) [OF refl v] by (simp add: reclaim_channel_def due split: sum.splits)
  qed
qed

lemma reclaim_fold:
  assumes up: "redis_up (sv_rd sv)" and m: "valid_message m" "marshal (sv_js sv) m = Inr d"
    and s: "(s, d) \<in> set (rd_zset (sv_rd sv) (w_redis w) (processingPrefix @ c))" "s \<le> float64_of_int now"
    and "c \<in> set cs" "distinct cs"
  shows "in_zset (sv_rd sv) (sv_js sv) (queuePrefix @ m_Channel m) (w_redis (fold (reclaim_channel sv now) cs w)) m \<and>
    \<not> in_zset (sv_rd sv) (sv_js sv) (processingPrefix @ c) (w_redis (fold (reclaim_channel sv now) cs w)) m"
  using s(1) assms(6,7)
proof (induction cs arbitrary: w)
  case (Cons c1 cs)
  show ?case
  proof (cases "c1 = c")
    case True
    let ?w = "reclaim_channel sv now c w"
    have keep: "rd_zset (sv_rd sv) (w_redis (fold (reclaim_channel sv now) cs u)) (processingPrefix @ c) =
        rd_zset (sv_rd sv) (w_redis u) (processingPrefix @ c) \<and>
        (in_zset (sv_rd sv) (sv_js sv) (queuePrefix @ m_Channel m) (w_redis u) m \<longrightarrow>
         in_zset (sv_rd sv) (sv_js sv) (queuePrefix @ m_Channel m) (w_redis (fold (reclaim_channel sv now) cs u)) m)"
      if "c \<notin> set cs" for cs u
      using that
      by (induction cs arbitrary: u) (auto simp: reclaim_channel_other(1) reclaim_channel_other(2) [OF m(1)])
    have "c \<notin> set cs" using Cons.prems True by simp
    from keep [OF this, of ?w] reclaim_channel_returns [OF up m, OF _ s(2)] Cons.prems(1)
    show ?thesis by (auto simp: True in_zset_def m(2))
  next
    case False
    have "(s, d) \<in> set (rd_zset (sv_rd sv) (w_redis (reclaim_channel sv now c1 w)) (processingPrefix @ c))"
      using Cons.prems(1) reclaim_channel_other(1) [of c c1] False by auto
    from Cons.IH [OF this] Cons.prems False show ?thesis by simp
  qed
qed simp

lemma reclaim_returns:
  assumes "redis_up (sv_rd sv)" "valid_message m" "marshal (sv_js sv) m = Inr d" "Channel_Valid c"
    and "(s, d) \<in> set (rd_zset (sv_rd sv) (w_redis w) (processingPrefix @ c))" "s \<le> float64_of_int (env_now (sv_env sv) (w_tick w))"
  shows "m \<in> ready (sv_rd sv) (sv_js sv) (m_Channel m) (w_redis (reclaimExpiredProcessing sv w)) \<and>
    m \<notin> inflight (sv_rd sv) (sv_js sv) c (w_redis (reclaimExpiredProcessing sv w))"
proof -
  have cs: "distinct [ChannelSMS, ChannelEmail, ChannelPush]" by (simp add: channel_defs)
  have c: "c \<in> set [ChannelSMS, ChannelEmail, ChannelPush]" using assms(4) by (simp add: Channel_Valid_def)
  have "(s, d) \<in> set (rd_zset (sv_rd sv) (w_redis (advance 1 w)) (processingPrefix @ c))" using assms(5) by simp
  from reclaim_fold [OF assms(1-3) this assms(6) c cs] assms(2)
  show ?thesis unfolding reclaimExpiredProcessing_def Let_def ready_def inflight_def by blast
qed

text \<open>The lock: a poll that does not get it changes nothing.\<close>

lemma poll_locked:
  assumes "rd_net (sv_rd sv) (w_redis w) = (Delivered, r1)" "rd_has (sv_rd sv) r1 schedulerLockKey"
  shows "\<exists>w'. Scheduler_poll sv w = Some w' \<and> w_db w' = w_db w \<and> rd_zset (sv_rd sv) (w_redis w') = rd_zset (sv_rd sv) (w_redis w)"
proof -
  obtain b r2 where r2: "rd_setnx (sv_rd sv) schedulerLockKey ''1'' schedulerLockTTL r1 = (b, r2)" by fastforce
  have b: "\<not> b" using setnx_result [of schedulerLockKey "''1''" schedulerLockTTL r1] r2 assms(2) by simp
  have "rd_zset (sv_rd sv) r2 = rd_zset (sv_rd sv) (w_redis w)" using setnx_state [OF r2] net_state [OF assms(1)] by simp
  then show ?thesis
    using b by (simp add: Scheduler_poll_def on_redis_def remote_def assms(1) r2)
qed

end

section \<open>A scheduler in memory\<close>

text \<open>The services in memory with a network that always works, and with a Redis that is down.\<close>

definition steady_pg :: "(nat list \<times> time) pg" where
  "steady_pg = mem_pg\<lparr>pg_net := (\<lambda>c. (Delivered, (fst c, snd c + 10 ^ 6)))\<rparr>"

definition mem_down :: "mem redis" where
  "mem_down = mem_redis\<lparr>rd_net := (\<lambda>r. (LostRequest (Err ''connection refused''), r))\<rparr>"

definition ex_sched :: "mem redis \<Rightarrow> (nat list \<times> time, mem, int result list \<times> string list) services" where
  "ex_sched rd = ex_sv\<lparr>sv_pg := steady_pg, sv_rd := rd\<rparr>"

definition ex_due :: notification where
  "ex_due = (ex_pending ''a'' None)\<lparr>n_Status := StatusScheduled, n_ScheduledAt := Some 5000\<rparr>"

definition ex_due_world :: "(nat list \<times> time, mem, int result list \<times> string list) world" where
  "ex_due_world =
     new_worker 5 (30 * 10 ^ 9) (snd (NotificationRepo_Create steady_pg ex_due (empty_db ([], 0)))) (mem_init []) ([], [])"

lemma ex_sched_sel [simp]:
  "sv_pg (ex_sched rd) = steady_pg" "sv_rd (ex_sched rd) = rd" "sv_js (ex_sched rd) = text_codec"
  "sv_ht (ex_sched rd) = mem_http" "sv_env (ex_sched rd) = sv_env ex_sv"
  by (simp_all add: ex_sched_def)

interpretation spg: pg_server steady_pg
  by unfold_locales (auto simp: steady_pg_def mem_pg_def ascii_def)

interpretation mem_down: redis_server mem_down
  by unfold_locales (auto simp: mem_down_def mem_eval zlist [simplified] fun_eq_iff)

lemma ex_scheduler:
  assumes "redis_server rd"
  shows "scheduler_env (ex_sched rd)"
proof -
  have "redis_queue rd text_codec" by (rule redis_queue.intro [OF assms tc.msg_codec_axioms])
  then have "worker (ex_sched rd)"
    by (intro worker.intro) (simp_all add: spg.pg_server_axioms mh.http_service_axioms)
  then show ?thesis
    by (intro scheduler_env.intro scheduler_env_axioms.intro) (simp_all add: steady_pg_def mem_pg_def)
qed

interpretation sched_up: scheduler_env "ex_sched mem_up"
  by (rule ex_scheduler) (rule mem_up.redis_server_axioms)

interpretation sched_down: scheduler_env "ex_sched mem_down"
  by (rule ex_scheduler) (rule mem_down.redis_server_axioms)

lemma ex_networks: "redis_up mem_up" "pg_up steady_pg" "redis_down mem_down"
  by (simp_all add: redis_up_def redis_down_def pg_up_def mem_up_def mem_down_def steady_pg_def)

lemma ex_due_inv: "world_inv steady_pg ex_due_world"
proof -
  have "db_inv steady_pg (snd (NotificationRepo_Create steady_pg ex_due (empty_db ([], 0))))"
    using spg.repo_exec_inv [OF db_inv_empty, of "OpCreate ex_due"] by simp
  then show ?thesis by (simp add: world_inv_def ex_due_world_def new_worker_def metrics_ok_new)
qed

lemma ex_due_row:
  "\<exists>n. rows (w_db ex_due_world) ''a'' = Some n \<and> n_Status n = StatusScheduled \<and> n_ScheduledAt n = Some 5000"
  "5000 \<le> pg_time steady_pg (w_db ex_due_world)"
  by (simp_all add: ex_due_world_def new_worker_def ex_due_def NotificationRepo_Create_def steady_pg_def repo_eval rows_def
      raw_def row_view_def pg_time_def)

section \<open>Properties\<close>

text \<open>
  C9. A poll never loses a message and never schedules early. Whatever the services do,
  after a call of \<open>poll\<close> that returns the invariant holds, nothing was sent, every message
  that was in a queue still is in one, and a row either stays as it was or was scheduled for
  a time that has come, is queued now, and has its message in the queue.
\<close>

theorem scheduler_poll_safe:
  assumes "scheduler_env sv" "world_inv (sv_pg sv) w" "Scheduler_poll sv w = Some w'"
  shows "world_inv (sv_pg sv) w' \<and> w_http w' = w_http w \<and> queued sv w \<subseteq> queued sv w' \<and>
    (\<forall>i. rows (w_db w') i = rows (w_db w) i \<or>
      (\<exists>n t t0. rows (w_db w) i = Some n \<and> n_Status n = StatusScheduled \<and> n_ScheduledAt n = Some t0 \<and>
         t0 \<le> pg_time (sv_pg sv) (w_db w') \<and> rows (w_db w') i = Some (set_status StatusQueued t n) \<and>
         scheduled_message n \<in> queued sv w'))"
  using scheduler_env.poll_schedules [OF assms(1,3,2)] unfolding schedules_def scheduled_row_def by blast

theorem scheduler_poll_safe_witness:
  "\<exists>w'. Scheduler_poll (ex_sched mem_down) ex_due_world = Some w' \<and> world_inv steady_pg w'"
proof -
  have "Scheduler_poll (ex_sched mem_down) ex_due_world = Some ex_due_world"
    by (simp add: Scheduler_poll_def on_redis_def remote_def mem_down_def)
  then show ?thesis
    using scheduler_poll_safe [OF sched_down.scheduler_env_axioms, of ex_due_world ex_due_world] ex_due_inv by auto
qed

text \<open>
  C27. The scheduler's loop ends while the services work: if every call reaches PostgreSQL
  and Redis and is answered, \<open>poll\<close> returns, however many notifications are due and
  become due meanwhile.
\<close>

theorem scheduler_poll_terminates:
  assumes "scheduler_env sv" "redis_up (sv_rd sv)" "pg_up (sv_pg sv)" "world_inv (sv_pg sv) w"
  shows "\<exists>w'. Scheduler_poll sv w = Some w'"
  by (rule scheduler_env.poll_returns [OF assms])

theorem scheduler_poll_terminates_witness:
  "\<exists>w'. Scheduler_poll (ex_sched mem_up) ex_due_world = Some w'"
  using scheduler_poll_terminates [OF sched_up.scheduler_env_axioms, of ex_due_world] ex_networks ex_due_inv by simp

text \<open>
  C38. The loop does not end while Redis is down: with one due notification, a database that
  answers and a Redis that refuses every request, the inner loop of \<open>poll\<close> never returns. It
  reads and tries the same page again and again, without a pause.
\<close>

theorem scheduler_loop_diverges:
  assumes "scheduler_env sv" "redis_down (sv_rd sv)" "pg_up (sv_pg sv)" "world_inv (sv_pg sv) w"
    and "rows (w_db w) i = Some n" "n_Status n = StatusScheduled" "n_ScheduledAt n = Some t0" "t0 \<le> pg_time (sv_pg sv) (w_db w)"
  shows "poll_loop sv w = None"
  by (rule scheduler_env.poll_loop_stuck [OF assms])

theorem scheduler_loop_diverges_witness: "poll_loop (ex_sched mem_down) ex_due_world = None"
  using scheduler_loop_diverges [OF sched_down.scheduler_env_axioms, of ex_due_world "''a''"] ex_networks ex_due_inv ex_due_row
  by auto

text \<open>
  C28. Expired messages come back. When Redis answers, every message in the processing set
  of a channel whose deadline has passed is in the ready set of its channel after
  \<open>reclaimExpiredProcessing\<close>, and no longer in the processing set.
\<close>

theorem expired_messages_reclaimed:
  assumes "worker sv" "redis_up (sv_rd sv)" "valid_message m" "marshal (sv_js sv) m = Inr d" "Channel_Valid c"
    and "(s, d) \<in> set (rd_zset (sv_rd sv) (w_redis w) (processingPrefix @ c))" "s \<le> float64_of_int (env_now (sv_env sv) (w_tick w))"
  shows "m \<in> ready (sv_rd sv) (sv_js sv) (m_Channel m) (w_redis (reclaimExpiredProcessing sv w)) \<and>
    m \<notin> inflight (sv_rd sv) (sv_js sv) c (w_redis (reclaimExpiredProcessing sv w))"
  by (rule worker.reclaim_returns [OF assms])

theorem expired_messages_reclaimed_witness:
  "ex_msg \<in> ready mem_up text_codec ChannelSMS (w_redis (reclaimExpiredProcessing (ex_sched mem_up)
     (advance 1 (ex_due_world\<lparr>w_redis := rd_zadd mem_up (processingPrefix @ ChannelSMS) 30 ''sms,normal,a'' (mem_init [])\<rparr>))))"
proof -
  let ?w = "advance 1 (ex_due_world\<lparr>w_redis := rd_zadd mem_up (processingPrefix @ ChannelSMS) 30 ''sms,normal,a'' (mem_init [])\<rparr>)"
  have m: "(30, ''sms,normal,a'') \<in> set (rd_zset mem_up (w_redis ?w) (processingPrefix @ ChannelSMS))"
    by (simp add: mem_up_def mem_eval)
  have t: "(30 :: float64) \<le> float64_of_int (env_now (sv_env ex_sv) (w_tick ?w))"
    by (simp add: advance_def ex_due_world_def new_worker_def f64_eval)
  show ?thesis
    using expired_messages_reclaimed [OF sched_up.worker_axioms, of ex_msg "''sms,normal,a''" ChannelSMS 30 ?w]
      ex_networks(1) ex_marshal m t by simp
qed

text \<open>
  The lock excludes other schedulers for its whole lifetime: as long as the lock key
  exists, a \<open>poll\<close> changes neither the table nor any queue. The key is not released at the
  end of \<open>poll\<close>, so after a successful poll all schedulers, the same one included, wait
  until it expires.
\<close>

theorem scheduler_lock_excludes:
  assumes "worker sv" "rd_net (sv_rd sv) (w_redis w) = (Delivered, r1)" "rd_has (sv_rd sv) r1 schedulerLockKey"
  shows "\<exists>w'. Scheduler_poll sv w = Some w' \<and> w_db w' = w_db w \<and>
    rd_zset (sv_rd sv) (w_redis w') = rd_zset (sv_rd sv) (w_redis w)"
  by (rule worker.poll_locked [OF assms])

theorem scheduler_lock_excludes_witness:
  "\<exists>w'. Scheduler_poll (ex_sched mem_up) (ex_due_world\<lparr>w_redis := (mem_init [])\<lparr>mem_keys := [schedulerLockKey]\<rparr>\<rparr>) = Some w' \<and>
     w_db w' = w_db ex_due_world"
  using scheduler_lock_excludes [OF sched_up.worker_axioms, of "ex_due_world\<lparr>w_redis := (mem_init [])\<lparr>mem_keys := [schedulerLockKey]\<rparr>\<rparr>"]
  by (auto simp: mem_up_def mem_eval)

end
