(* ===== verification/Threads.thy ===== *)
theory Threads
  imports Scheduler
begin

text \<open>
  The goroutines of a worker process, one remote call per step. A program counter says where
  a goroutine stands: \<open>pstep\<close> is the next step of \<open>ProcessBatch\<close> (\<open>internal/worker/processor.go\<close>),
  \<open>sstep\<close> the next step of \<open>poll\<close>, and \<open>Scheduler_Start\<close> the loop of \<open>Start\<close> around it
  (\<open>internal/queue/redis/scheduler.go\<close>). What happens between two remote calls is part of the
  step. The two loops at the end of \<open>poll\<close>, which move members between Redis sets, are one step
  each.

  The lemmas show that a goroutine that runs alone does exactly what the functions
  \<open>Processor_ProcessBatch\<close> and \<open>Scheduler_poll\<close> say. The theory \<open>System\<close> lets any number of them
  run together.
\<close>

section \<open>Definitions\<close>

text \<open>A batch in progress: its messages, the claimed notifications still to send, and what has been sent.\<close>

type_synonym sent_list = "(uuid \<times> string \<times> event) list"
type_synonym batch = "message list \<times> notification list \<times> sent_list"

datatype pc =
    WIdle
  | WClaim "message list"
  | WSend batch
  | WFail batch notification err
  | WDead batch notification string
  | WDeadAck batch notification string
  | WRetry batch notification string
  | WRetryAck batch notification string duration
  | WMark "message list" sent_list
  | WAck "message list" sent_list

definition failed_message :: "batch \<Rightarrow> notification \<Rightarrow> message" where
  "failed_message b n = msgMap (fst b) (n_ID n)"

fun pstep :: "'w processor \<Rightarrow> pc \<Rightarrow> 'w \<Rightarrow> (pc \<times> 'w) option" where
  "pstep p WIdle w = Some (WIdle, w)"
| "pstep p (WClaim msgs) w =
     (if msgs = [] then Some (WIdle, w)
      else case repo_GetAndMarkProcessingBatch (p_repo p) (map m_NotificationID msgs) w of
        (Inl _, w1) \<Rightarrow> Some (WIdle, w1)
      | (Inr claimed, w1) \<Rightarrow> Some (if claimed = [] then WIdle else WSend (msgs, claimed, []), w1))"
| "pstep p (WSend (msgs, [], sent)) w = Some (WMark msgs sent, w)"
| "pstep p (WSend (msgs, n # ns, sent)) w =
     (case p_provider p n w of
        (Inl e, w1) \<Rightarrow> Some (WFail (msgs, ns, sent) n e, w1)
      | (Inr pid, w1) \<Rightarrow>
          (case p_IncrSent p (n_Channel n) w1 of
             None \<Rightarrow> None
           | Some w2 \<Rightarrow> Some (WSend (msgs, ns, sent @ [(n_ID n, pid, status_event ''notification.sent'' n StatusSent [])]), w2)))"
| "pstep p (WFail b n0 sendErr) w =
     (let n = n0\<lparr>n_Attempts := n_Attempts n0 + 1\<rparr>; errMsg = Error sendErr
      in case p_IncrFailed p (n_Channel n) w of
           None \<Rightarrow> None
         | Some w1 \<Rightarrow>
             if n_Attempts n \<ge> n_MaxAttempts n
             then (case repo_UpdateStatusWithError (p_repo p) (n_ID n) StatusFailed errMsg (n_Attempts n) w1 of
                     (_, w2) \<Rightarrow> Some (WDead b n errMsg, w2))
             else (case repo_UpdateStatusWithError (p_repo p) (n_ID n) StatusQueued errMsg (n_Attempts n) w1 of
                     (Some _, w2) \<Rightarrow> Some (WSend b, w2)
                   | (None, w2) \<Rightarrow> Some (WRetry b n errMsg, w2)))"
| "pstep p (WDead b n errMsg) w = (case p_Handle p (n_ID n) errMsg (n_Attempts n) w of (_, w1) \<Rightarrow> Some (WDeadAck b n errMsg, w1))"
| "pstep p (WDeadAck b n errMsg) w =
     Some (WSend b, p_Broadcast p (status_event ''notification.failed'' n StatusFailed errMsg)
       (Processor_ack p [failed_message b n] w))"
| "pstep p (WRetry b n errMsg) w =
     (case p_NextDelay p (n_Attempts n) w of (delay, w1) \<Rightarrow>
        (case p_EnqueueDelayed p (failed_message b n) delay w1 of
           (Some _, w2) \<Rightarrow> Some (WSend b, w2)
         | (None, w2) \<Rightarrow> Some (WRetryAck b n errMsg delay, w2)))"
| "pstep p (WRetryAck b n errMsg delay) w =
     Some (WSend b, p_Broadcast p (status_event ''notification.retrying'' n StatusQueued
         (''retry '' @ Itoa (n_Attempts n) @ ''/'' @ Itoa (n_MaxAttempts n) @ '' in '' @ Duration_String delay @ '': '' @ errMsg))
       (Processor_ack p [failed_message b n] w))"
| "pstep p (WMark msgs sent) w =
     Some (WAck msgs sent,
       if sent \<noteq> [] then snd (repo_UpdateBatchSent (p_repo p) (map fst sent) (map (fst \<circ> snd) sent) w) else w)"
| "pstep p (WAck msgs sent) w =
     (let w1 = Processor_ack p msgs w
      in Some (WIdle, if sent \<noteq> [] then p_BroadcastBatch p (map (snd \<circ> snd) sent) w1 else w1))"

text \<open>The loop of the scheduler. It waits for the ticker or the end of the context in \<open>SWait\<close>.\<close>

datatype spc =
    SWait
  | SLock
  | SPage
  | SEnqueue "notification list"
  | SUpdate notification "notification list"
  | SPromote
  | SReclaim
  | SStopped

text \<open>The \<open>select\<close> of \<open>Start\<close>: the context is done, or else the ticker has fired.\<close>

fun Scheduler_Start :: "bool \<Rightarrow> spc \<Rightarrow> spc" where
  "Scheduler_Start ctxDone SWait = (if ctxDone then SStopped else SLock)"
| "Scheduler_Start ctxDone c = c"

fun sstep :: "('p, 'r, 'h) services \<Rightarrow> spc \<Rightarrow> ('p, 'r, 'h) world \<Rightarrow> spc \<times> ('p, 'r, 'h) world" where
  "sstep sv SWait w = (SWait, w)"
| "sstep sv SLock w =
     (case on_redis (remote (rd_net (sv_rd sv)) (rd_setnx (sv_rd sv) schedulerLockKey ''1'' schedulerLockTTL)) w of
        (Inl _, w1) \<Rightarrow> (SWait, w1)
      | (Inr acquired, w1) \<Rightarrow> (if \<not> acquired then SWait else SPage, w1))"
| "sstep sv SPage w =
     (case repo_GetPendingScheduled (worker_repo (sv_pg sv)) w of
        (Inl _, w1) \<Rightarrow> (SPromote, w1)
      | (Inr ns, w1) \<Rightarrow> (if ns = [] then SPromote else SEnqueue ns, w1))"
| "sstep sv (SEnqueue []) w = (SPage, w)"
| "sstep sv (SEnqueue (n # ns)) w =
     (case worker_Enqueue sv (scheduled_message n) w of
        (Some _, w1) \<Rightarrow> (SEnqueue ns, w1)
      | (None, w1) \<Rightarrow> (SUpdate n ns, w1))"
| "sstep sv (SUpdate n ns) w = (SEnqueue ns, snd (repo_UpdateStatus (worker_repo (sv_pg sv)) (n_ID n) StatusQueued w))"
| "sstep sv SPromote w = (SReclaim, promoteDelayedRetries sv w)"
| "sstep sv SReclaim w = (SWait, reclaimExpiredProcessing sv w)"
| "sstep sv SStopped w = (SStopped, w)"

section \<open>A batch alone\<close>

text \<open>A number of steps of one goroutine, with nothing in between.\<close>

fun alone :: "'w processor \<Rightarrow> nat \<Rightarrow> pc \<times> 'w \<Rightarrow> (pc \<times> 'w) option" where
  "alone p 0 st = Some st"
| "alone p (Suc k) st = (case pstep p (fst st) (snd st) of None \<Rightarrow> None | Some st1 \<Rightarrow> alone p k st1)"

definition leads :: "'w processor \<Rightarrow> pc \<times> 'w \<Rightarrow> (pc \<times> 'w) option \<Rightarrow> bool" where
  "leads p st x = (\<exists>k. alone p k st = x)"

lemma leads_refl: "leads p st (Some st)"
  unfolding leads_def by (rule exI [of _ 0]) simp

lemma leads_None: "pstep p c w = None \<Longrightarrow> leads p (c, w) None"
  unfolding leads_def by (rule exI [of _ 1]) simp

lemma leads_step: "pstep p c w = Some st \<Longrightarrow> leads p st x \<Longrightarrow> leads p (c, w) x"
  unfolding leads_def by (metis alone.simps(2) fst_conv option.case(2) snd_conv)

lemma leads_last: "pstep p c w = Some st \<Longrightarrow> leads p (c, w) (Some st)"
  by (rule leads_step [OF _ leads_refl])

lemma alone_add: "alone p k st = Some st1 \<Longrightarrow> alone p (k + j) st = alone p j st1"
  by (induction k arbitrary: st) (auto split: option.splits)

lemma leads_trans: "leads p st (Some st1) \<Longrightarrow> leads p st1 x \<Longrightarrow> leads p st x"
  unfolding leads_def using alone_add by metis

lemma handleFailure_leads:
  "leads p (WFail b n e, w) (map_option (Pair (WSend b)) (Processor_handleFailure p n (failed_message b n) e w))"
proof -
  let ?n = "n\<lparr>n_Attempts := n_Attempts n + 1\<rparr>" and ?em = "Error e"
  have fm: "failed_message b ?n = failed_message b n" by (simp add: failed_message_def)
  show ?thesis
  proof (cases "p_IncrFailed p (n_Channel n) w")
    case None
    then show ?thesis using leads_None [of p "WFail b n e" w] by (simp add: Processor_handleFailure_def Let_def)
  next
    case (Some w1)
    show ?thesis
    proof (cases "n_Attempts ?n \<ge> n_MaxAttempts ?n")
      case True
      obtain x w2 where u: "repo_UpdateStatusWithError (p_repo p) (n_ID n) StatusFailed ?em (n_Attempts ?n) w1 = (x, w2)" by fastforce
      obtain y w3 where h: "p_Handle p (n_ID n) ?em (n_Attempts ?n) w2 = (y, w3)" by fastforce
      have 1: "pstep p (WFail b n e) w = Some (WDead b ?n ?em, w2)" using Some True u by (simp add: Let_def)
      have 2: "pstep p (WDead b ?n ?em) w2 = Some (WDeadAck b ?n ?em, w3)" using h by simp
      show ?thesis
        using leads_step [OF 1 leads_step [OF 2 leads_last [OF pstep.simps(7)]]] Some True u h
        by (simp add: Processor_handleFailure_def Let_def fm)
    next
      case False
      obtain x w2 where u: "repo_UpdateStatusWithError (p_repo p) (n_ID n) StatusQueued ?em (n_Attempts ?n) w1 = (x, w2)" by fastforce
      show ?thesis
      proof (cases x)
        case None
        obtain d w3 where d: "p_NextDelay p (n_Attempts ?n) w2 = (d, w3)" by fastforce
        obtain y w4 where q: "p_EnqueueDelayed p (failed_message b n) d w3 = (y, w4)" by fastforce
        have 1: "pstep p (WFail b n e) w = Some (WRetry b ?n ?em, w2)" using Some False u None by (simp add: Let_def)
        show ?thesis
        proof (cases y)
          case y: None
          have 2: "pstep p (WRetry b ?n ?em) w2 = Some (WRetryAck b ?n ?em d, w4)" using d q y by (simp add: fm)
          show ?thesis
            using leads_step [OF 1 leads_step [OF 2 leads_last [OF pstep.simps(9)]]] Some False u None d q y
            by (simp add: Processor_handleFailure_def Let_def fm)
        next
          case y: (Some e2)
          have 2: "pstep p (WRetry b ?n ?em) w2 = Some (WSend b, w4)" using d q y by (simp add: fm)
          show ?thesis
            using leads_step [OF 1 leads_last [OF 2]] Some False u None d q y
            by (simp add: Processor_handleFailure_def Let_def)
        qed
      next
        case x: (Some e2)
        have "pstep p (WFail b n e) w = Some (WSend b, w2)" using Some False u x by (simp add: Let_def)
        from leads_last [OF this] show ?thesis using Some False u x by (simp add: Processor_handleFailure_def Let_def)
      qed
    qed
  qed
qed

lemma send_loop_leads:
  "leads p (WSend (msgs, ns, sent), w)
     (case send_loop p msgs ns w of None \<Rightarrow> None | Some (sent', w') \<Rightarrow> Some (WMark msgs (sent @ sent'), w'))"
proof (induction ns arbitrary: sent w)
  case Nil
  show ?case using leads_last [OF pstep.simps(3)] by simp
next
  case (Cons n ns)
  obtain x w1 where s: "p_provider p n w = (x, w1)" by fastforce
  show ?case
  proof (cases x)
    case (Inl e)
    have 1: "pstep p (WSend (msgs, n # ns, sent)) w = Some (WFail (msgs, ns, sent) n e, w1)" using s Inl by simp
    note h = handleFailure_leads [of p "(msgs, ns, sent)" n e w1]
    show ?thesis
    proof (cases "Processor_handleFailure p n (msgMap msgs (n_ID n)) e w1")
      case None
      then show ?thesis using leads_step [OF 1 h] s Inl by (simp add: failed_message_def)
    next
      case (Some w2)
      then have "leads p (WSend (msgs, n # ns, sent), w) (Some (WSend (msgs, ns, sent), w2))"
        using leads_step [OF 1 h] by (simp add: failed_message_def)
      from leads_trans [OF this Cons.IH] show ?thesis using s Inl Some by simp
    qed
  next
    case (Inr pid)
    let ?x = "(n_ID n, pid, status_event ''notification.sent'' n StatusSent [])"
    show ?thesis
    proof (cases "p_IncrSent p (n_Channel n) w1")
      case None
      then show ?thesis using leads_None [of p "WSend (msgs, n # ns, sent)" w] s Inr by simp
    next
      case (Some w2)
      then have 1: "pstep p (WSend (msgs, n # ns, sent)) w = Some (WSend (msgs, ns, sent @ [?x]), w2)" using s Inr by simp
      from leads_step [OF 1 Cons.IH] show ?thesis
        using s Inr Some by (simp split: option.splits) (auto split: option.splits)
    qed
  qed
qed

lemma ProcessBatch_leads:
  "leads p (WClaim msgs, w) (map_option (Pair WIdle) (Processor_ProcessBatch p msgs w))"
proof (cases "msgs = []")
  case True
  then show ?thesis using leads_last [of p "WClaim []" w] by (simp add: Processor_ProcessBatch_def)
next
  case False
  obtain x w1 where c: "repo_GetAndMarkProcessingBatch (p_repo p) (map m_NotificationID msgs) w = (x, w1)" by fastforce
  show ?thesis
  proof (cases "\<exists>ns. x = Inr ns \<and> ns \<noteq> []")
    case True
    then obtain ns where ns: "x = Inr ns" "ns \<noteq> []" by blast
    have 1: "pstep p (WClaim msgs) w = Some (WSend (msgs, ns, []), w1)" using False c ns by simp
    note l = leads_step [OF 1 send_loop_leads]
    show ?thesis
    proof (cases "send_loop p msgs ns w1")
      case None
      then show ?thesis using l False c ns by (simp add: Processor_ProcessBatch_def)
    next
      case (Some sw)
      obtain sent w2 where sw: "sw = (sent, w2)" by fastforce
      have 2: "leads p (WClaim msgs, w) (Some (WMark msgs sent, w2))" using l Some sw by simp
      from leads_trans [OF 2 leads_step [OF pstep.simps(10) leads_last [OF pstep.simps(11) [unfolded Let_def]]]]
      show ?thesis using False c ns Some sw by (simp add: Processor_ProcessBatch_def Let_def)
    qed
  next
    case no: False
    then have "pstep p (WClaim msgs) w = Some (WIdle, w1)" using False c by (auto split: sum.splits)
    from leads_last [OF this] show ?thesis using False c no by (auto simp: Processor_ProcessBatch_def split: sum.splits)
  qed
qed

section \<open>A poll alone\<close>

fun sched_alone :: "('p, 'r, 'h) services \<Rightarrow> nat \<Rightarrow> spc \<times> ('p, 'r, 'h) world \<Rightarrow> spc \<times> ('p, 'r, 'h) world" where
  "sched_alone sv 0 st = st"
| "sched_alone sv (Suc k) st = sched_alone sv k (sstep sv (fst st) (snd st))"

definition sleads :: "('p, 'r, 'h) services \<Rightarrow> spc \<times> ('p, 'r, 'h) world \<Rightarrow> spc \<times> ('p, 'r, 'h) world \<Rightarrow> bool" where
  "sleads sv st st' = (\<exists>k. sched_alone sv k st = st')"

lemma sleads_refl: "sleads sv st st"
  unfolding sleads_def by (rule exI [of _ 0]) simp

lemma sleads_step: "sstep sv c w = st \<Longrightarrow> sleads sv st st' \<Longrightarrow> sleads sv (c, w) st'"
  unfolding sleads_def by (metis sched_alone.simps(2) fst_conv snd_conv)

lemma sched_alone_add: "sched_alone sv (k + j) st = sched_alone sv j (sched_alone sv k st)"
  by (induction k arbitrary: st) simp_all

lemma sleads_trans: "sleads sv st st1 \<Longrightarrow> sleads sv st1 st2 \<Longrightarrow> sleads sv st st2"
  unfolding sleads_def using sched_alone_add by metis

lemma schedule_all_sleads: "sleads sv (SEnqueue ns, w) (SPage, schedule_all sv ns w)"
proof (induction ns arbitrary: w)
  case Nil
  show ?case by (rule sleads_step [OF refl]) (simp add: sleads_refl)
next
  case (Cons n ns)
  obtain e w1 where q: "worker_Enqueue sv (scheduled_message n) w = (e, w1)" by fastforce
  show ?case
  proof (cases e)
    case None
    have 1: "sstep sv (SEnqueue (n # ns)) w = (SUpdate n ns, w1)" using q None by simp
    from sleads_step [OF 1 sleads_step [OF sstep.simps(6) Cons.IH]] show ?thesis using q None by simp
  next
    case (Some e2)
    have 1: "sstep sv (SEnqueue (n # ns)) w = (SEnqueue ns, w1)" using q Some by simp
    from sleads_step [OF 1 Cons.IH] show ?thesis using q Some by simp
  qed
qed

lemma poll_loop_sleads:
  assumes "poll_loop sv w = Some w'"
  shows "sleads sv (SPage, w) (SPromote, w')"
proof -
  let ?P = "\<lambda>sv w w'. sleads sv (SPage, w) (SPromote, w')"
  show "?P sv w w'"
  proof (rule poll_loop.raw_induct [of ?P, OF _ assms], goal_cases)
    case (1 loop sv w w')
    obtain x w1 where page: "repo_GetPendingScheduled (worker_repo (sv_pg sv)) w = (x, w1)" by fastforce
    show ?case
    proof (cases "\<exists>ns. x = Inr ns \<and> ns \<noteq> []")
      case True
      then obtain ns where ns: "x = Inr ns" "ns \<noteq> []" by blast
      have s: "sstep sv SPage w = (SEnqueue ns, w1)" using page ns by simp
      have "loop sv (schedule_all sv ns w1) = Some w'" using 1(2) page ns by simp
      from 1(1) [OF this] have "sleads sv (SPage, schedule_all sv ns w1) (SPromote, w')" .
      then show ?thesis using sleads_step [OF s] sleads_trans [OF schedule_all_sleads] by blast
    next
      case False
      then have "sstep sv SPage w = (SPromote, w1)" "w' = w1" using 1(2) page by (auto split: sum.splits if_splits)
      then show ?thesis using sleads_step [OF _ sleads_refl] by blast
    qed
  qed
qed

lemma poll_sleads:
  assumes "Scheduler_poll sv w = Some w'"
  shows "sleads sv (SLock, w) (SWait, w')"
proof -
  obtain x w1 where l: "on_redis (remote (rd_net (sv_rd sv)) (rd_setnx (sv_rd sv) schedulerLockKey ''1'' schedulerLockTTL)) w = (x, w1)"
    by fastforce
  show ?thesis
  proof (cases "x = Inr True")
    case True
    have 1: "sstep sv SLock w = (SPage, w1)" using l True by simp
    obtain w2 where w2: "poll_loop sv w1 = Some w2" "w' = reclaimExpiredProcessing sv (promoteDelayedRetries sv w2)"
      using assms l True by (auto simp: Scheduler_poll_def)
    have "sleads sv (SPromote, w2) (SWait, w')"
      using sleads_step [OF sstep.simps(7) sleads_step [OF sstep.simps(8) sleads_refl]] by (simp add: w2(2))
    then show ?thesis using sleads_step [OF 1] sleads_trans [OF poll_loop_sleads [OF w2(1)]] by blast
  next
    case False
    then have "sstep sv SLock w = (SWait, w1)" "w' = w1" using assms l by (auto simp: Scheduler_poll_def split: sum.splits if_splits)
    then show ?thesis using sleads_step [OF _ sleads_refl] by blast
  qed
qed

section \<open>Properties\<close>

text \<open>
  Steps and functions agree. A worker goroutine that runs alone gets through its batch in
  finitely many steps and leaves the world that \<open>Processor_ProcessBatch\<close> computes, or panics if
  that is \<open>None\<close>; a scheduler goroutine alone that finds its tick ends up, whenever
  \<open>Scheduler_poll\<close> returns, in the world that it computes.
\<close>

theorem steps_equal_functions:
  "(\<exists>k. alone p k (WClaim msgs, w) = map_option (Pair WIdle) (Processor_ProcessBatch p msgs w)) \<and>
   (case Scheduler_poll sv v of None \<Rightarrow> True | Some v' \<Rightarrow> (\<exists>k. sched_alone sv k (SLock, v) = (SWait, v')))"
  using ProcessBatch_leads [of p msgs w] poll_sleads [of sv v] unfolding leads_def sleads_def by (auto split: option.splits)

section \<open>A batch ends\<close>

text \<open>The steps that are left, at most, once the claim is over.\<close>

fun steps_left :: "pc \<Rightarrow> nat" where
  "steps_left (WSend (msgs, ns, sent)) = 4 * length ns + 3"
| "steps_left (WFail (msgs, ns, sent) n e) = 4 * length ns + 6"
| "steps_left (WDead (msgs, ns, sent) n em) = 4 * length ns + 5"
| "steps_left (WDeadAck (msgs, ns, sent) n em) = 4 * length ns + 4"
| "steps_left (WRetry (msgs, ns, sent) n em) = 4 * length ns + 5"
| "steps_left (WRetryAck (msgs, ns, sent) n em d) = 4 * length ns + 4"
| "steps_left (WMark msgs sent) = 2"
| "steps_left (WAck msgs sent) = 1"
| "steps_left c = 0"

fun claiming :: "pc \<Rightarrow> nat" where
  "claiming (WClaim msgs) = 1"
| "claiming c = 0"

lemma pstep_less: "pstep p c w = Some (c', w') \<Longrightarrow> c \<noteq> WIdle \<Longrightarrow> (c', c) \<in> measures [claiming, steps_left]"
  by (induction p c w rule: pstep.induct)
    (auto simp: Let_def split: option.splits prod.splits sum.splits if_splits)

text \<open>
  C26. Every batch ends. Whatever the others do between its steps, and whatever its remote calls
  return, a goroutine that has begun a batch is idle again, or has panicked, after finitely many steps of
  its own: there is no infinite descent along the steps of one batch.
\<close>

theorem batch_steps_end: "wf {(c', c). c \<noteq> WIdle \<and> (\<exists>w w'. pstep p c w = Some (c', w'))}"
  by (rule wf_subset [OF wf_measures [of "[claiming, steps_left]"]]) (auto dest: pstep_less simp del: in_measures)

end
