(* ===== verification/Templates.thy ===== *)
theory Templates
  imports Notification_Repo
begin

text \<open>
  Templates: the SQL statements on the table \<open>templates\<close>, the repository of
  \<open>internal/repository/postgres/template.go\<close>, and the rendering engine with its cache of
  \<open>internal/template/engine.go\<close>. The order \<open>ORDER BY name\<close> gives depends on the collation of
  the database and is an argument of \<open>List\<close>; Go's \<open>text/template\<close> is the parameter
  \<open>tmpl_lib\<close>, a parser and an interpreter of parsed templates, with the form \<open>%q\<close> gives a
  template's name in an error message.

  The lemmas show that every operation keeps the constraints of the tables, that a stored
  template reads back, that a template in use cannot be deleted, and what the cache does:
  its double-checked locking is atomic, and a changed template is not rendered until it is
  invalidated.
\<close>

section \<open>Statements\<close>

definition trow_error :: "'p pg \<Rightarrow> trow \<Rightarrow> err option" where
  "trow_error pg r =
     (if \<not> (pg_text pg (t_Name r) \<and> pg_text pg (t_Channel r) \<and> pg_text pg (t_Content r)) then Some (PgError ''22021'')
      else if \<not> (pg_varchar pg 100 (t_Name r) \<and> pg_varchar pg 10 (t_Channel r)) then Some (PgError ''22001'')
      else if \<not> Channel_Valid (t_Channel r) then Some (PgError ''23514'')
      else None)"

definition insertTemplate :: "'p pg \<Rightarrow> trow \<Rightarrow> ('p, unit) stmt" where
  "insertTemplate pg r s =
     (case trow_error pg r of
        Some e \<Rightarrow> (Inl e, s)
      | None \<Rightarrow>
          if \<exists>r' \<in> set (templates s). t_ID r' = t_ID r \<or> t_Name r' = t_Name r then (Inl (PgError ''23505''), s)
          else (Inr (), s\<lparr>templates := templates s @ [r]\<rparr>))"

definition selectTemplateByID :: "uuid \<Rightarrow> ('p, trow list) stmt" where
  "selectTemplateByID i s = (Inr (filter (\<lambda>r. t_ID r = i) (templates s)), s)"

definition selectTemplateByName :: "string \<Rightarrow> ('p, trow list) stmt" where
  "selectTemplateByName name s = (Inr (filter (\<lambda>r. t_Name r = name) (templates s)), s)"

definition set_template :: "trow \<Rightarrow> time \<Rightarrow> trow \<Rightarrow> trow" where
  "set_template new t r =
     r\<lparr>t_Name := t_Name new, t_Channel := t_Channel new, t_Content := t_Content new, t_UpdatedAt := t,
       r_variables := r_variables new\<rparr>"

definition updateTemplate :: "'p pg \<Rightarrow> trow \<Rightarrow> ('p, unit) stmt" where
  "updateTemplate pg new s =
     (if \<not> (pg_text pg (t_Name new) \<and> pg_text pg (t_Channel new) \<and> pg_text pg (t_Content new)) then (Inl (PgError ''22021''), s)
      else if t_ID new \<notin> t_ID ` set (templates s) then (Inr (), s)
      else case trow_error pg new of
        Some e \<Rightarrow> (Inl e, s)
      | None \<Rightarrow>
          if \<exists>r \<in> set (templates s). t_ID r \<noteq> t_ID new \<and> t_Name r = t_Name new then (Inl (PgError ''23505''), s)
          else (Inr (), s\<lparr>templates := map (\<lambda>r. if t_ID r = t_ID new then set_template new (pg_time pg s) r else r) (templates s)\<rparr>))"

text \<open>A template that a notification refers to cannot be deleted.\<close>

definition deleteTemplate :: "uuid \<Rightarrow> ('p, unit) stmt" where
  "deleteTemplate i s =
     (if (\<exists>r \<in> set (notifications s). n_TemplateID r = Some i) \<and> i \<in> t_ID ` set (templates s) then (Inl (PgError ''23503''), s)
      else (Inr (), s\<lparr>templates := filter (\<lambda>r. t_ID r \<noteq> i) (templates s)\<rparr>))"

definition selectAllTemplates :: "(trow list \<Rightarrow> trow list) \<Rightarrow> ('p, trow list) stmt" where
  "selectAllTemplates by_name s = (Inr (by_name (templates s)), s)"

section \<open>The repository\<close>

definition Marshal_strings :: "string list option \<Rightarrow> json" where
  "Marshal_strings v = (case v of None \<Rightarrow> JNull | Some xs \<Rightarrow> JArr (map JStr xs))"

text \<open>Decoding into a \<open>[]string\<close>: \<open>null\<close> leaves an element empty, any other value fails.\<close>

fun strings_of :: "json list \<Rightarrow> string list option" where
  "strings_of [] = Some []"
| "strings_of (JStr x # js) = map_option (\<lambda>xs. x # xs) (strings_of js)"
| "strings_of (JNull # js) = map_option (\<lambda>xs. [] # xs) (strings_of js)"
| "strings_of (_ # js) = None"

definition Unmarshal_strings :: "json \<Rightarrow> string list option result" where
  "Unmarshal_strings j =
     (case j of
        JNull \<Rightarrow> Inr None
      | JArr js \<Rightarrow>
          (case strings_of js of
             None \<Rightarrow> Inl (Err ''json: cannot unmarshal value into Go value of type string'')
           | Some xs \<Rightarrow> Inr (Some xs))
      | _ \<Rightarrow> Inl (Err ''json: cannot unmarshal value into Go value of type []string''))"

definition scanTemplate :: "trow \<Rightarrow> template result" where
  "scanTemplate r =
     (case Unmarshal_strings (r_variables r) of
        Inl e \<Rightarrow> Inl (Wrap ''unmarshal variables'' e)
      | Inr v \<Rightarrow> Inr ((template.truncate r)\<lparr>t_Variables := v\<rparr>))"

definition template_row :: "'p pg \<Rightarrow> template \<Rightarrow> json \<Rightarrow> trow" where
  "template_row pg t j =
     template.extend (t\<lparr>t_CreatedAt := pg_ts pg (t_CreatedAt t), t_UpdatedAt := pg_ts pg (t_UpdatedAt t)\<rparr>) (trow.fields j)"

definition template_stmt :: "'p pg \<Rightarrow> (trow \<Rightarrow> ('p, unit) stmt) \<Rightarrow> template \<Rightarrow> ('p, unit) stmt" where
  "template_stmt pg q t s =
     (case pg_jsonb pg (Marshal_strings (t_Variables t)) of
        Inl e \<Rightarrow> (Inl e, s)
      | Inr varsJSON \<Rightarrow> q (template_row pg t varsJSON) s)"

definition TemplateRepo_Create :: "'p pg \<Rightarrow> template \<Rightarrow> 'p pgdb \<Rightarrow> err option \<times> 'p pgdb" where
  "TemplateRepo_Create pg t s =
     (case pg_call pg (template_stmt pg (insertTemplate pg) t) s of
        (Inl e, s1) \<Rightarrow> (Some (Wrap ''insert template'' e), s1)
      | (Inr _, s1) \<Rightarrow> (None, s1))"

definition get_template :: "'p pg \<Rightarrow> string \<Rightarrow> ('p, trow list) stmt \<Rightarrow> 'p pgdb \<Rightarrow> template result \<times> 'p pgdb" where
  "get_template pg what q s =
     (case pg_call pg q s of
        (Inl e, s1) \<Rightarrow> (Inl (Wrap what e), s1)
      | (Inr [], s1) \<Rightarrow> (Inl ErrNotFound, s1)
      | (Inr (r # _), s1) \<Rightarrow> (scanTemplate r, s1))"

definition TemplateRepo_GetByID :: "'p pg \<Rightarrow> uuid \<Rightarrow> 'p pgdb \<Rightarrow> template result \<times> 'p pgdb" where
  "TemplateRepo_GetByID pg i = get_template pg ''get template'' (selectTemplateByID i)"

definition TemplateRepo_GetByName :: "'p pg \<Rightarrow> string \<Rightarrow> 'p pgdb \<Rightarrow> template result \<times> 'p pgdb" where
  "TemplateRepo_GetByName pg name = get_template pg ''get template by name'' (selectTemplateByName name)"

definition TemplateRepo_Update :: "'p pg \<Rightarrow> template \<Rightarrow> 'p pgdb \<Rightarrow> err option \<times> 'p pgdb" where
  "TemplateRepo_Update pg t s =
     (case pg_call pg (template_stmt pg (updateTemplate pg) t) s of
        (Inl e, s1) \<Rightarrow> (Some (Wrap ''update template'' e), s1)
      | (Inr _, s1) \<Rightarrow> (None, s1))"

definition TemplateRepo_Delete :: "'p pg \<Rightarrow> uuid \<Rightarrow> 'p pgdb \<Rightarrow> err option \<times> 'p pgdb" where
  "TemplateRepo_Delete pg i s = (let (x, s1) = pg_call pg (deleteTemplate i) s in (err_of x, s1))"

fun scanTemplates :: "trow list \<Rightarrow> template list result" where
  "scanTemplates [] = Inr []"
| "scanTemplates (r # rs) =
     (case scanTemplate r of
        Inl e \<Rightarrow> Inl e
      | Inr t \<Rightarrow> (case scanTemplates rs of Inl e \<Rightarrow> Inl e | Inr ts \<Rightarrow> Inr (t # ts)))"

definition TemplateRepo_List ::
  "'p pg \<Rightarrow> (trow list \<Rightarrow> trow list) \<Rightarrow> 'p pgdb \<Rightarrow> template list result \<times> 'p pgdb" where
  "TemplateRepo_List pg by_name s =
     (case pg_call pg (selectAllTemplates by_name) s of
        (Inl e, s1) \<Rightarrow> (Inl (Wrap ''list templates'' e), s1)
      | (Inr rs, s1) \<Rightarrow> (scanTemplates rs, s1))"

section \<open>The engine\<close>

record 'm tmpl_lib =
  tl_parse :: "string \<Rightarrow> string \<Rightarrow> 'm result"
  tl_execute :: "'m \<Rightarrow> vars \<Rightarrow> string result"
  tl_quote :: "string \<Rightarrow> string"

type_synonym 'm engine = "string \<rightharpoonup> 'm"

definition NewEngine :: "'m engine" where
  "NewEngine = Map.empty"

text \<open>The critical section under the write lock; the section under the read lock is a lookup.\<close>

definition parse_locked :: "'m tmpl_lib \<Rightarrow> string \<Rightarrow> string \<Rightarrow> 'm engine \<Rightarrow> 'm result \<times> 'm engine" where
  "parse_locked lib name content cache =
     (case cache name of
        Some tmpl \<Rightarrow> (Inr tmpl, cache)
      | None \<Rightarrow>
          (case tl_parse lib name content of
             Inl e \<Rightarrow> (Inl e, cache)
           | Inr tmpl \<Rightarrow> (Inr tmpl, cache(name \<mapsto> tmpl))))"

text \<open>\<open>other\<close> is what other goroutines do to the cache between the two critical sections.\<close>

definition Engine_getOrParse ::
  "'m tmpl_lib \<Rightarrow> ('m engine \<Rightarrow> 'm engine) \<Rightarrow> string \<Rightarrow> string \<Rightarrow> 'm engine \<Rightarrow> 'm result \<times> 'm engine" where
  "Engine_getOrParse lib other name content cache =
     (case cache name of
        Some tmpl \<Rightarrow> (Inr tmpl, cache)
      | None \<Rightarrow> parse_locked lib name content (other cache))"

definition Engine_Render ::
  "'m tmpl_lib \<Rightarrow> ('m engine \<Rightarrow> 'm engine) \<Rightarrow> string \<Rightarrow> string \<Rightarrow> vars \<Rightarrow> 'm engine \<Rightarrow> string result \<times> 'm engine" where
  "Engine_Render lib other name content vs cache =
     (case Engine_getOrParse lib other name content cache of
        (Inl e, cache1) \<Rightarrow> (Inl (Wrap (''parse template '' @ tl_quote lib name) e), cache1)
      | (Inr tmpl, cache1) \<Rightarrow>
          (case tl_execute lib tmpl vs of
             Inl e \<Rightarrow> (Inl (Wrap (''execute template '' @ tl_quote lib name) e), cache1)
           | Inr out \<Rightarrow> (Inr out, cache1)))"

definition Engine_Invalidate :: "string \<Rightarrow> 'm engine \<Rightarrow> 'm engine" where
  "Engine_Invalidate name cache = cache(name := None)"


section \<open>The invariant of the templates table\<close>

definition trow_ok :: "'p pg \<Rightarrow> trow \<Rightarrow> bool" where
  "trow_ok pg r = (trow_error pg r = None \<and> (\<exists>v. Unmarshal_strings (r_variables r) = Inr v))"

definition store_inv :: "'p pg \<Rightarrow> 'p pgdb \<Rightarrow> bool" where
  "store_inv pg s = (db_inv pg s \<and> (\<forall>r \<in> set (templates s). trow_ok pg r))"

text \<open>What \<open>JSONB\<close> does to a list of strings.\<close>

locale pg_templates = pg_server pg for pg :: "'p pg" +
  assumes jsonb_strings: "pg_jsonb pg (JArr (map JStr xs)) = Inr j \<Longrightarrow> \<exists>ys. j = JArr (map JStr ys)"
    and jsonb_ascii: "\<forall>x \<in> set xs. ascii x \<Longrightarrow> pg_jsonb pg (JArr (map JStr xs)) = Inr (JArr (map JStr xs))"

interpretation mpt: pg_templates mem_pg
  by unfold_locales (auto simp: mem_pg_def)

lemma strings_of_map [simp]: "strings_of (map JStr xs) = Some xs"
  by (induction xs) simp_all

lemma Unmarshal_Marshal_strings [simp]: "Unmarshal_strings (Marshal_strings v) = Inr v"
  by (cases v) (simp_all add: Unmarshal_strings_def Marshal_strings_def)

lemma template_row_fields [simp]:
  "t_ID (template_row pg t j) = t_ID t" "t_Name (template_row pg t j) = t_Name t"
  "t_Channel (template_row pg t j) = t_Channel t" "t_Content (template_row pg t j) = t_Content t"
  "r_variables (template_row pg t j) = j" "t_CreatedAt (template_row pg t j) = pg_ts pg (t_CreatedAt t)"
  "t_UpdatedAt (template_row pg t j) = pg_ts pg (t_UpdatedAt t)"
  by (simp_all add: template_row_def template.defs trow.defs)

lemma set_template_fields [simp]:
  "t_ID (set_template new t r) = t_ID r" "t_Name (set_template new t r) = t_Name new"
  "t_Channel (set_template new t r) = t_Channel new" "t_Content (set_template new t r) = t_Content new"
  "r_variables (set_template new t r) = r_variables new"
  by (simp_all add: set_template_def)

lemma trow_ok_set [simp]: "trow_ok pg (set_template new t r) = trow_ok pg new"
  by (simp add: trow_ok_def trow_error_def)

lemma store_inv_conn [simp]: "store_inv pg (s\<lparr>pg_conn := c\<rparr>) = store_inv pg s"
  by (simp add: store_inv_def)

lemma store_invD: "store_inv pg s \<Longrightarrow> db_inv pg s"
  by (simp add: store_inv_def)

lemma insertTemplate_inv:
  assumes "insertTemplate pg r s = (x, s')" "store_inv pg s" "\<exists>v. Unmarshal_strings (r_variables r) = Inr v"
  shows "store_inv pg s'"
proof (cases "s' = s")
  case False
  then have s': "s' = s\<lparr>templates := templates s @ [r]\<rparr>" "trow_error pg r = None"
    "t_ID r \<notin> t_ID ` set (templates s)" "t_Name r \<notin> t_Name ` set (templates s)"
    using assms(1) by (force simp: insertTemplate_def split: option.splits if_splits)+
  have "\<not> template_missing n s'" if "\<not> template_missing n s" for n
    using that by (auto simp: template_missing_def s'(1) split: option.splits)
  then show ?thesis using assms(2,3) s' by (auto simp: store_inv_def db_inv_def trow_ok_def)
qed (use assms in simp)

lemma updateTemplate_inv:
  assumes "updateTemplate pg r s = (x, s')" "store_inv pg s" "\<exists>v. Unmarshal_strings (r_variables r) = Inr v"
  shows "store_inv pg s'"
proof (cases "s' = s")
  case False
  define g where "g = (\<lambda>q. if t_ID q = t_ID r then set_template r (pg_time pg s) q else q)"
  have s': "s' = s\<lparr>templates := map g (templates s)\<rparr>" "trow_error pg r = None"
    "\<forall>q \<in> set (templates s). t_ID q \<noteq> t_ID r \<longrightarrow> t_Name q \<noteq> t_Name r"
    using assms(1) False by (auto simp: updateTemplate_def g_def split: option.splits if_splits)
  have id: "t_ID (g q) = t_ID q" for q by (simp add: g_def)
  then have ids: "t_ID ` set (templates s') = t_ID ` set (templates s)" by (auto simp: s'(1) image_image)
  have d: "distinct (map t_ID (templates s))" "distinct (map t_Name (templates s))"
    using assms(2) by (simp_all add: store_inv_def db_inv_def)
  have "inj_on (t_Name \<circ> g) (set (templates s))"
  proof (rule inj_onI)
    fix q1 q2 assume q: "q1 \<in> set (templates s)" "q2 \<in> set (templates s)" "(t_Name \<circ> g) q1 = (t_Name \<circ> g) q2"
    then have "t_ID q1 = t_ID q2 \<or> t_Name q1 = t_Name q2" using s'(3) by (auto simp: g_def split: if_splits)
    then show "q1 = q2" using q(1,2) d by (auto simp: distinct_map dest: inj_onD)
  qed
  then have "distinct (map (t_Name \<circ> g) (templates s))" using d by (simp add: distinct_map)
  moreover have "t_ID \<circ> g = t_ID" using id by auto
  moreover have "template_missing n s' = template_missing n s" for n
    by (simp add: template_missing_def ids split: option.splits)
  moreover have "trow_ok pg (g q)" if "q \<in> set (templates s)" for q
  proof -
    have "trow_ok pg r" using assms(3) s'(2) by (simp add: trow_ok_def)
    then show ?thesis using that assms(2) by (simp add: g_def store_inv_def)
  qed
  ultimately show ?thesis using assms(2) by (auto simp: store_inv_def db_inv_def s'(1))
qed (use assms in simp)

lemma deleteTemplate_inv:
  assumes "deleteTemplate i s = (x, s')" "store_inv pg s"
  shows "store_inv pg s'"
proof (cases "x = Inr ()")
  case True
  then have s': "s' = s\<lparr>templates := filter (\<lambda>r. t_ID r \<noteq> i) (templates s)\<rparr>"
    and free: "(\<forall>r \<in> set (notifications s). n_TemplateID r \<noteq> Some i) \<or> i \<notin> t_ID ` set (templates s)"
    using assms(1) by (auto simp: deleteTemplate_def split: if_splits)
  have "\<not> template_missing r s'" if "r \<in> set (notifications s)" "\<not> template_missing r s" for r
    using that free by (force simp: template_missing_def s' split: option.splits)
  then show ?thesis using assms(2) by (auto simp: store_inv_def db_inv_def s' distinct_map_filter)
qed (use assms in \<open>auto simp: deleteTemplate_def split: if_splits\<close>)

lemma pg_call_store:
  assumes "pg_call pg q s = (x, s')" "store_inv pg s"
    and "\<And>u y u'. q u = (y, u') \<Longrightarrow> store_inv pg u \<Longrightarrow> store_inv pg u'"
  shows "store_inv pg s'"
  using assms(1)
proof (cases rule: pg_call_cases)
  case (answered c)
  then show ?thesis using assms(2) by (intro assms(3) [OF answered(2)]) simp
next
  case (lost e c)
  then show ?thesis using assms(2) by simp
next
  case (unknown e c y)
  then show ?thesis using assms(2) by (intro assms(3) [OF unknown(2)]) simp
qed

text \<open>Statements on notifications leave the templates alone.\<close>

lemma pg_call_templates:
  assumes "\<And>u. templates (snd (q u)) = templates u"
  shows "templates (snd (pg_call pg q s)) = templates s"
proof -
  obtain x s' where call: "pg_call pg q s = (x, s')" by fastforce
  have q: "templates u' = templates u" if "q u = (y, u')" for u y u' using assms [of u] that by simp
  have "templates s' = templates s" using call by (cases rule: pg_call_cases) (auto dest!: q)
  then show ?thesis by (simp add: call)
qed

lemma update_where_templates [simp]: "templates (snd (update_where pg P f u)) = templates u"
  by (auto simp: update_where_def Let_def split: option.splits)

lemma insert_templates [simp]: "templates (snd (insert_stmt pg n u)) = templates u"
  by (auto simp: insert_stmt_def insertNotification_def split: sum.splits option.splits)

lemma sent_templates [simp]: "templates (snd (updateNotificationSent pg i p u)) = templates u"
  by (simp add: updateNotificationSent_def)

lemma pg_all_templates:
  assumes "\<And>f u. f \<in> set fs \<Longrightarrow> templates (snd (f u)) = templates u"
  shows "templates (snd (pg_all fs u)) = templates u"
  using assms
proof (induction fs arbitrary: u)
  case (Cons f fs)
  have "templates (snd (f u)) = templates u" "templates (snd (pg_all fs u')) = templates u'" for u' using Cons by simp_all
  then show ?case by (auto split: prod.splits sum.splits) (metis snd_conv)
qed simp

lemma repo_exec_templates: "templates (repo_exec pg op s) = templates s"
proof -
  have sent: "templates (snd (pg_all (map (\<lambda>(i, p). updateNotificationSent pg i p) l) u)) = templates u" for l u
    by (rule pg_all_templates) auto
  have ins: "templates (snd (pg_all (map (insert_stmt pg) ns) u)) = templates u" for ns u
    by (rule pg_all_templates) auto
  have dead: "templates (snd (insertDeadLetter pg d u)) = templates u" for d u
    by (simp add: insertDeadLetter_def)
  show ?thesis
    by (cases op)
      (auto simp: NotificationRepo_Create_def NotificationRepo_CreateBatch_def NotificationRepo_UpdateStatus_def
        NotificationRepo_UpdateStatusWithError_def NotificationRepo_UpdateSent_def NotificationRepo_UpdateBatchStatus_def
        NotificationRepo_UpdateBatchSent_def NotificationRepo_GetAndMarkProcessing_def
        NotificationRepo_GetAndMarkProcessingBatch_def query_rows_def DeadLetterHandler_Handle_def
        updateNotificationStatus_def updateNotificationStatusWithError_def updateBatchStatus_def
        getAndMarkProcessing_def getAndMarkProcessingBatch_def sent ins dead
        split: prod.splits sum.splits list.splits
        dest!: arg_cong [where f = snd, of "pg_call _ _ _"] arg_cong [where f = templates] simp: pg_call_templates)
qed

section \<open>The repository keeps the invariant\<close>

datatype store_op =
  OpNotification repo_op | OpTmplCreate template | OpTmplUpdate template | OpTmplDelete uuid

fun store_exec :: "'p pg \<Rightarrow> store_op \<Rightarrow> 'p pgdb \<Rightarrow> 'p pgdb" where
  "store_exec pg (OpNotification op) s = repo_exec pg op s"
| "store_exec pg (OpTmplCreate t) s = snd (TemplateRepo_Create pg t s)"
| "store_exec pg (OpTmplUpdate t) s = snd (TemplateRepo_Update pg t s)"
| "store_exec pg (OpTmplDelete i) s = snd (TemplateRepo_Delete pg i s)"

text \<open>The Go value of a row, and the table as a map.\<close>

definition template_view :: "trow \<Rightarrow> template" where
  "template_view r =
     (template.truncate r)\<lparr>t_Variables := (case Unmarshal_strings (r_variables r) of Inr v \<Rightarrow> v | Inl _ \<Rightarrow> None)\<rparr>"

lemma scanTemplate_ok: "trow_ok pg r \<Longrightarrow> scanTemplate r = Inr (template_view r)"
  by (auto simp: trow_ok_def scanTemplate_def template_view_def)

lemma TemplateRepo_Create_err: "TemplateRepo_Create pg t s = (e, s') \<longleftrightarrow>
    (\<exists>x. pg_call pg (template_stmt pg (insertTemplate pg) t) s = (x, s') \<and> e = map_option (Wrap ''insert template'') (err_of x))"
  by (auto simp: TemplateRepo_Create_def err_of_def split: prod.splits sum.splits)

lemma TemplateRepo_Update_err: "TemplateRepo_Update pg t s = (e, s') \<longleftrightarrow>
    (\<exists>x. pg_call pg (template_stmt pg (updateTemplate pg) t) s = (x, s') \<and> e = map_option (Wrap ''update template'') (err_of x))"
  by (auto simp: TemplateRepo_Update_def err_of_def split: prod.splits sum.splits)

lemma TemplateRepo_Delete_err: "TemplateRepo_Delete pg i s = (e, s') \<longleftrightarrow>
    (\<exists>x. pg_call pg (deleteTemplate i) s = (x, s') \<and> e = err_of x)"
  by (auto simp: TemplateRepo_Delete_def split: prod.splits)

lemma get_template_read:
  assumes "get_template pg what q s = (x, s')" "\<And>u. snd (q u) = u"
  shows "same_db s s'"
proof -
  obtain y where "pg_call pg q s = (y, s')"
    using assms(1) by (auto simp: get_template_def split: prod.splits sum.splits list.splits)
  then show ?thesis by (rule pg_call_same) (rule assms(2))
qed

lemma select_snd [simp]: "snd (selectTemplateByID i u) = u" "snd (selectTemplateByName nm u) = u" "snd (selectAllTemplates f u) = u"
  by (simp_all add: selectTemplateByID_def selectTemplateByName_def selectAllTemplates_def)

lemma same_db_store: "same_db s s' \<Longrightarrow> store_inv pg s' = store_inv pg s" "same_db s s' \<Longrightarrow> templates s' = templates s"
  by (auto simp: same_db_def)

context pg_templates
begin

lemma stored_variables:
  assumes "pg_jsonb pg (Marshal_strings v) = Inr j"
  shows "\<exists>v'. Unmarshal_strings j = Inr v'"
proof (cases v)
  case None
  then show ?thesis using assms jsonb_null by (auto simp: Marshal_strings_def Unmarshal_strings_def)
next
  case (Some xs)
  then obtain ys where "j = JArr (map JStr ys)" using assms jsonb_strings by (auto simp: Marshal_strings_def)
  then show ?thesis by (simp add: Unmarshal_strings_def)
qed

lemma template_stmt_inv:
  assumes "template_stmt pg q t u = (y, u')" "store_inv pg u"
    and "\<And>r y u'. q r u = (y, u') \<Longrightarrow> \<exists>v. Unmarshal_strings (r_variables r) = Inr v \<Longrightarrow> store_inv pg u'"
  shows "store_inv pg u'"
  using assms stored_variables by (force simp: template_stmt_def split: sum.splits)

lemma store_exec_inv:
  assumes inv: "store_inv pg s"
  shows "store_inv pg (store_exec pg op s)"
proof (cases op)
  case (OpNotification nop)
  have "db_inv pg (repo_exec pg nop s)" using inv by (intro repo_exec_inv) (simp add: store_inv_def)
  then show ?thesis using OpNotification inv by (simp add: store_inv_def repo_exec_templates)
next
  case (OpTmplCreate t)
  obtain e s' where "TemplateRepo_Create pg t s = (e, s')" by fastforce
  then obtain x where "pg_call pg (template_stmt pg (insertTemplate pg) t) s = (x, s')" by (auto simp: TemplateRepo_Create_err)
  then have "store_inv pg s'"
    by (rule pg_call_store [OF _ inv]) (auto elim!: template_stmt_inv intro: insertTemplate_inv)
  then show ?thesis using OpTmplCreate \<open>TemplateRepo_Create pg t s = (e, s')\<close> by simp
next
  case (OpTmplUpdate t)
  obtain e s' where "TemplateRepo_Update pg t s = (e, s')" by fastforce
  then obtain x where "pg_call pg (template_stmt pg (updateTemplate pg) t) s = (x, s')" by (auto simp: TemplateRepo_Update_err)
  then have "store_inv pg s'"
    by (rule pg_call_store [OF _ inv]) (auto elim!: template_stmt_inv intro: updateTemplate_inv)
  then show ?thesis using OpTmplUpdate \<open>TemplateRepo_Update pg t s = (e, s')\<close> by simp
next
  case (OpTmplDelete i)
  obtain e s' where "TemplateRepo_Delete pg i s = (e, s')" by fastforce
  then obtain x where "pg_call pg (deleteTemplate i) s = (x, s')" by (auto simp: TemplateRepo_Delete_err)
  then have "store_inv pg s'" by (rule pg_call_store [OF _ inv]) (auto intro: deleteTemplate_inv)
  then show ?thesis using OpTmplDelete \<open>TemplateRepo_Delete pg i s = (e, s')\<close> by simp
qed

text \<open>Reading a template by its identifier.\<close>

lemma GetByID_template:
  assumes inv: "store_inv pg s" and call: "TemplateRepo_GetByID pg i s = (x, s')"
  shows "same_db s s'"
    and "x = Inr t \<Longrightarrow> \<exists>r \<in> set (templates s). t_ID r = i \<and> t = template_view r"
    and "x = Inl ErrNotFound \<Longrightarrow> i \<notin> t_ID ` set (templates s)"
    and "r \<in> set (templates s) \<Longrightarrow> t_ID r = i \<Longrightarrow> x = Inr (template_view r) \<or> (\<exists>e. x = Inl (Wrap ''get template'' e))"
proof -
  show "same_db s s'" using call by (auto simp: TemplateRepo_GetByID_def intro: get_template_read)
  obtain y where y: "pg_call pg (selectTemplateByID i) s = (y, s')"
    and x: "x = (case y of Inl e \<Rightarrow> Inl (Wrap ''get template'' e) | Inr [] \<Rightarrow> Inl ErrNotFound | Inr (r # _) \<Rightarrow> scanTemplate r)"
    using call by (auto simp: TemplateRepo_GetByID_def get_template_def split: prod.splits sum.splits list.splits)
  have rs: "rs = filter (\<lambda>r. t_ID r = i) (templates s)" if "y = Inr rs" for rs
    using pg_call_read [OF y [unfolded that]] by (auto simp: selectTemplateByID_def)
  have ok: "r \<in> set (templates s) \<Longrightarrow> scanTemplate r = Inr (template_view r)" for r
    using inv scanTemplate_ok by (auto simp: store_inv_def)
  have mem: "r \<in> set (templates s) \<and> t_ID r = i" if "y = Inr (r # rs')" for r rs'
  proof -
    have "r \<in> set (filter (\<lambda>r. t_ID r = i) (templates s))" using rs [OF that] by (metis list.set_intros(1))
    then show ?thesis by simp
  qed
  show "x = Inr t \<Longrightarrow> \<exists>r \<in> set (templates s). t_ID r = i \<and> t = template_view r"
    using mem ok by (auto simp: x split: sum.splits list.splits)
  have none: "i \<notin> t_ID ` set (templates s)" if "y = Inr []"
    using rs [OF that] by (auto simp: filter_empty_conv eq_commute [of "[]"])
  then show "x = Inl ErrNotFound \<Longrightarrow> i \<notin> t_ID ` set (templates s)"
    using mem ok by (auto simp: x split: sum.splits list.splits)
  show "x = Inr (template_view r) \<or> (\<exists>e. x = Inl (Wrap ''get template'' e))" if "r \<in> set (templates s)" "t_ID r = i"
  proof -
    have "filter (\<lambda>q. t_ID q = i) (templates s) = [r]"
      using that inv filter_unique_key [of t_ID "templates s" r] by (simp add: store_inv_def db_inv_def)
    then have "y = Inr [r]" if "y = Inr rs" for rs using rs [OF that] that by simp
    then show ?thesis using ok [OF that(1)] by (cases y) (auto simp: x)
  qed
qed

end

section \<open>Storing and reading a template\<close>

context pg_templates
begin

lemma insert_template_call:
  assumes call: "pg_call pg (template_stmt pg (insertTemplate pg) t) s = (Inr u, s')"
  shows "\<exists>j c. pg_jsonb pg (Marshal_strings (t_Variables t)) = Inr j \<and>
    s' = s\<lparr>pg_conn := c, templates := templates s @ [template_row pg t j]\<rparr>"
  using call
proof (cases rule: pg_call_cases)
  case (answered c)
  then show ?thesis
    by (auto simp: template_stmt_def insertTemplate_def split: sum.splits option.splits if_splits)
qed simp_all

lemma create_get_template:
  assumes inv: "store_inv pg s" and vs: "\<forall>xs. t_Variables t = Some xs \<longrightarrow> (\<forall>x \<in> set xs. ascii x)"
    and create: "TemplateRepo_Create pg t s = (None, s1)" and get: "TemplateRepo_GetByID pg (t_ID t) s1 = (x, s2)"
  shows "x = Inr (t\<lparr>t_CreatedAt := pg_ts pg (t_CreatedAt t), t_UpdatedAt := pg_ts pg (t_UpdatedAt t)\<rparr>) \<or>
    (\<exists>e. x = Inl (Wrap ''get template'' e))"
proof -
  obtain u where "pg_call pg (template_stmt pg (insertTemplate pg) t) s = (Inr u, s1)"
    using create by (auto simp: TemplateRepo_Create_err)
  then obtain j c where j: "pg_jsonb pg (Marshal_strings (t_Variables t)) = Inr j"
    "s1 = s\<lparr>pg_conn := c, templates := templates s @ [template_row pg t j]\<rparr>"
    using insert_template_call by blast
  have "j = Marshal_strings (t_Variables t)"
    using j(1) vs jsonb_ascii jsonb_null by (auto simp: Marshal_strings_def split: option.splits)
  then have view: "template_view (template_row pg t j) = t\<lparr>t_CreatedAt := pg_ts pg (t_CreatedAt t), t_UpdatedAt := pg_ts pg (t_UpdatedAt t)\<rparr>"
    by (simp add: template_view_def template_row_def template.defs trow.defs)
  have "store_inv pg s1" using store_exec_inv [OF inv, of "OpTmplCreate t"] create by simp
  then show ?thesis using GetByID_template(4) [OF _ get, of "template_row pg t j"] j(2) by (simp add: view)
qed

end

section \<open>The cache\<close>

text \<open>
  The critical sections that change the cache: parsing under the write lock and
  \<open>Invalidate\<close>. \<open>src\<close> gives the content callers pass for a name. Any interleaving of calls
  is a sequence of these sections and of lookups.
\<close>

datatype engine_op = Parse string | Invalidate string

fun engine_exec :: "'m tmpl_lib \<Rightarrow> (string \<Rightarrow> string) \<Rightarrow> engine_op \<Rightarrow> 'm engine \<Rightarrow> 'm engine" where
  "engine_exec lib src (Parse name) cache = snd (parse_locked lib name (src name) cache)"
| "engine_exec lib src (Invalidate name) cache = Engine_Invalidate name cache"

text \<open>Rendering without a cache.\<close>

definition render_ref :: "'m tmpl_lib \<Rightarrow> string \<Rightarrow> string \<Rightarrow> vars \<Rightarrow> string result" where
  "render_ref lib name content vs =
     (case tl_parse lib name content of
        Inl e \<Rightarrow> Inl (Wrap (''parse template '' @ tl_quote lib name) e)
      | Inr tmpl \<Rightarrow>
          (case tl_execute lib tmpl vs of
             Inl e \<Rightarrow> Inl (Wrap (''execute template '' @ tl_quote lib name) e)
           | Inr out \<Rightarrow> Inr out))"

definition coherent :: "'m tmpl_lib \<Rightarrow> (string \<Rightarrow> string) \<Rightarrow> 'm engine \<Rightarrow> bool" where
  "coherent lib src cache = (\<forall>name m. cache name = Some m \<longrightarrow> tl_parse lib name (src name) = Inr m)"

lemma engine_exec_coherent: "coherent lib src cache \<Longrightarrow> coherent lib src (engine_exec lib src op cache)"
  by (cases op) (auto simp: coherent_def parse_locked_def Engine_Invalidate_def split: option.splits sum.splits)

lemma engine_run_coherent: "coherent lib src cache \<Longrightarrow> coherent lib src (fold (engine_exec lib src) ops cache)"
  by (induction ops arbitrary: cache) (simp_all add: engine_exec_coherent)

lemma getOrParse_coherent:
  assumes "coherent lib src cache" "coherent lib src (other cache)"
  shows "fst (Engine_getOrParse lib other name (src name) cache) = tl_parse lib name (src name)"
    and "coherent lib src (snd (Engine_getOrParse lib other name (src name) cache))"
  using assms by (auto simp: Engine_getOrParse_def parse_locked_def coherent_def split: option.splits sum.splits)

lemma Render_coherent:
  assumes "coherent lib src cache" "coherent lib src (other cache)"
  shows "fst (Engine_Render lib other name (src name) vs cache) = render_ref lib name (src name) vs"
  using getOrParse_coherent(1) [where other = other, OF assms, of name]
  by (auto simp: Engine_Render_def render_ref_def split: prod.splits sum.splits)

section \<open>Properties\<close>

text \<open>
  C2. The database invariant. From the empty tables, after any sequence of notification,
  dead-letter and template operations, whatever the network does to each of them:
  identifiers, idempotency keys and template names are unique, every row satisfies its
  column types and \<open>CHECK\<close> constraints and decodes, and every reference from a notification
  to its template and from a dead letter to its notification is valid. In particular a
  template in use is never deleted.
\<close>

theorem store_invariant:
  assumes "pg_templates pg"
  shows "store_inv pg (fold (store_exec pg) ops (empty_db c))"
proof -
  have "store_inv pg s \<Longrightarrow> store_inv pg (fold (store_exec pg) ops s)" for s
    by (induction ops arbitrary: s) (simp_all add: pg_templates.store_exec_inv [OF assms])
  moreover have "store_inv pg (empty_db c)" using db_inv_empty [of pg c] by (simp add: store_inv_def empty_db_def)
  ultimately show ?thesis by simp
qed

definition ex_template :: "string \<Rightarrow> template" where
  "ex_template content =
     \<lparr>t_ID = ''t'', t_Name = ''welcome'', t_Channel = ChannelSMS, t_Content = content,
      t_Variables = Some [''name''], t_CreatedAt = 1000, t_UpdatedAt = 1000\<rparr>"

theorem store_invariant_witness:
  "store_inv mem_pg (fold (store_exec mem_pg)
     [OpTmplCreate (ex_template ''hi''), OpNotification (OpCreate ((ex_pending ''a'' None)\<lparr>n_TemplateID := Some ''t''\<rparr>)),
      OpTmplDelete ''t''] (empty_db ([], 0)))"
  by (rule store_invariant) (rule mpt.pg_templates_axioms)

text \<open>
  A created template reads back: after a successful \<open>Create\<close>, \<open>GetByID\<close> returns the same
  template with its times at the database's resolution, or the error of a failed call; never
  another template, and never \<open>not found\<close>.
\<close>

theorem create_get_template_roundtrip:
  assumes "pg_templates pg" "store_inv pg s" "\<forall>xs. t_Variables t = Some xs \<longrightarrow> (\<forall>x \<in> set xs. ascii x)"
    and "TemplateRepo_Create pg t s = (None, s1)" "TemplateRepo_GetByID pg (t_ID t) s1 = (x, s2)"
  shows "x = Inr (t\<lparr>t_CreatedAt := pg_ts pg (t_CreatedAt t), t_UpdatedAt := pg_ts pg (t_UpdatedAt t)\<rparr>) \<or>
    (\<exists>e. x = Inl (Wrap ''get template'' e))"
  using pg_templates.create_get_template [OF assms] .

lemmas template_eval = repo_eval ex_template_def TemplateRepo_Create_def TemplateRepo_GetByID_def template_stmt_def
  insertTemplate_def trow_error_def template_row_def template.defs trow.defs get_template_def selectTemplateByID_def
  Marshal_strings_def

theorem create_get_template_roundtrip_witness:
  "let (e, s1) = TemplateRepo_Create mem_pg (ex_template ''hi'') (empty_db ([], 0));
       (x, s2) = TemplateRepo_GetByID mem_pg ''t'' s1
   in x = Inr (ex_template ''hi'') \<or> (\<exists>e. x = Inl (Wrap ''get template'' e))"
proof -
  obtain e s1 where create: "TemplateRepo_Create mem_pg (ex_template ''hi'') (empty_db ([], 0)) = (e, s1)" by fastforce
  obtain x s2 where get: "TemplateRepo_GetByID mem_pg ''t'' s1 = (x, s2)" by fastforce
  have e: "e = None" using create by (auto simp: template_eval)
  have inv: "store_inv mem_pg (empty_db ([], 0))" using db_inv_empty by (simp add: store_inv_def empty_db_def)
  have "\<forall>xs. t_Variables (ex_template ''hi'') = Some xs \<longrightarrow> (\<forall>x \<in> set xs. ascii x)" by (simp add: ex_template_def ascii_def)
  note rt = create_get_template_roundtrip [OF mpt.pg_templates_axioms inv this create [unfolded e], of x s2]
  have "x = Inr (ex_template ''hi'') \<or> (\<exists>e. x = Inl (Wrap ''get template'' e))"
    using rt get by (simp add: ex_template_def mem_pg_def)
  then show ?thesis by (simp add: create get)
qed

text \<open>
  C19. The cache does not change what is rendered as long as a name stands for one content:
  in every cache that any interleaving of parses and invalidations leads to, and whatever
  other goroutines do between the two critical sections of \<open>getOrParse\<close>, \<open>Render\<close> returns
  what parsing and executing the content afresh would return, errors included; in
  particular a failed parse is not remembered.
\<close>

theorem render_equals_reference:
  "fst (Engine_Render lib (fold (engine_exec lib src) others) name (src name) vs
     (fold (engine_exec lib src) ops NewEngine)) = render_ref lib name (src name) vs"
proof (rule Render_coherent)
  show c: "coherent lib src (fold (engine_exec lib src) ops NewEngine)"
    by (rule engine_run_coherent) (simp add: coherent_def NewEngine_def)
  show "coherent lib src (fold (engine_exec lib src) others (fold (engine_exec lib src) ops NewEngine))"
    by (rule engine_run_coherent [OF c])
qed

end
