(* ===== verification/Handlers.thy ===== *)
theory Handlers
  imports Scheduler Templates "HOL-Library.AList"
begin

text \<open>
  The HTTP handlers of \<open>internal/api/handler\<close>: what each request does to the database, the
  queue and the template cache, and the response it gets.

  A handler is a function of the decoded request and the state. The result of decoding a
  JSON body, \<open>uuid.Parse\<close>, and \<open>time.Parse\<close> and \<open>Format\<close> for \<open>time.RFC3339Nano\<close> are
  parameters. A handler is not atomic: \<open>api_other\<close> is what all other processes and requests
  do to the world just before each call to PostgreSQL or Redis, and \<open>api_engine\<close> what other
  requests do to the template cache between the two critical sections of \<open>getOrParse\<close>. The
  locale \<open>api_env\<close> states what the handlers rely on. The two statements of a list request run
  without others in between.

  A response is the status code and the value given to \<open>writeJSON\<close>.
\<close>

section \<open>Requests and responses\<close>

record createNotificationRequest =
  q_Recipient :: string
  q_Channel :: channel
  q_Content :: string
  q_Priority :: priority
  q_TemplateID :: "uuid option"
  q_TemplateVars :: vars
  q_ScheduledAt :: "time option"
  q_IdempotencyKey :: "string option"

record createTemplateRequest =
  qt_Name :: string
  qt_Channel :: channel
  qt_Content :: string
  qt_Variables :: "string list option"

datatype body =
    NoBody
  | ErrorBody string
  | NotificationBody notification
  | BatchBody uuid int
  | BatchStatusBody uuid int "status \<Rightarrow> int" "notification list"
  | ListBody "notification list" int int int "string option"
  | TemplateBody template
  | TemplatesBody "template list"
  | HealthBody "(string \<times> string) list"
  | MetricsBody metricsSnapshot

record response =
  rs_code :: int
  rs_body :: body

definition writeJSON :: "int \<Rightarrow> body \<Rightarrow> response" where
  "writeJSON code v = \<lparr>rs_code = code, rs_body = v\<rparr>"

definition writeError :: "int \<Rightarrow> string \<Rightarrow> response" where
  "writeError code msg = writeJSON code (ErrorBody msg)"

text \<open>\<open>strconv.Atoi\<close>: an optional sign, decimal digits, and the range of a 64-bit \<open>int\<close>.\<close>

definition is_digit :: "char \<Rightarrow> bool" where
  "is_digit c = (48 \<le> (of_char c :: nat) \<and> (of_char c :: nat) \<le> 57)"

definition Atoi :: "string \<Rightarrow> int result" where
  "Atoi v =
     (let neg = (v \<noteq> [] \<and> hd v = CHR ''-'');
          ds = (if v \<noteq> [] \<and> (hd v = CHR ''-'' \<or> hd v = CHR ''+'') then tl v else v)
      in if ds = [] \<or> \<not> list_all is_digit ds then Inl (Err ''invalid syntax'')
         else let i = (if neg then - int (undigits ds) else int (undigits ds))
              in if - (2 ^ 63) \<le> i \<and> i < 2 ^ 63 then Inr i else Inl (Err ''value out of range''))"

section \<open>The API process\<close>

record ('p, 'r, 'h, 'm) api =
  api_sv :: "('p, 'r, 'h) services"
  api_tmpl :: "'m tmpl_lib"
  api_other :: "('p, 'r, 'h) world \<Rightarrow> ('p, 'r, 'h) world"
  api_engine :: "'m engine \<Rightarrow> 'm engine"
  api_ParseUUID :: "string \<Rightarrow> uuid option"
  api_ParseTime :: "string \<Rightarrow> time option"
  api_FormatTime :: "time \<Rightarrow> string"
  api_by_name :: "trow list \<Rightarrow> trow list"

type_synonym ('p, 'r, 'h, 'm) api_state = "('p, 'r, 'h) world \<times> 'm engine"

abbreviation api_pg :: "('p, 'r, 'h, 'm) api \<Rightarrow> 'p pg" where
  "api_pg a \<equiv> sv_pg (api_sv a)"

text \<open>One call to PostgreSQL, after whatever the others have done.\<close>

definition api_db :: "('p, 'r, 'h, 'm) api \<Rightarrow> ('p pgdb \<Rightarrow> 'a \<times> 'p pgdb) \<Rightarrow> ('p, 'r, 'h) world \<Rightarrow> 'a \<times> ('p, 'r, 'h) world" where
  "api_db a f w = on_db f (advance 1 (api_other a w))"

definition api_Enqueue :: "('p, 'r, 'h, 'm) api \<Rightarrow> message \<Rightarrow> ('p, 'r, 'h) world \<Rightarrow> err option \<times> ('p, 'r, 'h) world" where
  "api_Enqueue a msg w = worker_Enqueue (api_sv a) msg (api_other a w)"

definition api_EnqueueBatch :: "('p, 'r, 'h, 'm) api \<Rightarrow> message list \<Rightarrow> ('p, 'r, 'h) world \<Rightarrow> err option \<times> ('p, 'r, 'h) world" where
  "api_EnqueueBatch a msgs w =
     (let w = api_other a w
      in on_redis (Producer_EnqueueBatch (sv_rd (api_sv a)) (sv_js (api_sv a))
           (\<lambda>i. env_now (sv_env (api_sv a)) (w_tick w + i)) msgs) (advance (length msgs) w))"

section \<open>Creating notifications\<close>

definition request_content ::
  "('p, 'r, 'h, 'm) api \<Rightarrow> createNotificationRequest \<Rightarrow> ('p, 'r, 'h, 'm) api_state \<Rightarrow> string result \<times> ('p, 'r, 'h, 'm) api_state" where
  "request_content a req st =
     (case (q_TemplateID req, st) of
        (None, _) \<Rightarrow> (Inr (q_Content req), st)
      | (Some t, (w, cache)) \<Rightarrow>
          (case api_db a (TemplateRepo_GetByID (api_pg a) t) w of
             (Inl _, w1) \<Rightarrow> (Inl ErrTemplateNotFound, (w1, cache))
           | (Inr tmpl, w1) \<Rightarrow>
               (case Engine_Render (api_tmpl a) (api_engine a) (t_Name tmpl) (t_Content tmpl) (q_TemplateVars req) cache of
                  (x, cache1) \<Rightarrow> (x, (w1, cache1)))))"

definition buildNotification ::
  "('p, 'r, 'h, 'm) api \<Rightarrow> createNotificationRequest \<Rightarrow> ('p, 'r, 'h, 'm) api_state \<Rightarrow> notification result \<times> ('p, 'r, 'h, 'm) api_state" where
  "buildNotification a req st =
     (if q_Recipient req = [] then (Inl ErrInvalidRecipient, st)
      else if \<not> Channel_Valid (q_Channel req) then (Inl ErrInvalidChannel, st)
      else
        let prio = (if q_Priority req = [] then PriorityNormal else q_Priority req)
        in if \<not> Priority_Valid prio then (Inl ErrInvalidPriority, st)
           else
            (case request_content a req st of
               (Inl e, st1) \<Rightarrow> (Inl e, st1)
             | (Inr content, (w1, cache1)) \<Rightarrow>
                 if content = [] then (Inl ErrInvalidContent, (w1, cache1))
                 else
                   let now = env_now (sv_env (api_sv a)) (w_tick w1);
                       st = (if q_ScheduledAt req \<noteq> None then StatusScheduled else StatusPending)
                   in (Inr \<lparr>n_ID = env_uuid (sv_env (api_sv a)) (w_tick w1 + 1), n_BatchID = None,
                         n_IdempotencyKey = q_IdempotencyKey req, n_Recipient = q_Recipient req,
                         n_Channel = q_Channel req, n_Content = content, n_Priority = prio, n_Status = st,
                         n_TemplateID = q_TemplateID req, n_TemplateVars = q_TemplateVars req,
                         n_ScheduledAt = q_ScheduledAt req, n_ProviderMsgID = None, n_Attempts = 0, n_MaxAttempts = 5,
                         n_LastError = None, n_SentAt = None, n_CreatedAt = now, n_UpdatedAt = now\<rparr>,
                       (advance 2 w1, cache1))))"

text \<open>The message of a notification is built from the same four fields as \<open>MessageFromNotification\<close>.\<close>

definition NotificationHandler_enqueue ::
  "('p, 'r, 'h, 'm) api \<Rightarrow> notification \<Rightarrow> ('p, 'r, 'h) world \<Rightarrow> err option \<times> ('p, 'r, 'h) world" where
  "NotificationHandler_enqueue a n w =
     (if n_Status n = StatusScheduled then (None, w)
      else case api_Enqueue a (MessageFromNotification n) w of
        (Some e, w1) \<Rightarrow> (Some e, w1)
      | (None, w1) \<Rightarrow> api_db a (NotificationRepo_UpdateStatus (api_pg a) (n_ID n) StatusQueued) w1)"

definition NotificationHandler_batchEnqueue ::
  "('p, 'r, 'h, 'm) api \<Rightarrow> notification list \<Rightarrow> ('p, 'r, 'h) world \<Rightarrow> err option \<times> ('p, 'r, 'h) world" where
  "NotificationHandler_batchEnqueue a ns w =
     (let toUpdate = filter (\<lambda>n. n_Status n \<noteq> StatusScheduled) ns
      in if toUpdate = [] then (None, w)
         else case api_EnqueueBatch a (map MessageFromNotification toUpdate) w of
           (Some e, w1) \<Rightarrow> (Some e, w1)
         | (None, w1) \<Rightarrow>
             (None, snd (api_db a (NotificationRepo_UpdateBatchStatus (api_pg a) (map n_ID toUpdate) StatusQueued) w1)))"

definition NotificationHandler_Create ::
  "('p, 'r, 'h, 'm) api \<Rightarrow> createNotificationRequest result \<Rightarrow> ('p, 'r, 'h, 'm) api_state \<Rightarrow> response \<times> ('p, 'r, 'h, 'm) api_state" where
  "NotificationHandler_Create a decoded st =
     (case decoded of
        Inl _ \<Rightarrow> (writeError 400 ''invalid request body'', st)
      | Inr req \<Rightarrow>
          (case buildNotification a req st of
             (Inl e, st1) \<Rightarrow> (writeError 400 (Error e), st1)
           | (Inr n, (w1, cache1)) \<Rightarrow>
               (case api_db a (NotificationRepo_Create (api_pg a) n) w1 of
                  (Some e, w2) \<Rightarrow>
                    (if err_is e ErrDuplicateKey then writeError 409 ''duplicate idempotency key''
                     else writeError 500 ''failed to create notification'', (w2, cache1))
                | (None, w2) \<Rightarrow>
                    (writeJSON 201 (NotificationBody n), (snd (NotificationHandler_enqueue a n w2), cache1)))))"

fun build_all ::
  "('p, 'r, 'h, 'm) api \<Rightarrow> uuid \<Rightarrow> createNotificationRequest list \<Rightarrow> ('p, 'r, 'h, 'm) api_state \<Rightarrow>
   notification list result \<times> ('p, 'r, 'h, 'm) api_state" where
  "build_all a batchID [] st = (Inr [], st)"
| "build_all a batchID (nr # nrs) st =
     (case buildNotification a nr st of
        (Inl e, st1) \<Rightarrow> (Inl e, st1)
      | (Inr n, st1) \<Rightarrow>
          (case build_all a batchID nrs st1 of
             (Inl e, st2) \<Rightarrow> (Inl e, st2)
           | (Inr ns, st2) \<Rightarrow> (Inr (n\<lparr>n_BatchID := Some batchID\<rparr> # ns), st2)))"

definition NotificationHandler_BatchCreate ::
  "('p, 'r, 'h, 'm) api \<Rightarrow> createNotificationRequest list result \<Rightarrow> ('p, 'r, 'h, 'm) api_state \<Rightarrow> response \<times> ('p, 'r, 'h, 'm) api_state" where
  "NotificationHandler_BatchCreate a decoded st =
     (case decoded of
        Inl _ \<Rightarrow> (writeError 400 ''invalid request body'', st)
      | Inr reqs \<Rightarrow>
          if length reqs > 1000 then (writeError 400 (Error ErrBatchTooLarge), st)
          else if reqs = [] then (writeError 400 ''at least one notification is required'', st)
          else
           (let batchID = env_uuid (sv_env (api_sv a)) (w_tick (fst st))
            in case build_all a batchID reqs (advance 1 (fst st), snd st) of
                 (Inl e, st1) \<Rightarrow> (writeError 400 (Error e), st1)
               | (Inr ns, (w1, cache1)) \<Rightarrow>
                   (case api_db a (NotificationRepo_CreateBatch (api_pg a) ns) w1 of
                      (Some e, w2) \<Rightarrow>
                        (if err_is e ErrDuplicateKey then writeError 409 ''duplicate idempotency key in batch''
                         else writeError 500 ''failed to create batch'', (w2, cache1))
                    | (None, w2) \<Rightarrow>
                        (writeJSON 201 (BatchBody batchID (int (length ns))),
                         (snd (NotificationHandler_batchEnqueue a ns w2), cache1)))))"

section \<open>Reading and cancelling notifications\<close>

definition NotificationHandler_Get ::
  "('p, 'r, 'h, 'm) api \<Rightarrow> string \<Rightarrow> ('p, 'r, 'h) world \<Rightarrow> response \<times> ('p, 'r, 'h) world" where
  "NotificationHandler_Get a path_id w =
     (case api_ParseUUID a path_id of
        None \<Rightarrow> (writeError 400 ''invalid notification ID'', w)
      | Some i \<Rightarrow>
          (case api_db a (NotificationRepo_GetByID (api_pg a) i) w of
             (Inl e, w1) \<Rightarrow>
               (if err_is e ErrNotFound then writeError 404 ''notification not found''
                else writeError 500 ''failed to get notification'', w1)
           | (Inr n, w1) \<Rightarrow> (writeJSON 200 (NotificationBody n), w1)))"

definition status_counts :: "notification list \<Rightarrow> status \<Rightarrow> int" where
  "status_counts ns = fold (\<lambda>n m. m(n_Status n := m (n_Status n) + 1)) ns (\<lambda>_. 0)"

definition NotificationHandler_GetBatch ::
  "('p, 'r, 'h, 'm) api \<Rightarrow> string \<Rightarrow> ('p, 'r, 'h) world \<Rightarrow> response \<times> ('p, 'r, 'h) world" where
  "NotificationHandler_GetBatch a path_id w =
     (case api_ParseUUID a path_id of
        None \<Rightarrow> (writeError 400 ''invalid batch ID'', w)
      | Some b \<Rightarrow>
          (case api_db a (NotificationRepo_GetByBatchID (api_pg a) b) w of
             (Inl e, w1) \<Rightarrow> (writeError 500 ''failed to get batch'', w1)
           | (Inr ns, w1) \<Rightarrow> (writeJSON 200 (BatchStatusBody b (int (length ns)) (status_counts ns) ns), w1)))"

definition NotificationHandler_Cancel ::
  "('p, 'r, 'h, 'm) api \<Rightarrow> string \<Rightarrow> ('p, 'r, 'h) world \<Rightarrow> response \<times> ('p, 'r, 'h) world" where
  "NotificationHandler_Cancel a path_id w =
     (case api_ParseUUID a path_id of
        None \<Rightarrow> (writeError 400 ''invalid notification ID'', w)
      | Some i \<Rightarrow>
          (case api_db a (NotificationRepo_GetByID (api_pg a) i) w of
             (Inl e, w1) \<Rightarrow>
               (if err_is e ErrNotFound then writeError 404 ''notification not found''
                else writeError 500 ''failed to get notification'', w1)
           | (Inr n, w1) \<Rightarrow>
               if n_Status n = StatusPending \<or> n_Status n = StatusScheduled \<or> n_Status n = StatusQueued
               then (case api_db a (NotificationRepo_UpdateStatus (api_pg a) i StatusCancelled) w1 of
                       (Some e, w2) \<Rightarrow> (writeError 500 ''failed to cancel notification'', w2)
                     | (None, w2) \<Rightarrow> (writeJSON 200 (NotificationBody (n\<lparr>n_Status := StatusCancelled\<rparr>)), w2))
               else (writeError 409 (Error ErrNotCancellable), w1)))"

text \<open>The filter of a list request; \<open>query\<close> is \<open>r.URL.Query().Get\<close>, empty for a missing key.\<close>

definition query_text :: "(string \<Rightarrow> string) \<Rightarrow> string \<Rightarrow> string option" where
  "query_text query k = (if query k \<noteq> [] then Some (query k) else None)"

definition list_filter :: "('p, 'r, 'h, 'm) api \<Rightarrow> (string \<Rightarrow> string) \<Rightarrow> notification_filter" where
  "list_filter a query =
     \<lparr>f_Channel = query_text query ''channel'', f_Status = query_text query ''status'',
      f_Priority = query_text query ''priority'',
      f_Limit =
        (if query ''limit'' \<noteq> [] then
           (case Atoi (query ''limit'') of Inr l \<Rightarrow> if l > 0 \<and> l \<le> 100 then l else 20 | Inl _ \<Rightarrow> 20) else 20),
      f_Offset =
        (if query ''offset'' \<noteq> [] then
           (case Atoi (query ''offset'') of Inr off \<Rightarrow> if off \<ge> 0 then off else 0 | Inl _ \<Rightarrow> 0) else 0),
      f_Cursor = (if query ''cursor'' \<noteq> [] then api_ParseTime a (query ''cursor'') else None)\<rparr>"

definition NotificationHandler_List ::
  "('p, 'r, 'h, 'm) api \<Rightarrow> (string \<Rightarrow> string) \<Rightarrow> ('p, 'r, 'h) world \<Rightarrow> response \<times> ('p, 'r, 'h) world" where
  "NotificationHandler_List a query w =
     (let f = list_filter a query
      in case api_db a (NotificationRepo_List (api_pg a) f) w of
           (Inl e, w1) \<Rightarrow> (writeError 500 ''failed to list notifications'', w1)
         | (Inr (ns, ttl), w1) \<Rightarrow>
             (writeJSON 200
               (ListBody ns ttl (f_Limit f) (f_Offset f)
                 (if ns \<noteq> [] then Some (api_FormatTime a (n_CreatedAt (last ns))) else None)), w1))"

section \<open>Templates\<close>

definition TemplateHandler_Create ::
  "('p, 'r, 'h, 'm) api \<Rightarrow> createTemplateRequest result \<Rightarrow> ('p, 'r, 'h) world \<Rightarrow> response \<times> ('p, 'r, 'h) world" where
  "TemplateHandler_Create a decoded w =
     (case decoded of
        Inl _ \<Rightarrow> (writeError 400 ''invalid request body'', w)
      | Inr req \<Rightarrow>
          if qt_Name req = [] \<or> qt_Content req = [] \<or> \<not> Channel_Valid (qt_Channel req)
          then (writeError 400 ''name, content, and valid channel are required'', w)
          else
           (let now = env_now (sv_env (api_sv a)) (w_tick w);
                t = \<lparr>t_ID = env_uuid (sv_env (api_sv a)) (w_tick w + 1), t_Name = qt_Name req, t_Channel = qt_Channel req,
                     t_Content = qt_Content req, t_Variables = qt_Variables req, t_CreatedAt = now, t_UpdatedAt = now\<rparr>
            in case api_db a (TemplateRepo_Create (api_pg a) t) (advance 2 w) of
                 (Some e, w1) \<Rightarrow> (writeError 500 ''failed to create template'', w1)
               | (None, w1) \<Rightarrow> (writeJSON 201 (TemplateBody t), w1)))"

definition TemplateHandler_Get ::
  "('p, 'r, 'h, 'm) api \<Rightarrow> string \<Rightarrow> ('p, 'r, 'h) world \<Rightarrow> response \<times> ('p, 'r, 'h) world" where
  "TemplateHandler_Get a path_id w =
     (case api_ParseUUID a path_id of
        None \<Rightarrow> (writeError 400 ''invalid template ID'', w)
      | Some i \<Rightarrow>
          (case api_db a (TemplateRepo_GetByID (api_pg a) i) w of
             (Inl e, w1) \<Rightarrow>
               (if err_is e ErrNotFound then writeError 404 ''template not found''
                else writeError 500 ''failed to get template'', w1)
           | (Inr t, w1) \<Rightarrow> (writeJSON 200 (TemplateBody t), w1)))"

definition apply_template_request :: "createTemplateRequest \<Rightarrow> template \<Rightarrow> template" where
  "apply_template_request req t =
     (let t = (if qt_Name req \<noteq> [] then t\<lparr>t_Name := qt_Name req\<rparr> else t);
          t = (if Channel_Valid (qt_Channel req) then t\<lparr>t_Channel := qt_Channel req\<rparr> else t);
          t = (if qt_Content req \<noteq> [] then t\<lparr>t_Content := qt_Content req\<rparr> else t)
      in if qt_Variables req \<noteq> None then t\<lparr>t_Variables := qt_Variables req\<rparr> else t)"

definition TemplateHandler_Update ::
  "('p, 'r, 'h, 'm) api \<Rightarrow> string \<Rightarrow> createTemplateRequest result \<Rightarrow> ('p, 'r, 'h) world \<Rightarrow> response \<times> ('p, 'r, 'h) world" where
  "TemplateHandler_Update a path_id decoded w =
     (case api_ParseUUID a path_id of
        None \<Rightarrow> (writeError 400 ''invalid template ID'', w)
      | Some i \<Rightarrow>
          (case decoded of
             Inl _ \<Rightarrow> (writeError 400 ''invalid request body'', w)
           | Inr req \<Rightarrow>
               (case api_db a (TemplateRepo_GetByID (api_pg a) i) w of
                  (Inl e, w1) \<Rightarrow>
                    (if err_is e ErrNotFound then writeError 404 ''template not found''
                     else writeError 500 ''failed to get template'', w1)
                | (Inr t, w1) \<Rightarrow>
                    (let t = apply_template_request req t
                     in case api_db a (TemplateRepo_Update (api_pg a) t) w1 of
                          (Some e, w2) \<Rightarrow> (writeError 500 ''failed to update template'', w2)
                        | (None, w2) \<Rightarrow> (writeJSON 200 (TemplateBody t), w2)))))"

definition TemplateHandler_Delete ::
  "('p, 'r, 'h, 'm) api \<Rightarrow> string \<Rightarrow> ('p, 'r, 'h) world \<Rightarrow> response \<times> ('p, 'r, 'h) world" where
  "TemplateHandler_Delete a path_id w =
     (case api_ParseUUID a path_id of
        None \<Rightarrow> (writeError 400 ''invalid template ID'', w)
      | Some i \<Rightarrow>
          (case api_db a (TemplateRepo_Delete (api_pg a) i) w of
             (Some e, w1) \<Rightarrow> (writeError 500 ''failed to delete template'', w1)
           | (None, w1) \<Rightarrow> (\<lparr>rs_code = 204, rs_body = NoBody\<rparr>, w1)))"

definition TemplateHandler_List ::
  "('p, 'r, 'h, 'm) api \<Rightarrow> ('p, 'r, 'h) world \<Rightarrow> response \<times> ('p, 'r, 'h) world" where
  "TemplateHandler_List a w =
     (case api_db a (TemplateRepo_List (api_pg a) (api_by_name a)) w of
        (Inl e, w1) \<Rightarrow> (writeError 500 ''failed to list templates'', w1)
      | (Inr ts, w1) \<Rightarrow> (writeJSON 200 (TemplatesBody ts), w1))"

section \<open>Health, metrics and WebSocket\<close>

definition HealthHandler_Health :: response where
  "HealthHandler_Health = writeJSON 200 (HealthBody [(''status'', ''ok'')])"

text \<open>The pings reach the services or fail; they do not change them. The map \<open>status\<close> is an association list.\<close>

definition pg_ping :: "'p pg \<Rightarrow> 'p pgdb \<Rightarrow> err option \<times> 'p pgdb" where
  "pg_ping pg s = (let (x, s1) = pg_call pg (\<lambda>s. (Inr (), s)) s in (err_of x, s1))"

definition rd_ping :: "'r redis \<Rightarrow> 'r \<Rightarrow> err option \<times> 'r" where
  "rd_ping rd = rd_do rd (\<lambda>r. r)"

definition HealthHandler_Ready ::
  "('p, 'r, 'h, 'm) api \<Rightarrow> ('p, 'r, 'h) world \<Rightarrow> response \<times> ('p, 'r, 'h) world" where
  "HealthHandler_Ready a w =
     (let status = [(''status'', ''ok'')];
          (e1, w1) = api_db a (pg_ping (api_pg a)) w;
          status = (if e1 \<noteq> None then AList.update ''postgres'' ''down'' (AList.update ''status'' ''degraded'' status)
                    else AList.update ''postgres'' ''up'' status);
          (e2, w2) = on_redis (rd_ping (sv_rd (api_sv a))) (api_other a w1);
          status = (if e2 \<noteq> None then AList.update ''redis'' ''down'' (AList.update ''status'' ''degraded'' status)
                    else AList.update ''redis'' ''up'' status);
          code = (if map_of status ''status'' = Some ''degraded'' then 503 else 200)
      in (writeJSON code (HealthBody status), w2))"

definition MetricsHandler_Metrics :: "hub \<Rightarrow> metrics \<Rightarrow> response" where
  "MetricsHandler_Metrics h m = writeJSON 200 (MetricsBody (Snapshot (Some (\<lambda>_. Hub_Len h)) m))"

text \<open>\<open>accept\<close> is the outcome of \<open>websocket.Accept\<close>, which answers the request itself; \<open>k\<close> is the new client.\<close>

definition WebSocketHandler_Upgrade :: "err option \<Rightarrow> nat \<Rightarrow> hub \<Rightarrow> hub" where
  "WebSocketHandler_Upgrade accept k h = (case accept of Some e \<Rightarrow> h | None \<Rightarrow> Hub_Register k h)"

section \<open>Requests\<close>

text \<open>The requests that reach PostgreSQL or Redis, as the router of \<open>internal/api/router.go\<close> hands them to the handlers.\<close>

datatype api_request =
    PostNotification "createNotificationRequest result"
  | PostBatch "createNotificationRequest list result"
  | GetNotification string
  | GetBatch string
  | PostCancel string
  | GetNotifications "string \<Rightarrow> string"
  | PostTemplate "createTemplateRequest result"
  | GetTemplate string
  | PutTemplate string "createTemplateRequest result"
  | DeleteTemplate string
  | GetTemplates
  | GetReady

definition keep_cache :: "'b \<Rightarrow> 'a \<times> 'c \<Rightarrow> 'a \<times> ('c \<times> 'b)" where
  "keep_cache cache x = (fst x, (snd x, cache))"

fun api_exec ::
  "('p, 'r, 'h, 'm) api \<Rightarrow> api_request \<Rightarrow> ('p, 'r, 'h, 'm) api_state \<Rightarrow> response \<times> ('p, 'r, 'h, 'm) api_state" where
  "api_exec a (PostNotification d) st = NotificationHandler_Create a d st"
| "api_exec a (PostBatch d) st = NotificationHandler_BatchCreate a d st"
| "api_exec a (GetNotification i) (w, cache) = keep_cache cache (NotificationHandler_Get a i w)"
| "api_exec a (GetBatch i) (w, cache) = keep_cache cache (NotificationHandler_GetBatch a i w)"
| "api_exec a (PostCancel i) (w, cache) = keep_cache cache (NotificationHandler_Cancel a i w)"
| "api_exec a (GetNotifications q) (w, cache) = keep_cache cache (NotificationHandler_List a q w)"
| "api_exec a (PostTemplate d) (w, cache) = keep_cache cache (TemplateHandler_Create a d w)"
| "api_exec a (GetTemplate i) (w, cache) = keep_cache cache (TemplateHandler_Get a i w)"
| "api_exec a (PutTemplate i d) (w, cache) = keep_cache cache (TemplateHandler_Update a i d w)"
| "api_exec a (DeleteTemplate i) (w, cache) = keep_cache cache (TemplateHandler_Delete a i w)"
| "api_exec a GetTemplates (w, cache) = keep_cache cache (TemplateHandler_List a w)"
| "api_exec a GetReady (w, cache) = keep_cache cache (HealthHandler_Ready a w)"

end
