(* ===== verification/Api.thy ===== *)
theory Api
  imports Handlers
begin

text \<open>
  What the handlers guarantee, while other processes and other requests act between any two
  of their calls. The locale \<open>api_env\<close> has the services of a worker, the template laws of
  PostgreSQL, and what the others keep: the constraints of the tables and the content of every
  stored notification. A lost reply is an error of the driver, not one of the domain's own. The processor, the scheduler and the handlers themselves act so.
\<close>

section \<open>What the handlers rely on\<close>

text \<open>Two versions of a notification that differ in its delivery state only.\<close>

definition same_content :: "notification \<Rightarrow> notification \<Rightarrow> bool" where
  "same_content n n' =
     (n' = n\<lparr>n_Status := n_Status n', n_ProviderMsgID := n_ProviderMsgID n', n_Attempts := n_Attempts n',
             n_LastError := n_LastError n', n_SentAt := n_SentAt n', n_UpdatedAt := n_UpdatedAt n'\<rparr>)"

definition keeps_rows :: "'p pgdb \<Rightarrow> 'p pgdb \<Rightarrow> bool" where
  "keeps_rows s s' = (\<forall>i n. rows s i = Some n \<longrightarrow> (\<exists>n'. rows s' i = Some n' \<and> same_content n n'))"

locale api_env = worker "api_sv a" + pg_templates "sv_pg (api_sv a)" for a :: "('p, 'r, 'h, 'm) api" +
  assumes other_inv: "store_inv (api_pg a) (w_db w) \<Longrightarrow> store_inv (api_pg a) (w_db (api_other a w))"
    and other_rows: "store_inv (api_pg a) (w_db w) \<Longrightarrow> keeps_rows (w_db w) (w_db (api_other a w))"
    and net_sentinel: "pg_net (api_pg a) c = (LostReply e, c') \<Longrightarrow> \<not> err_is e ErrDuplicateKey"

lemma same_content_refl [simp]: "same_content n n"
  by (simp add: same_content_def)

lemma same_content_trans: "same_content n n1 \<Longrightarrow> same_content n1 n2 \<Longrightarrow> same_content n n2"
  unfolding same_content_def by (cases n; cases n1; cases n2) simp

lemma same_content_upd [simp]:
  "same_content n (set_status st t n)" "same_content n (set_error st em b t n)" "same_content n (set_sent pid t n)"
  by (cases n, simp add: same_content_def set_status_def set_error_def set_sent_def)+

lemma same_contentD:
  assumes "same_content n n'"
  shows "n_ID n' = n_ID n" "n_Recipient n' = n_Recipient n" "n_Channel n' = n_Channel n" "n_Content n' = n_Content n"
    "n_Priority n' = n_Priority n" "n_IdempotencyKey n' = n_IdempotencyKey n" "n_BatchID n' = n_BatchID n"
    "n_TemplateID n' = n_TemplateID n" "n_ScheduledAt n' = n_ScheduledAt n" "n_MaxAttempts n' = n_MaxAttempts n"
  using assms unfolding same_content_def by (cases n; cases n'; simp)+

lemma keeps_rows_refl [simp]: "keeps_rows s s"
  by (auto simp: keeps_rows_def)

lemma keeps_rows_trans: "keeps_rows s s1 \<Longrightarrow> keeps_rows s1 s2 \<Longrightarrow> keeps_rows s s2"
  unfolding keeps_rows_def using same_content_trans by blast

lemma keeps_rows_same: "rows s' = rows s \<Longrightarrow> keeps_rows s s'"
  by (simp add: keeps_rows_def)

section \<open>What a call does\<close>

text \<open>A step of the database that keeps the constraints and the content of the notifications.\<close>

definition good :: "'p pg \<Rightarrow> 'p pgdb \<Rightarrow> 'p pgdb \<Rightarrow> bool" where
  "good pg s s' = (store_inv pg s' \<and> keeps_rows s s')"

lemma good_trans: "good pg s s1 \<Longrightarrow> good pg s1 s2 \<Longrightarrow> good pg s s2"
  using keeps_rows_trans by (auto simp: good_def)

lemma goodD: "good pg s s' \<Longrightarrow> store_inv pg s'"
  by (simp add: good_def)

lemma good_refl: "store_inv pg s \<Longrightarrow> good pg s s"
  by (simp add: good_def)

lemma rows_same_db: "same_db s s' \<Longrightarrow> rows s' = rows s"
  by (auto simp: same_db_def)

lemma good_same_db: "store_inv pg s \<Longrightarrow> same_db s s' \<Longrightarrow> good pg s s'"
  by (simp add: good_def same_db_store(1) rows_same_db keeps_rows_same)

lemma keeps_rows_effect:
  assumes "effect e (rows s) (rows s') (\<lambda>t. upd_rows P (g t) (rows s))" "\<And>t n. same_content n (g t n)"
  shows "keeps_rows s s'"
proof -
  have "rows s' = rows s \<or> (\<exists>t. rows s' = upd_rows P (g t) (rows s))" using assms(1) by (auto simp: effect_def)
  then show ?thesis
  proof
    assume "\<exists>t. rows s' = upd_rows P (g t) (rows s)"
    then show ?thesis using assms(2) by (auto simp: keeps_rows_def upd_rows_def)
  qed (rule keeps_rows_same)
qed

text \<open>Appending rows keeps the others.\<close>

lemma rows_append:
  assumes "notifications s' = notifications s @ rs" "rows s i = Some n"
  shows "rows s' i = Some n"
  using assms by (auto simp: rows_def raw_def map_add_def split: option.splits)

lemma keeps_rows_append: "notifications s' = notifications s @ rs \<Longrightarrow> keeps_rows s s'"
  by (auto simp: keeps_rows_def dest: rows_append)

lemma rows_templates [simp]: "rows (s\<lparr>templates := ts\<rparr>) = rows s"
  by (simp add: rows_def raw_def fun_eq_iff)

lemma rows_notifications: "notifications s' = notifications s \<Longrightarrow> rows s' = rows s"
  by (simp add: rows_def raw_def fun_eq_iff)

lemma pg_call_notifications:
  assumes "pg_call pg q s = (x, s')" "\<And>u. notifications (snd (q u)) = notifications u"
  shows "notifications s' = notifications s"
proof -
  have q: "notifications u' = notifications u" if "q u = (y, u')" for u y u' using assms(2) [of u] that by simp
  show ?thesis using assms(1) by (cases rule: pg_call_cases) (auto dest!: q)
qed

lemma template_stmts_notifications:
  "notifications (snd (template_stmt pg (insertTemplate pg) t u)) = notifications u"
  "notifications (snd (template_stmt pg (updateTemplate pg) t u)) = notifications u"
  "notifications (snd (deleteTemplate i u)) = notifications u"
  by (auto simp: template_stmt_def insertTemplate_def updateTemplate_def deleteTemplate_def split: sum.splits option.splits)

lemma TemplateRepo_rows:
  "TemplateRepo_Create pg t s = (e, s') \<Longrightarrow> rows s' = rows s"
  "TemplateRepo_Update pg t s = (e, s') \<Longrightarrow> rows s' = rows s"
  "TemplateRepo_Delete pg i s = (e, s') \<Longrightarrow> rows s' = rows s"
  by (auto simp: TemplateRepo_Create_err TemplateRepo_Update_err TemplateRepo_Delete_err
      intro!: rows_notifications dest: pg_call_notifications [OF _ template_stmts_notifications(1)]
      pg_call_notifications [OF _ template_stmts_notifications(2)] pg_call_notifications [OF _ template_stmts_notifications(3)])

lemma keep_cache_eq: "keep_cache c x = (r, (w', c')) \<longleftrightarrow> x = (r, w') \<and> c' = c"
  by (cases x) (auto simp: keep_cache_def)

text \<open>Reads.\<close>

lemma select_where_snd [simp]: "snd (select_where pg P k n u) = u"
  by (simp add: select_where_def)

lemma repo_reads:
  "NotificationRepo_GetByID pg i s = (x, s') \<Longrightarrow> same_db s s'"
  "NotificationRepo_GetByBatchID pg i s = (y, s') \<Longrightarrow> same_db s s'"
  "TemplateRepo_GetByID pg i s = (z, s') \<Longrightarrow> same_db s s'"
  "TemplateRepo_List pg f s = (v, s') \<Longrightarrow> same_db s s'"
  "pg_ping pg s = (e, s') \<Longrightarrow> same_db s s'"
proof -
  have q: "snd (selectNotificationByID pg i u) = u" "snd (selectNotificationsByBatchID pg i u) = u" for u
    by (simp_all add: selectNotificationByID_def selectNotificationsByBatchID_def)
  show "NotificationRepo_GetByID pg i s = (x, s') \<Longrightarrow> same_db s s'"
    by (auto simp: NotificationRepo_GetByID_def split: prod.splits sum.splits list.splits dest: pg_call_same [OF _ q(1)])
  show "NotificationRepo_GetByBatchID pg i s = (y, s') \<Longrightarrow> same_db s s'"
    by (auto simp: NotificationRepo_GetByBatchID_def query_rows_def split: prod.splits sum.splits dest: pg_call_same [OF _ q(2)])
  show "TemplateRepo_GetByID pg i s = (z, s') \<Longrightarrow> same_db s s'"
    by (auto simp: TemplateRepo_GetByID_def dest: get_template_read)
  show "TemplateRepo_List pg f s = (v, s') \<Longrightarrow> same_db s s'"
    by (auto simp: TemplateRepo_List_def split: prod.splits sum.splits dest: pg_call_same [OF _ select_snd(3)])
  show "pg_ping pg s = (e, s') \<Longrightarrow> same_db s s'"
    by (auto simp: pg_ping_def split: prod.splits intro: pg_call_same)
qed

context pg_templates
begin

lemma store_ops:
  assumes "store_inv pg s"
  shows "NotificationRepo_Create pg n s = (e, s') \<Longrightarrow> store_inv pg s'"
    and "NotificationRepo_CreateBatch pg ns s = (e, s') \<Longrightarrow> store_inv pg s'"
    and "NotificationRepo_UpdateStatus pg i st s = (e, s') \<Longrightarrow> store_inv pg s'"
    and "NotificationRepo_UpdateBatchStatus pg ids st s = (e, s') \<Longrightarrow> store_inv pg s'"
    and "TemplateRepo_Create pg t s = (e, s') \<Longrightarrow> store_inv pg s'"
    and "TemplateRepo_Update pg t s = (e, s') \<Longrightarrow> store_inv pg s'"
    and "TemplateRepo_Delete pg i s = (e, s') \<Longrightarrow> store_inv pg s'"
  using store_exec_inv [OF assms, of "OpNotification (OpCreate n)"] store_exec_inv [OF assms, of "OpNotification (OpCreateBatch ns)"]
    store_exec_inv [OF assms, of "OpNotification (OpUpdateStatus i st)"] store_exec_inv [OF assms, of "OpNotification (OpUpdateBatchStatus ids st)"]
    store_exec_inv [OF assms, of "OpTmplCreate t"] store_exec_inv [OF assms, of "OpTmplUpdate t"] store_exec_inv [OF assms, of "OpTmplDelete i"]
  by simp_all

lemma List_read: "NotificationRepo_List pg f s = (x, s') \<Longrightarrow> same_db s s'"
  by (auto simp: NotificationRepo_List_def query_rows_def Let_def split: prod.splits sum.splits if_splits
      dest!: list_total_same pg_call_same [OF _ query_snd(3)] intro: same_db_trans)

lemma repo_good:
  assumes inv: "store_inv pg s"
  shows "NotificationRepo_Create pg n s = (e, s') \<Longrightarrow> good pg s s'"
    and "NotificationRepo_CreateBatch pg ns s = (e, s') \<Longrightarrow> good pg s s'"
    and "NotificationRepo_UpdateStatus pg i st s = (e, s') \<Longrightarrow> good pg s s'"
    and "NotificationRepo_UpdateBatchStatus pg ids st s = (e, s') \<Longrightarrow> good pg s s'"
    and "TemplateRepo_Create pg t s = (e, s') \<Longrightarrow> good pg s s'"
    and "TemplateRepo_Update pg t s = (e, s') \<Longrightarrow> good pg s s'"
    and "TemplateRepo_Delete pg i s = (e, s') \<Longrightarrow> good pg s s'"
    and "NotificationRepo_List pg f s = (x, s') \<Longrightarrow> good pg s s'"
    and "NotificationRepo_GetByID pg i s = (y, s') \<Longrightarrow> good pg s s'"
    and "NotificationRepo_GetByBatchID pg i s = (z, s') \<Longrightarrow> good pg s s'"
    and "TemplateRepo_GetByID pg i s = (u, s') \<Longrightarrow> good pg s s'"
    and "TemplateRepo_List pg g s = (v, s') \<Longrightarrow> good pg s s'"
    and "pg_ping pg s = (e, s') \<Longrightarrow> good pg s s'"
proof -
  show "NotificationRepo_Create pg n s = (e, s') \<Longrightarrow> good pg s s'"
    using store_ops(1) [OF inv] Create_effect(3) keeps_rows_append [of s' s] keeps_rows_same [OF rows_notifications [of s' s]]
    by (force simp: good_def)
  show "NotificationRepo_CreateBatch pg ns s = (e, s') \<Longrightarrow> good pg s s'"
    using store_ops(2) [OF inv] CreateBatch_effect [of ns s e s'] keeps_rows_append [of s' s] keeps_rows_same [OF rows_notifications [of s' s]]
    by (force simp: good_def)
  show "NotificationRepo_UpdateStatus pg i st s = (e, s') \<Longrightarrow> good pg s s'"
    using store_ops(3) [OF inv] keeps_rows_effect [OF conjunct2 [OF update_ok_calls(1) [OF store_invD [OF inv]]] same_content_upd(1)] by (auto simp: good_def)
  show "NotificationRepo_UpdateBatchStatus pg ids st s = (e, s') \<Longrightarrow> good pg s s'"
    using store_ops(4) [OF inv] keeps_rows_effect [OF conjunct2 [OF update_ok_calls(4) [OF store_invD [OF inv]]] same_content_upd(1)] by (auto simp: good_def)
qed (use store_ops(5-7) [OF inv] in \<open>auto simp: good_def dest: TemplateRepo_rows intro: keeps_rows_same
       good_same_db [OF inv, unfolded good_def, THEN conjunct1] good_same_db [OF inv, unfolded good_def, THEN conjunct2] List_read repo_reads\<close>)

end

section \<open>Every request keeps the database in order\<close>

context api_env
begin

lemma api_db_good:
  assumes "api_db a f w = (x, w')" "store_inv (api_pg a) (w_db w)"
    and "\<And>s y s'. store_inv (api_pg a) s \<Longrightarrow> f s = (y, s') \<Longrightarrow> good (api_pg a) s s'"
  shows "good (api_pg a) (w_db w) (w_db w')"
proof -
  have o: "good (api_pg a) (w_db w) (w_db (api_other a w))" using other_inv other_rows assms(2) by (simp add: good_def)
  obtain s where s: "f (w_db (api_other a w)) = (x, s)" "w_db w' = s"
    using assms(1) by (auto simp: api_db_def on_db_eq)
  then show ?thesis using assms(3) [of "w_db (api_other a w)"] o good_trans by (auto simp: good_def)
qed

lemma calls_good:
  assumes "store_inv (api_pg a) (w_db w)"
  shows "api_db a (NotificationRepo_Create (api_pg a) n) w = (e, w') \<Longrightarrow> good (api_pg a) (w_db w) (w_db w')"
    and "api_db a (NotificationRepo_CreateBatch (api_pg a) ns) w = (e, w') \<Longrightarrow> good (api_pg a) (w_db w) (w_db w')"
    and "api_db a (NotificationRepo_UpdateStatus (api_pg a) i st) w = (e, w') \<Longrightarrow> good (api_pg a) (w_db w) (w_db w')"
    and "api_db a (NotificationRepo_UpdateBatchStatus (api_pg a) ids st) w = (e, w') \<Longrightarrow> good (api_pg a) (w_db w) (w_db w')"
    and "api_db a (TemplateRepo_Create (api_pg a) t) w = (e, w') \<Longrightarrow> good (api_pg a) (w_db w) (w_db w')"
    and "api_db a (TemplateRepo_Update (api_pg a) t) w = (e, w') \<Longrightarrow> good (api_pg a) (w_db w) (w_db w')"
    and "api_db a (TemplateRepo_Delete (api_pg a) i) w = (e, w') \<Longrightarrow> good (api_pg a) (w_db w) (w_db w')"
    and "api_db a (NotificationRepo_List (api_pg a) f) w = (x, w') \<Longrightarrow> good (api_pg a) (w_db w) (w_db w')"
    and "api_db a (NotificationRepo_GetByID (api_pg a) i) w = (y, w') \<Longrightarrow> good (api_pg a) (w_db w) (w_db w')"
    and "api_db a (NotificationRepo_GetByBatchID (api_pg a) i) w = (z, w') \<Longrightarrow> good (api_pg a) (w_db w) (w_db w')"
    and "api_db a (TemplateRepo_GetByID (api_pg a) i) w = (u, w') \<Longrightarrow> good (api_pg a) (w_db w) (w_db w')"
    and "api_db a (TemplateRepo_List (api_pg a) g) w = (v, w') \<Longrightarrow> good (api_pg a) (w_db w) (w_db w')"
    and "api_db a (pg_ping (api_pg a)) w = (e, w') \<Longrightarrow> good (api_pg a) (w_db w) (w_db w')"
  by (erule api_db_good [OF _ assms], erule (1) repo_good)+

lemma worker_Enqueue_db: "worker_Enqueue sv' msg w = (e, w') \<Longrightarrow> w_db w' = w_db w"
  by (auto simp: worker_Enqueue_def on_redis_eq)

lemma other_good: "store_inv (api_pg a) (w_db w) \<Longrightarrow> good (api_pg a) (w_db w) (w_db (api_other a w))"
  using other_inv other_rows by (simp add: good_def)

lemma enqueue_good:
  assumes "NotificationHandler_enqueue a n w = (e, w')" "store_inv (api_pg a) (w_db w)"
  shows "good (api_pg a) (w_db w) (w_db w')"
proof (cases "n_Status n = StatusScheduled")
  case False
  obtain e1 w1 where enq: "api_Enqueue a (MessageFromNotification n) w = (e1, w1)" by fastforce
  then have g1: "good (api_pg a) (w_db w) (w_db w1)"
    using other_good [OF assms(2)] by (auto simp: api_Enqueue_def dest!: worker_Enqueue_db)
  show ?thesis
  proof (cases e1)
    case None
    then have call: "api_db a (NotificationRepo_UpdateStatus (api_pg a) (n_ID n) StatusQueued) w1 = (e, w')"
      using assms(1) False enq by (simp add: NotificationHandler_enqueue_def)
    have "good (api_pg a) (w_db w1) (w_db w')" using calls_good(3) [OF goodD [OF g1] call] .
    then show ?thesis using g1 good_trans by blast
  qed (use assms False enq g1 in \<open>simp add: NotificationHandler_enqueue_def\<close>)
qed (use assms in \<open>simp add: NotificationHandler_enqueue_def good_def\<close>)

lemma batchEnqueue_good:
  assumes "NotificationHandler_batchEnqueue a ns w = (e, w')" "store_inv (api_pg a) (w_db w)"
  shows "good (api_pg a) (w_db w) (w_db w')"
proof -
  let ?q = "filter (\<lambda>n. n_Status n \<noteq> StatusScheduled) ns"
  obtain e1 w1 where enq: "api_EnqueueBatch a (map MessageFromNotification ?q) w = (e1, w1)" by fastforce
  then have g1: "good (api_pg a) (w_db w) (w_db w1)"
    using other_good [OF assms(2)] by (auto simp: api_EnqueueBatch_def Let_def on_redis_eq)
  obtain e2 w2 where call: "api_db a (NotificationRepo_UpdateBatchStatus (api_pg a) (map n_ID ?q) StatusQueued) w1 = (e2, w2)" by fastforce
  have "good (api_pg a) (w_db w1) (w_db w2)" using calls_good(4) [OF goodD [OF g1] call] .
  then have g2: "good (api_pg a) (w_db w) (w_db w2)" using g1 good_trans by blast
  have "good (api_pg a) (w_db w) (w_db w)" using assms(2) by (simp add: good_def)
  then show ?thesis
    using assms(1) g1 g2 call enq by (auto simp: NotificationHandler_batchEnqueue_def Let_def split: if_splits option.splits)
qed

lemma request_content_good:
  assumes "request_content a req (w, cache) = (x, (w', cache'))" "store_inv (api_pg a) (w_db w)"
  shows "good (api_pg a) (w_db w) (w_db w')"
proof (cases "q_TemplateID req")
  case (Some t)
  obtain y w1 where call: "api_db a (TemplateRepo_GetByID (api_pg a) t) w = (y, w1)" by fastforce
  have "good (api_pg a) (w_db w) (w_db w1)" by (rule calls_good(11) [OF assms(2) call])
  then show ?thesis using assms(1) Some call by (auto simp: request_content_def split: sum.splits prod.splits)
qed (use assms in \<open>simp add: request_content_def good_def\<close>)

lemma build_good:
  assumes "buildNotification a req (w, cache) = (x, (w', cache'))" "store_inv (api_pg a) (w_db w)"
  shows "good (api_pg a) (w_db w) (w_db w')"
proof -
  obtain y w1 cache1 where c: "request_content a req (w, cache) = (y, (w1, cache1))" by (metis prod.exhaust)
  have "good (api_pg a) (w_db w) (w_db w1)" by (rule request_content_good [OF c assms(2)])
  moreover have "good (api_pg a) (w_db w) (w_db w)" using assms(2) by (simp add: good_def)
  ultimately show ?thesis
    using assms(1) c by (auto simp: buildNotification_def Let_def split: if_splits sum.splits)
qed

lemma build_all_good:
  "build_all a b reqs (w, cache) = (x, (w', cache')) \<Longrightarrow> store_inv (api_pg a) (w_db w) \<Longrightarrow> good (api_pg a) (w_db w) (w_db w')"
proof (induction reqs arbitrary: w cache x)
  case Nil
  then show ?case by (simp add: good_def)
next
  case (Cons req reqs)
  obtain y w1 cache1 where b: "buildNotification a req (w, cache) = (y, (w1, cache1))" by (metis prod.exhaust)
  note g1 = build_good [OF b Cons.prems(2)]
  show ?case
  proof (cases y)
    case (Inl e)
    then show ?thesis using Cons.prems(1) b g1 by simp
  next
    case (Inr n)
    then obtain z where "build_all a b reqs (w1, cache1) = (z, (w', cache'))"
      using Cons.prems(1) b by (auto split: prod.splits sum.splits)
    from Cons.IH [OF this] g1 have "good (api_pg a) (w_db w1) (w_db w')" by (simp add: good_def [of _ "w_db w"])
    then show ?thesis using g1 good_trans by blast
  qed
qed

lemma Create_good:
  assumes "NotificationHandler_Create a d (w, cache) = (r, (w', cache'))" "store_inv (api_pg a) (w_db w)"
  shows "good (api_pg a) (w_db w) (w_db w')"
proof (cases d)
  case (Inl e)
  then show ?thesis using assms good_refl by (simp add: NotificationHandler_Create_def)
next
  case (Inr req)
  obtain y w1 cache1 where b: "buildNotification a req (w, cache) = (y, (w1, cache1))" by (metis prod.exhaust)
  note g1 = build_good [OF b assms(2)]
  show ?thesis
  proof (cases y)
    case (Inr n)
    obtain e w2 where call: "api_db a (NotificationRepo_Create (api_pg a) n) w1 = (e, w2)" by fastforce
    have g2: "good (api_pg a) (w_db w) (w_db w2)" using good_trans [OF g1 calls_good(1) [OF goodD [OF g1] call]] .
    obtain e3 w3 where enq: "NotificationHandler_enqueue a n w2 = (e3, w3)" by fastforce
    have "good (api_pg a) (w_db w) (w_db w3)" using good_trans [OF g2 enqueue_good [OF enq goodD [OF g2]]] .
    then show ?thesis
      using assms(1) \<open>d = Inr req\<close> b Inr call enq g2 by (auto simp: NotificationHandler_Create_def split: option.splits)
  qed (use assms(1) Inr b g1 in \<open>simp add: NotificationHandler_Create_def\<close>)
qed

lemma BatchCreate_good:
  assumes "NotificationHandler_BatchCreate a d (w, cache) = (r, (w', cache'))" "store_inv (api_pg a) (w_db w)"
  shows "good (api_pg a) (w_db w) (w_db w')"
proof (cases "\<exists>reqs. d = Inr reqs \<and> length reqs \<le> 1000 \<and> reqs \<noteq> []")
  case False
  then show ?thesis using assms good_refl by (auto simp: NotificationHandler_BatchCreate_def split: sum.splits if_splits)
next
  case True
  then obtain reqs where d: "d = Inr reqs" "length reqs \<le> 1000" "reqs \<noteq> []" by blast
  let ?b = "env_uuid (sv_env (api_sv a)) (w_tick w)"
  obtain y w1 cache1 where b: "build_all a ?b reqs (advance 1 w, cache) = (y, (w1, cache1))" by (metis prod.exhaust)
  have g1: "good (api_pg a) (w_db w) (w_db w1)" using build_all_good [OF b] assms(2) by simp
  show ?thesis
  proof (cases y)
    case (Inr ns)
    obtain e w2 where call: "api_db a (NotificationRepo_CreateBatch (api_pg a) ns) w1 = (e, w2)" by fastforce
    have g2: "good (api_pg a) (w_db w) (w_db w2)" using good_trans [OF g1 calls_good(2) [OF goodD [OF g1] call]] .
    obtain e3 w3 where enq: "NotificationHandler_batchEnqueue a ns w2 = (e3, w3)" by fastforce
    have "good (api_pg a) (w_db w) (w_db w3)" using good_trans [OF g2 batchEnqueue_good [OF enq goodD [OF g2]]] .
    then show ?thesis
      using assms(1) d b Inr call enq g2 by (auto simp: NotificationHandler_BatchCreate_def Let_def split: option.splits)
  qed (use assms(1) d b g1 in \<open>auto simp: NotificationHandler_BatchCreate_def Let_def\<close>)
qed

lemma Cancel_good:
  assumes "NotificationHandler_Cancel a path w = (r, w')" "store_inv (api_pg a) (w_db w)"
  shows "good (api_pg a) (w_db w) (w_db w')"
proof (cases "api_ParseUUID a path")
  case None
  then show ?thesis using assms good_refl by (simp add: NotificationHandler_Cancel_def)
next
  case (Some i)
  obtain x w1 where get: "api_db a (NotificationRepo_GetByID (api_pg a) i) w = (x, w1)" by fastforce
  note g1 = calls_good(9) [OF assms(2) get]
  obtain e w2 where upd: "api_db a (NotificationRepo_UpdateStatus (api_pg a) i StatusCancelled) w1 = (e, w2)" by fastforce
  have "good (api_pg a) (w_db w) (w_db w2)" using good_trans [OF g1 calls_good(3) [OF goodD [OF g1] upd]] .
  then show ?thesis
    using assms(1) Some get upd g1 by (auto simp: NotificationHandler_Cancel_def split: sum.splits option.splits if_splits)
qed

lemma Update_good:
  assumes "TemplateHandler_Update a path d w = (r, w')" "store_inv (api_pg a) (w_db w)"
  shows "good (api_pg a) (w_db w) (w_db w')"
proof (cases "\<exists>i req. api_ParseUUID a path = Some i \<and> d = Inr req")
  case False
  then show ?thesis using assms good_refl by (auto simp: TemplateHandler_Update_def split: option.splits sum.splits)
next
  case True
  then obtain i req where i: "api_ParseUUID a path = Some i" "d = Inr req" by blast
  obtain x w1 where get: "api_db a (TemplateRepo_GetByID (api_pg a) i) w = (x, w1)" by fastforce
  note g1 = calls_good(11) [OF assms(2) get]
  show ?thesis
  proof (cases x)
    case (Inr t)
    obtain e w2 where upd: "api_db a (TemplateRepo_Update (api_pg a) (apply_template_request req t)) w1 = (e, w2)" by fastforce
    have "good (api_pg a) (w_db w) (w_db w2)" using good_trans [OF g1 calls_good(6) [OF goodD [OF g1] upd]] .
    then show ?thesis using assms(1) i get upd Inr by (auto simp: TemplateHandler_Update_def Let_def split: option.splits)
  qed (use assms(1) i get g1 in \<open>auto simp: TemplateHandler_Update_def\<close>)
qed

lemma Ready_good:
  assumes "HealthHandler_Ready a w = (r, w')" "store_inv (api_pg a) (w_db w)"
  shows "good (api_pg a) (w_db w) (w_db w')"
proof -
  obtain e1 w1 where p: "api_db a (pg_ping (api_pg a)) w = (e1, w1)" by fastforce
  note g1 = calls_good(13) [OF assms(2) p]
  have "w_db w' = w_db (api_other a w1)"
    using assms(1) p by (auto simp: HealthHandler_Ready_def Let_def on_redis_def split: prod.splits)
  then show ?thesis using good_trans [OF g1 other_good [OF goodD [OF g1]]] by simp
qed

lemma api_exec_good:
  assumes "store_inv (api_pg a) (w_db (fst st))"
  shows "good (api_pg a) (w_db (fst st)) (w_db (fst (snd (api_exec a req st))))"
proof -
  obtain w cache where st: "st = (w, cache)" by fastforce
  obtain r w' cache' where run: "api_exec a req (w, cache) = (r, (w', cache'))" by (metis prod.exhaust)
  have inv: "store_inv (api_pg a) (w_db w)" using assms by (simp add: st)
  have "good (api_pg a) (w_db w) (w_db w')"
  proof (cases req)
    case (PostNotification d)
    then show ?thesis using run Create_good [OF _ inv] by simp
  next
    case (PostBatch d)
    then show ?thesis using run BatchCreate_good [OF _ inv] by simp
  next
    case (GetNotification i)
    then show ?thesis using run inv calls_good(9) [OF inv]
      by (auto simp: keep_cache_eq NotificationHandler_Get_def intro: good_refl split: option.splits prod.splits sum.splits)
  next
    case (GetBatch i)
    then show ?thesis using run inv calls_good(10) [OF inv]
      by (auto simp: keep_cache_eq NotificationHandler_GetBatch_def intro: good_refl split: option.splits prod.splits sum.splits)
  next
    case (PostCancel i)
    then show ?thesis using run Cancel_good [OF _ inv] by (auto simp: keep_cache_eq)
  next
    case (GetNotifications q)
    then show ?thesis using run inv calls_good(8) [OF inv]
      by (auto simp: keep_cache_eq NotificationHandler_List_def Let_def split: prod.splits sum.splits)
  next
    case (PostTemplate d)
    then show ?thesis using run inv calls_good(5) [of "advance 2 w"]
      by (auto simp: keep_cache_eq TemplateHandler_Create_def Let_def intro: good_refl split: option.splits prod.splits sum.splits if_splits)
  next
    case (GetTemplate i)
    then show ?thesis using run inv calls_good(11) [OF inv]
      by (auto simp: keep_cache_eq TemplateHandler_Get_def intro: good_refl split: option.splits prod.splits sum.splits)
  next
    case (PutTemplate i d)
    then show ?thesis using run Update_good [OF _ inv] by (auto simp: keep_cache_eq)
  next
    case (DeleteTemplate i)
    then show ?thesis using run inv calls_good(7) [OF inv]
      by (auto simp: keep_cache_eq TemplateHandler_Delete_def intro: good_refl split: option.splits prod.splits sum.splits)
  next
    case GetTemplates
    then show ?thesis using run inv calls_good(12) [OF inv]
      by (auto simp: keep_cache_eq TemplateHandler_List_def split: prod.splits sum.splits)
  next
    case GetReady
    then show ?thesis using run Ready_good [OF _ inv] by (auto simp: keep_cache_eq)
  qed
  then show ?thesis by (simp add: st run)
qed

end

end
