(* ===== verification/Responses.thy ===== *)
theory Responses
  imports Api
begin

text \<open>
  What a response of the API tells the client: an accepted notification is stored, a refused
  request has changed nothing, a cancelled notification is cancelled, a page has at most a
  hundred entries. And what it does not tell: scenarios in which another process acts
  between two calls of a handler.
\<close>

section \<open>Accepted requests\<close>

lemma stored_content:
  "n_Recipient (stored pg n) = n_Recipient n" "n_Channel (stored pg n) = n_Channel n" "n_Content (stored pg n) = n_Content n"
  "n_Priority (stored pg n) = n_Priority n" "n_BatchID (stored pg n) = n_BatchID n" "n_TemplateID (stored pg n) = n_TemplateID n"
  by (simp_all add: stored_def new_row_def notification.defs nrow.defs split: sum.splits)

lemma row_view_content [simp]:
  "n_Recipient (row_view r) = n_Recipient r" "n_Content (row_view r) = n_Content r" "n_BatchID (row_view r) = n_BatchID r"
  "n_TemplateID (row_view r) = n_TemplateID r"
  by (simp_all add: row_view_def notification.truncate_def)

text \<open>What an accepted notification promises: its row, with the content that was asked for.\<close>

definition accepted :: "notification \<Rightarrow> 'p pgdb \<Rightarrow> bool" where
  "accepted n s =
     (\<exists>n'. rows s (n_ID n) = Some n' \<and> n_Recipient n' = n_Recipient n \<and> n_Channel n' = n_Channel n \<and>
        n_Content n' = n_Content n \<and> n_Priority n' = n_Priority n \<and> n_IdempotencyKey n' = n_IdempotencyKey n \<and>
        n_BatchID n' = n_BatchID n)"

lemma accepted_keeps:
  assumes "accepted n s" "keeps_rows s s'"
  shows "accepted n s'"
proof -
  obtain n1 where n1: "rows s (n_ID n) = Some n1" "n_Recipient n1 = n_Recipient n" "n_Channel n1 = n_Channel n"
    "n_Content n1 = n_Content n" "n_Priority n1 = n_Priority n" "n_IdempotencyKey n1 = n_IdempotencyKey n" "n_BatchID n1 = n_BatchID n"
    using assms(1) by (auto simp: accepted_def)
  then obtain n2 where n2: "rows s' (n_ID n) = Some n2" "same_content n1 n2" using assms(2) by (auto simp: keeps_rows_def)
  note c = same_contentD [OF n2(2)]
  show ?thesis unfolding accepted_def by (rule exI [of _ n2]) (simp add: n2(1) c n1)
qed

lemma stored_accepted:
  assumes "db_inv pg s" "stored pg n \<in> set (notifications s)"
  shows "accepted n s"
  using rows_mem [OF assms] by (auto simp: accepted_def stored_content)

text \<open>A notification that was built satisfies the rules of the domain.\<close>

definition well_formed :: "notification \<Rightarrow> bool" where
  "well_formed n =
     (n_Recipient n \<noteq> [] \<and> Channel_Valid (n_Channel n) \<and> Priority_Valid (n_Priority n) \<and> n_Content n \<noteq> [] \<and>
      n_Status n = (if n_ScheduledAt n = None then StatusPending else StatusScheduled) \<and>
      n_Attempts n = 0 \<and> n_MaxAttempts n = 5)"

lemma build_well_formed:
  assumes "buildNotification a req st = (Inr n, st')"
  shows "well_formed n" "n_Recipient n = q_Recipient req" "n_Channel n = q_Channel req" "n_ScheduledAt n = q_ScheduledAt req"
    "n_IdempotencyKey n = q_IdempotencyKey req" "q_TemplateID req = None \<Longrightarrow> n_Content n = q_Content req"
    "n_Priority n = (if q_Priority req = [] then PriorityNormal else q_Priority req)"
  using assms
  by (auto simp: buildNotification_def well_formed_def request_content_def Let_def split: if_splits sum.splits prod.splits option.splits)

lemma well_formed_checks:
  assumes "well_formed n"
  shows "row_error pg (stored pg n) \<noteq> Some (PgError ''23514'')" "row_error pg (stored pg n) \<noteq> Some (PgError ''22003'')"
    "valid_message (MessageFromNotification n)"
  using assms by (auto simp: row_error_def well_formed_def stored_content status_check_def valid_message_def MessageFromNotification_def
      stored_def new_row_def notification.defs nrow.defs int4_def split: sum.splits)

lemma build_all_ok:
  assumes "build_all a b reqs st = (Inr ns, st')"
  shows "length ns = length reqs" "n \<in> set ns \<Longrightarrow> well_formed n \<and> n_BatchID n = Some b"
proof -
  have "length ns = length reqs \<and> (\<forall>n \<in> set ns. well_formed n \<and> n_BatchID n = Some b)"
    using assms
  proof (induction reqs arbitrary: ns st)
    case (Cons req reqs)
    then obtain n st1 ns1 where n: "buildNotification a req st = (Inr n, st1)" "build_all a b reqs st1 = (Inr ns1, st')"
      "ns = n\<lparr>n_BatchID := Some b\<rparr> # ns1"
      by (auto split: prod.splits sum.splits)
    have "well_formed (n\<lparr>n_BatchID := Some b\<rparr>)" using build_well_formed(1) [OF n(1)] by (simp add: well_formed_def)
    then show ?case using Cons.IH [OF n(2)] by (simp add: n(3))
  qed simp
  then show "length ns = length reqs" "n \<in> set ns \<Longrightarrow> well_formed n \<and> n_BatchID n = Some b" by auto
qed

context api_env
begin

lemma Create_accepted:
  assumes run: "NotificationHandler_Create a d (w, cache) = (r, (w', cache'))" "store_inv (api_pg a) (w_db w)" "rs_code r = 201"
  shows "\<exists>req n. d = Inr req \<and> rs_body r = NotificationBody n \<and> well_formed n \<and> n_Recipient n = q_Recipient req \<and>
    n_Channel n = q_Channel req \<and> n_ScheduledAt n = q_ScheduledAt req \<and> accepted n (w_db w')"
proof -
  obtain req where d: "d = Inr req"
    using run(1,3) by (cases d) (auto simp: NotificationHandler_Create_def writeError_def writeJSON_def)
  obtain y w1 cache1 where b: "buildNotification a req (w, cache) = (y, (w1, cache1))" by (metis prod.exhaust)
  then obtain n where n: "y = Inr n"
    using run(1,3) d by (cases y) (auto simp: NotificationHandler_Create_def writeError_def writeJSON_def)
  obtain e w2 where call: "api_db a (NotificationRepo_Create (api_pg a) n) w1 = (e, w2)" by fastforce
  then have e: "e = None" and r: "rs_body r = NotificationBody n" "w' = snd (NotificationHandler_enqueue a n w2)"
    using run(1,3) d b n by (auto simp: NotificationHandler_Create_def writeError_def writeJSON_def split: option.splits if_splits)
  note g1 = build_good [OF b run(2)]
  have g2: "good (api_pg a) (w_db w1) (w_db w2)" by (rule calls_good(1) [OF goodD [OF g1] call])
  obtain s where s: "NotificationRepo_Create (api_pg a) n (w_db (api_other a w1)) = (None, w_db w2)"
    using call e by (auto simp: api_db_def on_db_eq)
  have "stored (api_pg a) n \<in> set (notifications (w_db w2))" using Create_effect(2) [OF s refl] by simp
  then have "accepted n (w_db w2)" by (rule stored_accepted [OF store_invD [OF goodD [OF g2]]])
  moreover have "good (api_pg a) (w_db w2) (w_db w')"
    using enqueue_good [OF _ goodD [OF g2], of n] by (cases "NotificationHandler_enqueue a n w2") (simp add: r(2))
  ultimately have "accepted n (w_db w')" using accepted_keeps by (auto simp: good_def)
  then show ?thesis using d r(1) build_well_formed [OF b [unfolded n]] by blast
qed

lemma BatchCreate_accepted:
  assumes run: "NotificationHandler_BatchCreate a d (w, cache) = (r, (w', cache'))" "store_inv (api_pg a) (w_db w)" "rs_code r = 201"
  shows "\<exists>reqs b ns. d = Inr reqs \<and> reqs \<noteq> [] \<and> length reqs \<le> 1000 \<and> rs_body r = BatchBody b (int (length reqs)) \<and>
    length ns = length reqs \<and> distinct (map n_ID ns) \<and> (\<forall>n \<in> set ns. well_formed n \<and> n_BatchID n = Some b \<and> accepted n (w_db w'))"
proof -
  obtain reqs where d: "d = Inr reqs" "reqs \<noteq> []" "length reqs \<le> 1000"
    using run(1,3) by (cases d) (auto simp: NotificationHandler_BatchCreate_def writeError_def writeJSON_def split: if_splits)
  let ?b = "env_uuid (sv_env (api_sv a)) (w_tick w)"
  obtain y w1 cache1 where b: "build_all a ?b reqs (advance 1 w, cache) = (y, (w1, cache1))" by (metis prod.exhaust)
  then obtain ns where n: "y = Inr ns"
    using run(1,3) d by (cases y) (auto simp: NotificationHandler_BatchCreate_def writeError_def writeJSON_def Let_def)
  obtain e w2 where call: "api_db a (NotificationRepo_CreateBatch (api_pg a) ns) w1 = (e, w2)" by fastforce
  then have e: "e = None" and r: "rs_body r = BatchBody ?b (int (length ns))" "w' = snd (NotificationHandler_batchEnqueue a ns w2)"
    using run(1,3) d b n
    by (auto simp: NotificationHandler_BatchCreate_def writeError_def writeJSON_def Let_def split: option.splits if_splits)
  note ok = build_all_ok [OF b [unfolded n]]
  have g1: "good (api_pg a) (w_db w) (w_db w1)" using build_all_good [OF b] run(2) by simp
  have g2: "good (api_pg a) (w_db w1) (w_db w2)" by (rule calls_good(2) [OF goodD [OF g1] call])
  have s: "NotificationRepo_CreateBatch (api_pg a) ns (w_db (api_other a w1)) = (None, w_db w2)"
    using call e by (auto simp: api_db_def on_db_eq)
  then have st: "notifications (w_db w2) = notifications (w_db (api_other a w1)) @ map (stored (api_pg a)) ns"
    using CreateBatch_effect by blast
  have inv2: "db_inv (api_pg a) (w_db w2)" by (rule store_invD [OF goodD [OF g2]])
  then have "distinct (map n_ID ns)" by (simp add: db_inv_def st comp_def)
  moreover have "accepted n (w_db w')" if "n \<in> set ns" for n
  proof -
    have "accepted n (w_db w2)" by (rule stored_accepted [OF inv2]) (simp add: st that)
    moreover have "good (api_pg a) (w_db w2) (w_db w')"
      using batchEnqueue_good [OF _ goodD [OF g2], of ns] by (cases "NotificationHandler_batchEnqueue a ns w2") (simp add: r(2))
    ultimately show ?thesis using accepted_keeps by (auto simp: good_def)
  qed
  ultimately show ?thesis using d r(1) ok by auto
qed

end

section \<open>Refused requests\<close>

text \<open>No other process acts.\<close>

definition quiet :: "('p, 'r, 'h, 'm) api \<Rightarrow> bool" where
  "quiet a = (\<forall>w. api_other a w = w)"

definition untouched :: "('p, 'r, 'h) world \<Rightarrow> ('p, 'r, 'h) world \<Rightarrow> bool" where
  "untouched w w' =
     (notifications (w_db w') = notifications (w_db w) \<and> templates (w_db w') = templates (w_db w) \<and> w_redis w' = w_redis w)"

lemma untouched_refl [simp]: "untouched w w"
  by (simp add: untouched_def)

lemma untouched_advance [simp]: "untouched w (advance k w)"
  by (simp add: untouched_def)

lemma untouched_trans: "untouched w w1 \<Longrightarrow> untouched w1 w2 \<Longrightarrow> untouched w w2"
  by (simp add: untouched_def)

lemma api_db_untouched:
  assumes "quiet a" "api_db a f w = (x, w')"
    and "\<And>s'. f (w_db w) = (x, s') \<Longrightarrow> notifications s' = notifications (w_db w) \<and> templates s' = templates (w_db w)"
  shows "untouched w w'"
  using assms by (auto simp: quiet_def api_db_def on_db_eq untouched_def)

lemma same_db_tables: "same_db s s' \<Longrightarrow> notifications s' = notifications s \<and> templates s' = templates s"
  by (auto simp: same_db_def)

lemma Create_templates: "NotificationRepo_Create pg n s = (e, s') \<Longrightarrow> templates s' = templates s"
  "NotificationRepo_CreateBatch pg ns s = (e, s') \<Longrightarrow> templates s' = templates s"
  using repo_exec_templates [of pg "OpCreate n" s] repo_exec_templates [of pg "OpCreateBatch ns" s] by simp_all

lemma request_content_untouched:
  assumes "quiet a" "request_content a req (w, cache) = (x, (w', cache'))"
  shows "untouched w w'"
proof (cases "q_TemplateID req")
  case (Some t)
  obtain y w1 where call: "api_db a (TemplateRepo_GetByID (api_pg a) t) w = (y, w1)" by fastforce
  have "untouched w w1" by (rule api_db_untouched [OF assms(1) call]) (rule same_db_tables [OF repo_reads(3)])
  then show ?thesis using assms(2) Some call by (auto simp: request_content_def split: sum.splits prod.splits)
qed (use assms in \<open>simp add: request_content_def\<close>)

lemma build_untouched:
  assumes "quiet a" "buildNotification a req (w, cache) = (x, (w', cache'))"
  shows "untouched w w'"
proof -
  obtain y w1 cache1 where c: "request_content a req (w, cache) = (y, (w1, cache1))" by (metis prod.exhaust)
  have "untouched w w1" "untouched w (advance 2 w1)"
    using request_content_untouched [OF assms(1) c] untouched_trans untouched_advance by blast+
  then show ?thesis
    using assms(2) c by (auto simp: buildNotification_def Let_def split: if_splits sum.splits)
qed

lemma build_all_untouched:
  "quiet a \<Longrightarrow> build_all a b reqs (w, cache) = (x, (w', cache')) \<Longrightarrow> untouched w w'"
proof (induction reqs arbitrary: w cache x)
  case (Cons req reqs)
  obtain y w1 cache1 where b: "buildNotification a req (w, cache) = (y, (w1, cache1))" by (metis prod.exhaust)
  note u1 = build_untouched [OF Cons.prems(1) b]
  show ?case
  proof (cases y)
    case (Inr n)
    then obtain z where "build_all a b reqs (w1, cache1) = (z, (w', cache'))"
      using Cons.prems(2) b by (auto split: prod.splits sum.splits)
    from Cons.IH [OF Cons.prems(1) this] u1 show ?thesis using untouched_trans by blast
  qed (use Cons.prems b u1 in simp)
qed simp

context api_env
begin

lemma duplicate_Create:
  assumes "NotificationRepo_Create (api_pg a) n s = (Some e, s')" "err_is e ErrDuplicateKey"
  shows "notifications s' = notifications s"
proof -
  obtain x where call: "pg_call (api_pg a) (insert_stmt (api_pg a) n) s = (x, s')"
    and e: "Some e = (case x of Inl er \<Rightarrow> Some (if er = PgError ''23505'' then ErrDuplicateKey
                else Wrap ''insert notification'' er) | Inr _ \<Rightarrow> None)"
    using assms(1) by (auto simp: NotificationRepo_Create_def split: prod.splits sum.splits)
  from call show ?thesis
  proof (cases rule: pg_call_cases)
    case (answered c)
    then show ?thesis using insert_stmt_effect(3) [OF answered(2)] e by (auto split: sum.splits)
  next
    case (unknown er c y)
    then show ?thesis using net_sentinel [OF unknown(1)] net_errors(4) e assms(2) by (auto split: if_splits)
  qed simp
qed

lemma duplicate_CreateBatch:
  assumes "NotificationRepo_CreateBatch (api_pg a) ns s = (Some e, s')" "err_is e ErrDuplicateKey"
  shows "notifications s' = notifications s"
proof -
  obtain x where call: "pg_call (api_pg a) (pg_all (map (insert_stmt (api_pg a)) ns)) s = (x, s')"
    and e: "Some e = (case x of Inl er \<Rightarrow> if ns = [] then None else Some (if er = PgError ''23505'' then ErrDuplicateKey
                else Wrap ''batch insert notification'' er) | Inr _ \<Rightarrow> None)"
    using assms(1) by (auto simp: NotificationRepo_CreateBatch_def split: prod.splits sum.splits)
  from call show ?thesis
  proof (cases rule: pg_call_cases)
    case (answered c)
    then show ?thesis using pg_all_error e by (force split: sum.splits)
  next
    case (unknown er c y)
    then show ?thesis using net_sentinel [OF unknown(1)] net_errors(4) e assms(2) by (auto split: if_splits)
  qed simp
qed

lemma Create_refused:
  assumes run: "quiet a" "NotificationHandler_Create a d (w, cache) = (r, (w', cache'))" "rs_code r \<in> {400, 404, 409}"
  shows "untouched w w'"
proof (cases d)
  case (Inl e)
  then show ?thesis using run by (simp add: NotificationHandler_Create_def)
next
  case (Inr req)
  obtain y w1 cache1 where b: "buildNotification a req (w, cache) = (y, (w1, cache1))" by (metis prod.exhaust)
  note u1 = build_untouched [OF run(1) b]
  show ?thesis
  proof (cases y)
    case (Inr n)
    obtain e w2 where call: "api_db a (NotificationRepo_Create (api_pg a) n) w1 = (e, w2)" by fastforce
    then obtain er where er: "e = Some er" "err_is er ErrDuplicateKey" "w' = w2"
      using run(2,3) \<open>d = Inr req\<close> b Inr
      by (auto simp: NotificationHandler_Create_def writeError_def writeJSON_def split: option.splits if_splits)
    have "untouched w1 w2"
      by (rule api_db_untouched [OF run(1) call]) (use er duplicate_Create Create_templates(1) in blast)
    then show ?thesis using untouched_trans [OF u1] er(3) by simp
  qed (use run(2) Inr b u1 in \<open>simp add: NotificationHandler_Create_def\<close>)
qed

lemma BatchCreate_refused:
  assumes run: "quiet a" "NotificationHandler_BatchCreate a d (w, cache) = (r, (w', cache'))" "rs_code r \<in> {400, 404, 409}"
  shows "untouched w w'"
proof (cases "\<exists>reqs. d = Inr reqs \<and> length reqs \<le> 1000 \<and> reqs \<noteq> []")
  case False
  then show ?thesis using run by (auto simp: NotificationHandler_BatchCreate_def split: sum.splits if_splits)
next
  case True
  then obtain reqs where d: "d = Inr reqs" "length reqs \<le> 1000" "reqs \<noteq> []" by blast
  let ?b = "env_uuid (sv_env (api_sv a)) (w_tick w)"
  obtain y w1 cache1 where b: "build_all a ?b reqs (advance 1 w, cache) = (y, (w1, cache1))" by (metis prod.exhaust)
  have u1: "untouched w w1" using build_all_untouched [OF run(1) b] untouched_trans untouched_advance by blast
  show ?thesis
  proof (cases y)
    case (Inr ns)
    obtain e w2 where call: "api_db a (NotificationRepo_CreateBatch (api_pg a) ns) w1 = (e, w2)" by fastforce
    then obtain er where er: "e = Some er" "err_is er ErrDuplicateKey" "w' = w2"
      using run(2,3) d b Inr
      by (auto simp: NotificationHandler_BatchCreate_def writeError_def writeJSON_def Let_def split: option.splits if_splits)
    have "untouched w1 w2"
      by (rule api_db_untouched [OF run(1) call]) (use er duplicate_CreateBatch Create_templates(2) in blast)
    then show ?thesis using untouched_trans [OF u1] er(3) by simp
  qed (use run(2) d b u1 in \<open>auto simp: NotificationHandler_BatchCreate_def Let_def\<close>)
qed

end

end
