(* ===== verification/Others.thy ===== *)
theory Others
  imports Api
begin

text \<open>
  The other processes keep what the handlers rely on: whatever a worker's processor or the
  scheduler does to the database, the constraints of the tables hold and every notification
  keeps its content. So any mixture of their steps may stand for \<open>api_other\<close>, and the
  interpretation at the end discharges the laws of \<open>api_env\<close> for it.
\<close>

section \<open>Steps of the repository\<close>

definition steady :: "'p pg \<Rightarrow> 'p pgdb \<Rightarrow> 'p pgdb \<Rightarrow> bool" where
  "steady pg s s' = (store_inv pg s \<longrightarrow> good pg s s')"

lemma steady_refl [simp]: "steady pg s s"
  by (simp add: steady_def good_refl)

lemma steady_trans: "steady pg s s1 \<Longrightarrow> steady pg s1 s2 \<Longrightarrow> steady pg s s2"
  unfolding steady_def using good_trans goodD by blast

lemma keeps_rows_mark_sent: "rows s' = mark_sent l t (rows s) \<Longrightarrow> keeps_rows s s'"
proof -
  have "m i = Some n \<Longrightarrow> \<exists>n'. mark_sent l t m i = Some n' \<and> same_content n n'" for m i n
  proof (induction l arbitrary: m n)
    case Nil
    then show ?case by (simp add: mark_sent_def)
  next
    case (Cons ip l)
    obtain j p where ip: "ip = (j, p)" by fastforce
    let ?m = "upd_rows (\<lambda>n. n_ID n = j) (set_sent p t) m"
    obtain n1 where n1: "?m i = Some n1" "same_content n n1" using Cons.prems by (auto simp: upd_rows_def)
    obtain n2 where "mark_sent l t ?m i = Some n2" "same_content n1 n2" using Cons.IH [of ?m n1, OF n1(1)] by blast
    then show ?case using n1(2) same_content_trans by (auto simp: ip mark_sent_def)
  qed
  then show "rows s' = mark_sent l t (rows s) \<Longrightarrow> ?thesis" by (simp add: keeps_rows_def)
qed

context pg_templates
begin

lemma repo_steady:
  "NotificationRepo_GetAndMarkProcessing pg i s = (x, s') \<Longrightarrow> steady pg s s'"
  "NotificationRepo_GetAndMarkProcessingBatch pg ids s = (y, s') \<Longrightarrow> steady pg s s'"
  "NotificationRepo_UpdateStatus pg i st s = (e, s') \<Longrightarrow> steady pg s s'"
  "NotificationRepo_UpdateStatusWithError pg i st em k s = (e, s') \<Longrightarrow> steady pg s s'"
  "NotificationRepo_UpdateSent pg i pid s = (e, s') \<Longrightarrow> steady pg s s'"
  "NotificationRepo_UpdateBatchSent pg ids pids s = (e, s') \<Longrightarrow> steady pg s s'"
  "DeadLetterHandler_Handle pg fresh t i em k s = (e, s') \<Longrightarrow> steady pg s s'"
  "NotificationRepo_GetPendingScheduled pg s = (y, s') \<Longrightarrow> steady pg s s'"
proof -
  have st: "steady pg s (repo_exec pg op s)" if "db_inv pg s \<Longrightarrow> keeps_rows s (repo_exec pg op s)" for op
    using that store_exec_inv [of s "OpNotification op"] by (simp add: steady_def good_def store_invD)
  show "NotificationRepo_GetAndMarkProcessing pg i s = (x, s') \<Longrightarrow> steady pg s s'"
    using st [of "OpGetAndMarkProcessing i"] keeps_rows_effect [OF repo.claim_effect [unfolded mark_def] same_content_upd(1)] by simp
  show "NotificationRepo_GetAndMarkProcessingBatch pg ids s = (y, s') \<Longrightarrow> steady pg s s'"
    using st [of "OpGetAndMarkProcessingBatch ids"] keeps_rows_effect [OF repo.claim_batch_effect [unfolded mark_def] same_content_upd(1)] by simp
  show "NotificationRepo_UpdateStatus pg i st s = (e, s') \<Longrightarrow> steady pg s s'"
    using repo_good(3) by (simp add: steady_def)
  show "NotificationRepo_UpdateStatusWithError pg i st em k s = (e, s') \<Longrightarrow> steady pg s s'"
    using st [of "OpUpdateStatusWithError i st em k"] keeps_rows_effect [OF conjunct2 [OF update_ok_calls(2)] same_content_upd(2)] by simp
  show "NotificationRepo_UpdateSent pg i pid s = (e, s') \<Longrightarrow> steady pg s s'"
    using st [of "OpUpdateSent i pid"] keeps_rows_effect [OF conjunct2 [OF update_ok_calls(3)] same_content_upd(3)] by simp
  show "steady pg s s'" if call: "NotificationRepo_UpdateBatchSent pg ids pids s = (e, s')"
  proof -
    have "keeps_rows s s'" if inv: "db_inv pg s"
      using UpdateBatchSent_call(1) [OF inv call] keeps_rows_mark_sent keeps_rows_same by (auto simp: effect_def)
    then show ?thesis using st [of "OpUpdateBatchSent ids pids"] call by simp
  qed
  show "DeadLetterHandler_Handle pg fresh t i em k s = (e, s') \<Longrightarrow> steady pg s s'"
    using st [of "OpHandle fresh t i em k"] keeps_rows_same [OF Handle_rows, of pg fresh t i em k s e s'] by simp
  show "steady pg s s'" if call: "NotificationRepo_GetPendingScheduled pg s = (y, s')"
  proof -
    have "snd (selectPendingScheduled pg 500 u) = u" for u by (simp add: selectPendingScheduled_def)
    then have "same_db s s'" using call
      by (auto simp: NotificationRepo_GetPendingScheduled_def query_rows_def split: prod.splits sum.splits intro: pg_call_same)
    then show ?thesis using good_same_db by (auto simp: steady_def)
  qed
qed

end

section \<open>Steps of a worker\<close>

locale service = worker sv + pg_templates "sv_pg sv" for sv :: "('p, 'r, 'h) services"

context service
begin

abbreviation ok :: "('p, 'r, 'h) world \<Rightarrow> ('p, 'r, 'h) world \<Rightarrow> bool" where
  "ok w w' \<equiv> steady (sv_pg sv) (w_db w) (w_db w')"

lemma ok_trans: "ok w w1 \<Longrightarrow> ok w1 w2 \<Longrightarrow> ok w w2"
  by (rule steady_trans)

lemma repo_ok:
  "repo_GetAndMarkProcessing (worker_repo (sv_pg sv)) i w = (x, w') \<Longrightarrow> ok w w'"
  "repo_GetAndMarkProcessingBatch (worker_repo (sv_pg sv)) ids w = (y, w') \<Longrightarrow> ok w w'"
  "repo_UpdateStatus (worker_repo (sv_pg sv)) i st w = (e, w') \<Longrightarrow> ok w w'"
  "repo_UpdateStatusWithError (worker_repo (sv_pg sv)) i st em k w = (e, w') \<Longrightarrow> ok w w'"
  "repo_UpdateSent (worker_repo (sv_pg sv)) i pid w = (e, w') \<Longrightarrow> ok w w'"
  "repo_UpdateBatchSent (worker_repo (sv_pg sv)) ids pids w = (e, w') \<Longrightarrow> ok w w'"
  "repo_GetPendingScheduled (worker_repo (sv_pg sv)) w = (y, w') \<Longrightarrow> ok w w'"
  by (auto simp: on_db_eq dest: repo_steady)

lemma ops_ok:
  "p_Handle (worker_processor sv) i em k w = (e, w') \<Longrightarrow> ok w w'"
  "p_EnqueueDelayed (worker_processor sv) msg d w = (e, w') \<Longrightarrow> ok w w'"
  "p_NextDelay (worker_processor sv) k w = (d', w') \<Longrightarrow> ok w w'"
  "p_IncrFailed (worker_processor sv) ch w = Some w' \<Longrightarrow> ok w w'"
  "p_IncrSent (worker_processor sv) ch w = Some w' \<Longrightarrow> ok w w'"
  "worker_send sv n w = (x, w') \<Longrightarrow> ok w w'"
  "worker_Enqueue sv msg w = (e, w') \<Longrightarrow> ok w w'"
  by (auto simp: worker_processor_def on_db_eq on_redis_eq worker_Enqueue_def elim!: worker_send_eq dest: repo_steady)

lemma ack_ok_db [simp]: "w_db (Processor_ack (worker_processor sv) msgs w) = w_db w"
  by (auto simp: Processor_ack_def worker_ops on_redis_def split: list.splits prod.splits)

lemma broadcast_db [simp]: "w_db (p_Broadcast (worker_processor sv) ev w) = w_db w"
  "w_db (p_BroadcastBatch (worker_processor sv) evs w) = w_db w"
  by (simp_all add: worker_processor_def)

lemma handleFailure_ok:
  assumes "Processor_handleFailure (worker_processor sv) n msg e w = Some w'"
  shows "ok w w'"
  using assms unfolding Processor_handleFailure_def Let_def worker_sel(1)
  by (auto simp del: worker_sel(3-) split: option.splits if_splits prod.splits dest!: ops_ok repo_ok) (meson steady_trans)+

lemma send_loop_ok: "send_loop (worker_processor sv) msgs ns w = Some (sent, w') \<Longrightarrow> ok w w'"
proof (induction ns arbitrary: w sent)
  case (Cons n ns)
  obtain x w1 where send: "worker_send sv n w = (x, w1)" by fastforce
  note 1 = ops_ok(6) [OF send]
  show ?case
  proof (cases x)
    case (Inl e)
    then obtain w2 where w2: "Processor_handleFailure (worker_processor sv) n (msgMap msgs (n_ID n)) e w1 = Some w2"
      "send_loop (worker_processor sv) msgs ns w2 = Some (sent, w')"
      using Cons.prems send by (auto split: option.splits)
    then show ?thesis using 1 handleFailure_ok Cons.IH ok_trans by blast
  next
    case (Inr pid)
    then obtain w2 sent' where w2: "p_IncrSent (worker_processor sv) (n_Channel n) w1 = Some w2"
      "send_loop (worker_processor sv) msgs ns w2 = Some (sent', w')"
      using Cons.prems send by (auto split: option.splits prod.splits)
    then show ?thesis using 1 ops_ok(5) Cons.IH ok_trans by blast
  qed
qed simp

lemma Process_ok:
  assumes "Processor_Process (worker_processor sv) msg w = Some w'"
  shows "ok w w'"
  using assms unfolding Processor_Process_def Let_def worker_sel(1,2)
  by (auto simp del: worker_sel(3-) split: sum.splits option.splits if_splits prod.splits
      dest!: ops_ok(5,6) repo_ok handleFailure_ok) (meson steady_trans)+

lemma ProcessBatch_ok:
  assumes "Processor_ProcessBatch (worker_processor sv) msgs w = Some w'"
  shows "ok w w'"
proof -
  have sent: "ok w2 (snd (repo_UpdateBatchSent (worker_repo (sv_pg sv)) ids pids w2))" for ids pids w2
    using repo_ok(6) by (cases "repo_UpdateBatchSent (worker_repo (sv_pg sv)) ids pids w2") (auto simp del: worker_sel)
  show ?thesis
    using assms unfolding Processor_ProcessBatch_def Let_def worker_sel(1)
    by (auto simp del: worker_sel(3-) split: sum.splits option.splits if_splits prod.splits
        dest!: repo_ok send_loop_ok) (meson steady_trans sent)+
qed

section \<open>Steps of the scheduler\<close>

lemma schedule_all_ok: "ok w (schedule_all sv ns w)"
proof (induction ns arbitrary: w)
  case (Cons n ns)
  obtain e w1 where enq: "worker_Enqueue sv (scheduled_message n) w = (e, w1)" by fastforce
  obtain e2 w2 where upd: "repo_UpdateStatus (worker_repo (sv_pg sv)) (n_ID n) StatusQueued w1 = (e2, w2)" by fastforce
  have "ok w w1" "ok w1 w2" using ops_ok(7) [OF enq] repo_ok(3) [OF upd] .
  then have "ok w (schedule_all sv ns w1)" "ok w (schedule_all sv ns w2)" using Cons.IH ok_trans by blast+
  then show ?case using enq upd by (auto simp del: worker_sel split: option.splits)
qed simp

lemma poll_loop_ok:
  assumes "poll_loop sv w = Some w'"
  shows "ok w w'"
proof -
  let ?P = "\<lambda>sv' w w'. sv' = sv \<longrightarrow> ok w w'"
  have "?P sv w w'"
  proof (rule poll_loop.raw_induct [of ?P sv w w'], goal_cases)
    case (1 loop sv' w w')
    have "ok w w'" if sv': "sv' = sv"
    proof -
      obtain x w1 where page: "repo_GetPendingScheduled (worker_repo (sv_pg sv)) w = (x, w1)" by fastforce
      note p = repo_ok(7) [OF page]
      show ?thesis
      proof (cases "\<exists>ns. x = Inr ns \<and> ns \<noteq> []")
        case True
        then obtain ns where ns: "x = Inr ns" "ns \<noteq> []" by blast
        have "loop sv (schedule_all sv ns w1) = Some w'" using 1(2) sv' page ns by simp
        from 1(1) [OF this] have "ok (schedule_all sv ns w1) w'" by simp
        then show ?thesis using p schedule_all_ok ok_trans by blast
      next
        case False
        then have "w' = w1" using 1(2) sv' page by (auto split: sum.splits if_splits)
        then show ?thesis using p by simp
      qed
    qed
    then show ?case by blast
  qed (rule assms)
  then show ?thesis by simp
qed

lemma poll_ok:
  assumes "Scheduler_poll sv w = Some w'"
  shows "ok w w'"
proof -
  have q: "w_db (reclaimExpiredProcessing sv (promoteDelayedRetries sv u)) = w_db u" for u
    using promote_requeues [of u] reclaim_requeues [of "promoteDelayedRetries sv u"] by (simp add: requeues_def)
  obtain x w1 where lock: "on_redis (remote (rd_net (sv_rd sv)) (rd_setnx (sv_rd sv) schedulerLockKey ''1'' schedulerLockTTL)) w = (x, w1)"
    by fastforce
  then have "w_db w1 = w_db w" by (auto simp: on_redis_eq)
  then show ?thesis using assms lock poll_loop_ok [of w1]
    by (auto simp: Scheduler_poll_def q split: sum.splits if_splits)
qed

end

section \<open>Any mixture of the other processes\<close>

text \<open>An action of another process, as far as it returns.\<close>

datatype action = RunProcess message | RunBatch "message list" | RunPoll

fun act :: "('p, 'r, 'h) services \<Rightarrow> action \<Rightarrow> ('p, 'r, 'h) world \<Rightarrow> ('p, 'r, 'h) world" where
  "act sv (RunProcess msg) w = (case Processor_Process (worker_processor sv) msg w of None \<Rightarrow> w | Some w' \<Rightarrow> w')"
| "act sv (RunBatch msgs) w = (case Processor_ProcessBatch (worker_processor sv) msgs w of None \<Rightarrow> w | Some w' \<Rightarrow> w')"
| "act sv RunPoll w = (case Scheduler_poll sv w of None \<Rightarrow> w | Some w' \<Rightarrow> w')"

context service
begin

lemma act_ok: "ok w (act sv x w)"
  by (cases x) (auto split: option.splits dest: Process_ok ProcessBatch_ok poll_ok)

lemma acts_ok: "ok w (fold (act sv) xs w)"
proof (induction xs arbitrary: w)
  case (Cons x xs)
  have "ok w (act sv x w)" "ok (act sv x w) (fold (act sv) xs (act sv x w))" by (rule act_ok, rule Cons.IH)
  then show ?case using ok_trans by auto
qed simp

end

text \<open>The actions that run just before the handler's call at clock tick \<open>k\<close>.\<close>

definition others :: "('p, 'r, 'h) services \<Rightarrow> (nat \<Rightarrow> action list) \<Rightarrow> ('p, 'r, 'h) world \<Rightarrow> ('p, 'r, 'h) world" where
  "others sv plan w = fold (act sv) (plan (w_tick w)) w"

lemma others_env:
  assumes "service sv" "api_sv a = sv" "api_other a = others sv plan"
    and "\<And>c e c'. pg_net (sv_pg sv) c = (LostReply e, c') \<Longrightarrow> \<not> err_is e ErrDuplicateKey"
  shows "api_env a"
proof -
  have ok: "good (sv_pg sv) (w_db w) (w_db (api_other a w))" if "store_inv (sv_pg sv) (w_db w)" for w
    using service.acts_ok [OF assms(1), of w "plan (w_tick w)"] that by (simp add: steady_def others_def assms(3))
  have sv: "worker (api_sv a)" "pg_templates (sv_pg (api_sv a))"
    using assms(1,2) by (simp_all add: service_def)
  show ?thesis
    by (rule api_env.intro [OF sv], unfold_locales) (use ok assms(2,4) in \<open>auto simp: good_def\<close>)
qed

section \<open>An API in memory\<close>

text \<open>
  The services in memory, a template language in which a template renders to its own text,
  and identifiers and times written as they are.
\<close>

definition ex_lib :: "string tmpl_lib" where
  "ex_lib = \<lparr>tl_parse = (\<lambda>name content. Inr content), tl_execute = (\<lambda>m vs. Inr m), tl_quote = (\<lambda>x. x)\<rparr>"

definition ex_api ::
  "mem redis \<Rightarrow> (nat \<Rightarrow> action list) \<Rightarrow> (nat list \<times> time, mem, int result list \<times> string list, string) api" where
  "ex_api rd plan =
     \<lparr>api_sv = ex_sched rd, api_tmpl = ex_lib, api_other = others (ex_sched rd) plan, api_engine = (\<lambda>c. c), api_ParseUUID = Some,
      api_ParseTime = (\<lambda>v. case Atoi v of Inr t \<Rightarrow> Some t | Inl _ \<Rightarrow> None), api_FormatTime = Itoa, api_by_name = (\<lambda>ts. ts)\<rparr>"

interpretation spt: pg_templates steady_pg
  by unfold_locales (auto simp: steady_pg_def mem_pg_def)

interpretation up: service "ex_sched mem_up"
  by (rule service.intro) (simp_all add: sched_up.worker_axioms spt.pg_templates_axioms)

interpretation down: service "ex_sched mem_down"
  by (rule service.intro) (simp_all add: sched_down.worker_axioms spt.pg_templates_axioms)

lemma ex_api_env: "service (ex_sched rd) \<Longrightarrow> api_env (ex_api rd plan)"
  by (rule others_env [of "ex_sched rd" _ plan]) (simp_all add: ex_api_def steady_pg_def)

interpretation api_up: api_env "ex_api mem_up plan"
  by (rule ex_api_env [OF up.service_axioms])

interpretation api_down: api_env "ex_api mem_down plan"
  by (rule ex_api_env [OF down.service_axioms])

lemma ex_api_sel [simp]:
  "api_sv (ex_api rd plan) = ex_sched rd" "api_tmpl (ex_api rd plan) = ex_lib" "api_other (ex_api rd plan) = others (ex_sched rd) plan"
  "api_engine (ex_api rd plan) c = c" "api_ParseUUID (ex_api rd plan) v = Some v" "api_FormatTime (ex_api rd plan) = Itoa"
  by (simp_all add: ex_api_def)

end
