(* ===== verification/Service.thy ===== *)
theory Service
  imports Responses Others
begin

text \<open>
  The API as a whole: what a sequence of requests keeps, what each kind of response means,
  and scenarios in which a worker or the scheduler acts between two calls of a handler.
\<close>

section \<open>Refused and cancelled\<close>

text \<open>The statuses in which a notification can be cancelled.\<close>

definition cancellable :: "status \<Rightarrow> bool" where
  "cancellable st = (st = StatusPending \<or> st = StatusScheduled \<or> st = StatusQueued)"

context api_env
begin

lemma read_untouched:
  "quiet a \<Longrightarrow> api_db a (NotificationRepo_GetByID (api_pg a) i) w = (x, w') \<Longrightarrow> untouched w w'"
  "quiet a \<Longrightarrow> api_db a (NotificationRepo_GetByBatchID (api_pg a) i) w = (y, w') \<Longrightarrow> untouched w w'"
  "quiet a \<Longrightarrow> api_db a (TemplateRepo_GetByID (api_pg a) i) w = (z, w') \<Longrightarrow> untouched w w'"
  "quiet a \<Longrightarrow> api_db a (TemplateRepo_List (api_pg a) g) w = (v, w') \<Longrightarrow> untouched w w'"
  "quiet a \<Longrightarrow> api_db a (NotificationRepo_List (api_pg a) f) w = (u, w') \<Longrightarrow> untouched w w'"
  by (erule (1) api_db_untouched, rule same_db_tables, erule repo_reads List_read)+

lemma Cancel_refused:
  assumes "quiet a" "NotificationHandler_Cancel a path w = (r, w')" "rs_code r \<in> {400, 404, 409}"
  shows "untouched w w'"
  using assms read_untouched(1) [OF assms(1)]
  by (auto simp: NotificationHandler_Cancel_def writeError_def writeJSON_def split: option.splits sum.splits prod.splits if_splits)

lemma Update_refused:
  assumes "quiet a" "TemplateHandler_Update a path d w = (r, w')" "rs_code r \<in> {400, 404, 409}"
  shows "untouched w w'"
  using assms read_untouched(3) [OF assms(1)]
  by (auto simp: TemplateHandler_Update_def writeError_def writeJSON_def Let_def split: option.splits sum.splits prod.splits if_splits)

lemma api_exec_refused:
  assumes q: "quiet a" and run: "api_exec a req (w, cache) = (r, (w', cache'))" and code: "rs_code r \<in> {400, 404, 409}"
  shows "untouched w w'"
proof (cases req)
  case (PostNotification d)
  then show ?thesis using run Create_refused [OF q _ code] by simp
next
  case (PostBatch d)
  then show ?thesis using run BatchCreate_refused [OF q _ code] by simp
next
  case (GetNotification i)
  then show ?thesis using run read_untouched(1) [OF q]
    by (auto simp: keep_cache_eq NotificationHandler_Get_def split: option.splits prod.splits sum.splits)
next
  case (GetBatch i)
  then show ?thesis using run read_untouched(2) [OF q]
    by (auto simp: keep_cache_eq NotificationHandler_GetBatch_def split: option.splits prod.splits sum.splits)
next
  case (PostCancel i)
  then show ?thesis using run Cancel_refused [OF q _ code] by (auto simp: keep_cache_eq)
next
  case (GetNotifications qu)
  then show ?thesis using run read_untouched(5) [OF q]
    by (auto simp: keep_cache_eq NotificationHandler_List_def Let_def split: prod.splits sum.splits)
next
  case (PostTemplate d)
  then show ?thesis using run code
    by (auto simp: keep_cache_eq TemplateHandler_Create_def writeError_def writeJSON_def Let_def split: option.splits prod.splits sum.splits if_splits)
next
  case (GetTemplate i)
  then show ?thesis using run read_untouched(3) [OF q]
    by (auto simp: keep_cache_eq TemplateHandler_Get_def split: option.splits prod.splits sum.splits)
next
  case (PutTemplate i d)
  then show ?thesis using run Update_refused [OF q _ code] by (auto simp: keep_cache_eq)
next
  case (DeleteTemplate i)
  then show ?thesis using run code
    by (auto simp: keep_cache_eq TemplateHandler_Delete_def writeError_def writeJSON_def split: option.splits prod.splits sum.splits)
next
  case GetTemplates
  then show ?thesis using run read_untouched(4) [OF q]
    by (auto simp: keep_cache_eq TemplateHandler_List_def split: prod.splits sum.splits)
next
  case GetReady
  then show ?thesis using run code
    by (auto simp: keep_cache_eq HealthHandler_Ready_def writeJSON_def Let_def split: prod.splits if_splits)
qed

text \<open>Reading a notification by its identifier.\<close>

lemma GetByID_result:
  assumes inv: "db_inv (api_pg a) s" and call: "NotificationRepo_GetByID (api_pg a) i s = (x, s')"
  shows "x = Inr n \<Longrightarrow> rows s i = Some n"
    and "x = Inl e \<Longrightarrow> err_is e ErrNotFound \<Longrightarrow> rows s i = None"
proof -
  obtain y where y: "pg_call (api_pg a) (selectNotificationByID (api_pg a) i) s = (y, s')"
    and x: "x = (case y of Inl e \<Rightarrow> Inl (Wrap ''get notification'' e) | Inr [] \<Rightarrow> Inl ErrNotFound
      | Inr (r # _) \<Rightarrow> scanNotification r)"
    using call by (auto simp: NotificationRepo_GetByID_def split: prod.splits sum.splits list.splits)
  have sn: "snd (selectNotificationByID (api_pg a) i u) = u" for u by (simp add: selectNotificationByID_def)
  have rs: "set rs = {r \<in> set (notifications s). n_ID r = i}" if yr: "y = Inr rs" for rs
  proof -
    from pg_call_read [OF y [unfolded yr] sn] obtain c where
      "rs = take (length (notifications s)) (sort_key (\<lambda>_. 0::int) (pg_order (api_pg a) c (filter (\<lambda>r. n_ID r = i) (notifications s))))"
      by (auto simp: selectNotificationByID_def select_where_def)
    moreover have "length (pg_order (api_pg a) c (filter (\<lambda>r. n_ID r = i) (notifications s))) \<le> length (notifications s)"
      using order by (metis length_filter_le size_mset)
    ultimately show ?thesis by simp
  qed
  have ok: "r \<in> set (notifications s) \<Longrightarrow> scanNotification r = Inr (row_view r) \<and> rows s (n_ID r) = Some (row_view r)" for r
    using inv rows_mem [OF inv] scanNotification_ok by (auto simp: db_inv_def)
  show "rows s i = Some n" if xn: "x = Inr n"
  proof -
    obtain r rs' where yr: "y = Inr (r # rs')" using x xn by (auto split: sum.splits list.splits)
    then have "r \<in> set (notifications s)" "n_ID r = i" using rs [OF yr] by (auto simp: set_eq_iff)
    then show ?thesis using ok [of r] x yr xn by auto
  qed
  show "rows s i = None" if e: "x = Inl e" "err_is e ErrNotFound"
  proof -
    have "y = Inr []"
    proof (cases y)
      case (Inl er)
      then have "err_is er ErrNotFound" using e x by auto
      moreover have "\<not> err_is er ErrNotFound" using y [unfolded Inl]
        by (cases rule: pg_call_cases) (auto simp: selectNotificationByID_def select_where_def dest: net_errors)
      ultimately show ?thesis by simp
    next
      case (Inr rs')
      show ?thesis
      proof (cases rs')
        case (Cons r rs'')
        then have "r \<in> set (notifications s)" using rs [OF Inr] by (auto simp: set_eq_iff)
        then show ?thesis using ok [of r] e x Inr Cons by simp
      qed (use Inr in simp)
    qed
    then have "{r \<in> set (notifications s). n_ID r = i} = {}" using rs by (metis empty_set)
    then show ?thesis using rows_Some [of s i] by (cases "rows s i") auto
  qed
qed

text \<open>A status is written over whatever the others have made of the row.\<close>

lemma status_write:
  assumes inv: "store_inv (api_pg a) (w_db w)" and row: "rows (w_db w) i = Some n"
    and call: "api_db a (NotificationRepo_UpdateStatus (api_pg a) i st) w = (None, w')"
  shows "\<exists>n'. rows (w_db w') i = Some n' \<and> n_Status n' = st \<and> same_content n n'"
    and "quiet a \<Longrightarrow> \<exists>t. rows (w_db w') = (rows (w_db w))(i \<mapsto> set_status st t n) \<and> w_redis w' = w_redis w"
proof -
  let ?u = "api_other a w"
  note g = other_good [OF inv]
  obtain n1 where n1: "rows (w_db ?u) i = Some n1" "same_content n n1" using g row by (auto simp: good_def keeps_rows_def)
  obtain s where s: "NotificationRepo_UpdateStatus (api_pg a) i st (w_db ?u) = (None, s)" "w' = (advance 1 ?u)\<lparr>w_db := s\<rparr>"
    using call by (auto simp: api_db_def on_db_eq)
  have inv': "db_inv (api_pg a) (w_db ?u)" by (rule store_invD [OF goodD [OF g]])
  obtain t where "rows s = upd_rows (\<lambda>n. n_ID n = i) (set_status st t) (rows (w_db ?u))"
    using update_ok_calls(1) [OF inv' s(1)] by (auto simp: effect_def)
  then have t: "rows s = (rows (w_db ?u))(i := map_option (set_status st t) (rows (w_db ?u) i))"
    using upd_rows_id [of "rows (w_db ?u)"] repo.tbl_valid [OF inv'] by auto
  have "same_content n (set_status st t n1)" using n1(2) same_content_trans same_content_upd(1) by blast
  moreover have "rows (w_db w') i = Some (set_status st t n1)" using t n1(1) by (simp add: s(2))
  ultimately show "\<exists>n'. rows (w_db w') i = Some n' \<and> n_Status n' = st \<and> same_content n n'"
    by (intro exI [of _ "set_status st t n1"]) (simp add: set_status_def)
  show "\<exists>t. rows (w_db w') = (rows (w_db w))(i \<mapsto> set_status st t n) \<and> w_redis w' = w_redis w" if q: "quiet a"
  proof -
    have "?u = w" using q by (simp add: quiet_def)
    then show ?thesis using t row by (intro exI [of _ t]) (simp add: s(2))
  qed
qed

lemma Cancel_ok:
  assumes inv: "store_inv (api_pg a) (w_db w)" and run: "NotificationHandler_Cancel a path w = (r, w')"
    and i: "api_ParseUUID a path = Some i"
  shows "rs_code r = 200 \<Longrightarrow> \<exists>n. rows (w_db w') i = Some n \<and> n_Status n = StatusCancelled"
    and "quiet a \<Longrightarrow> rs_code r = 200 \<Longrightarrow> \<exists>n t. rows (w_db w) i = Some n \<and> cancellable (n_Status n) \<and>
      rows (w_db w') = (rows (w_db w))(i \<mapsto> set_status StatusCancelled t n) \<and> w_redis w' = w_redis w"
    and "quiet a \<Longrightarrow> rs_code r = 409 \<Longrightarrow> \<exists>n. rows (w_db w) i = Some n \<and> \<not> cancellable (n_Status n)"
    and "quiet a \<Longrightarrow> rs_code r = 404 \<Longrightarrow> rows (w_db w) i = None"
proof -
  obtain x w1 where get: "api_db a (NotificationRepo_GetByID (api_pg a) i) w = (x, w1)" by fastforce
  note g1 = calls_good(9) [OF inv get]
  obtain s1 where s1: "NotificationRepo_GetByID (api_pg a) i (w_db (api_other a w)) = (x, s1)" "w1 = (advance 1 (api_other a w))\<lparr>w_db := s1\<rparr>"
    using get by (auto simp: api_db_def on_db_eq)
  have inv': "db_inv (api_pg a) (w_db (api_other a w))" by (rule store_invD [OF goodD [OF other_good [OF inv]]])
  note res = GetByID_result [OF inv' s1(1)]
  have same: "rows (w_db w1) = rows (w_db (api_other a w))" using rows_same_db [OF repo_reads(1) [OF s1(1)]] by (simp add: s1(2))
  have fin: "\<exists>n. x = Inr n \<and> cancellable (n_Status n) \<and>
      api_db a (NotificationRepo_UpdateStatus (api_pg a) i StatusCancelled) w1 = (None, w')" if "rs_code r = 200"
    using run i get that
    by (auto simp: NotificationHandler_Cancel_def writeError_def writeJSON_def cancellable_def split: sum.splits prod.splits option.splits if_splits)
  show "\<exists>n. rows (w_db w') i = Some n \<and> n_Status n = StatusCancelled" if c: "rs_code r = 200"
    using fin [OF c] res(1) same status_write(1) [OF goodD [OF g1]] by metis
  have qsame: "rows (w_db w1) = rows (w_db w)" "w_redis w1 = w_redis w" "api_other a w = w" if "quiet a"
    using same that by (simp_all add: quiet_def s1(2))
  show "\<exists>n t. rows (w_db w) i = Some n \<and> cancellable (n_Status n) \<and>
      rows (w_db w') = (rows (w_db w))(i \<mapsto> set_status StatusCancelled t n) \<and> w_redis w' = w_redis w" if q: "quiet a" and c: "rs_code r = 200"
    using fin [OF c] res(1) qsame [OF q] status_write(2) [OF goodD [OF g1] _ _ q] by metis
  show "\<exists>n. rows (w_db w) i = Some n \<and> \<not> cancellable (n_Status n)" if q: "quiet a" and c: "rs_code r = 409"
    using run i get c res(1) qsame(3) [OF q]
    by (auto simp: NotificationHandler_Cancel_def writeError_def writeJSON_def cancellable_def split: sum.splits prod.splits option.splits if_splits)
  show "rows (w_db w) i = None" if q: "quiet a" and c: "rs_code r = 404"
    using run i get c res(2) qsame(3) [OF q]
    by (auto simp: NotificationHandler_Cancel_def writeError_def writeJSON_def split: sum.splits prod.splits option.splits if_splits)
qed

end

section \<open>Lists\<close>

lemma list_filter_bounds: "1 \<le> f_Limit (list_filter a q)" "f_Limit (list_filter a q) \<le> 100" "0 \<le> f_Offset (list_filter a q)"
  by (auto simp: list_filter_def split: sum.splits)

context api_env
begin

lemma List_page:
  assumes inv: "store_inv (api_pg a) (w_db w)" and run: "NotificationHandler_List a q w = (r, w')"
    and body: "rs_body r = ListBody ns ttl lmt off cursor"
  shows "rs_code r = 200" "1 \<le> lmt" "lmt \<le> 100" "0 \<le> off" "int (length ns) \<le> lmt"
    "\<forall>n \<in> set ns. matches (api_pg a) (list_filter a q) n"
    "cursor = (if ns = [] then None else Some (api_FormatTime a (n_CreatedAt (last ns))))"
proof -
  let ?f = "list_filter a q"
  obtain s where call: "NotificationRepo_List (api_pg a) ?f (w_db (api_other a w)) = (Inr (ns, ttl), s)"
    and b: "rs_code r = 200" "lmt = f_Limit ?f" "off = f_Offset ?f" "cursor = (if ns = [] then None else Some (api_FormatTime a (n_CreatedAt (last ns))))"
    using run body
    by (auto simp: NotificationHandler_List_def api_db_def on_db_def writeError_def writeJSON_def Let_def split: prod.splits sum.splits if_splits)
  note f = list_filter_bounds [of a q]
  show "rs_code r = 200" "1 \<le> lmt" "lmt \<le> 100" "0 \<le> off"
    "cursor = (if ns = [] then None else Some (api_FormatTime a (n_CreatedAt (last ns))))"
    using b f by simp_all
  have "db_inv (api_pg a) (w_db (api_other a w))" by (rule store_invD [OF goodD [OF other_good [OF inv]]])
  from List_result [OF this call] f obtain all where
    all: "mset all = mset (filter (matches (api_pg a) ?f) (map row_view (notifications (w_db (api_other a w)))))"
    "ns = take (nat (f_Limit ?f)) (drop (if f_Cursor ?f = None then nat (f_Offset ?f) else 0) all)"
    by auto
  show "int (length ns) \<le> lmt" using f by (simp add: all(2) b(2))
  have "set ns \<subseteq> set all" using all(2) by (metis order_trans set_drop_subset set_take_subset)
  also have "set all = set (filter (matches (api_pg a) ?f) (map row_view (notifications (w_db (api_other a w)))))"
    using all(1) by (metis set_mset_mset)
  finally show "\<forall>n \<in> set ns. matches (api_pg a) ?f n" by auto
qed

end

section \<open>Readiness\<close>

lemma ready_code:
  assumes "HealthHandler_Ready a w = (r, w')"
  shows "rs_code r = (if fst (api_db a (pg_ping (api_pg a)) w) = None \<and>
      fst (rd_ping (sv_rd (api_sv a)) (w_redis (api_other a (snd (api_db a (pg_ping (api_pg a)) w))))) = None then 200 else 503)"
  using assms by (auto simp: HealthHandler_Ready_def writeJSON_def Let_def on_redis_def split: prod.splits if_splits)

section \<open>When the services answer\<close>

context pg_server
begin

lemma claim_up:
  assumes "pg_up pg" "db_inv pg s" "rows s i = Some n0" "claimable (n_Status n0)"
  shows "\<exists>n s'. NotificationRepo_GetAndMarkProcessing pg i s = (Inr n, s')"
proof -
  obtain x s' where call: "NotificationRepo_GetAndMarkProcessing pg i s = (x, s')" by fastforce
  have "\<exists>rs u. getAndMarkProcessing pg i (s\<lparr>pg_conn := c\<rparr>) = (Inr rs, u)" for c
    unfolding getAndMarkProcessing_def by (rule update_status_where [OF assms(2)]) simp
  then obtain rs u where q: "pg_call pg (getAndMarkProcessing pg i) s = (Inr rs, u)" by (metis pg_call_up [OF assms(1)])
  have "x \<noteq> Inl ErrNotFound" using GetAndMarkProcessing_call(4) [OF assms(2) call] assms(3,4) by auto
  then obtain r rs' where rs: "rs = r # rs'" using call q by (cases rs) (auto simp: NotificationRepo_GetAndMarkProcessing_def)
  then have "pg_call pg (getAndMarkProcessingBatch pg [i]) s = (Inr (r # rs'), u)" using q by (simp add: getAndMarkProcessing_batch)
  from claim_call(3) [OF assms(2) this refl] have "scanNotification r = Inr (row_view r)" by (auto split: sum.splits)
  then show ?thesis using q rs by (simp add: NotificationRepo_GetAndMarkProcessing_def)
qed

lemma GetByID_up:
  assumes "pg_up pg" "db_inv pg s" "rows s i = Some n"
  shows "\<exists>s'. NotificationRepo_GetByID pg i s = (Inr n, s')"
proof -
  obtain r where r: "r \<in> set (notifications s)" "n = row_view r" "n_ID r = i" using rows_Some [OF assms(3)] by blast
  obtain x s' where call: "NotificationRepo_GetByID pg (n_ID r) s = (x, s')" by fastforce
  have "\<exists>rs u. pg_call pg (selectNotificationByID pg i) s = (Inr rs, u)"
    by (simp add: pg_call_up [OF assms(1)] selectNotificationByID_def select_where_def)
  then have "x \<noteq> Inl (Wrap ''get notification'' e)" for e
    using call assms(2) r(3)
    by (auto simp: NotificationRepo_GetByID_def scanNotification_def split: list.splits option.splits sum.splits)
  then show ?thesis using GetByID_stored [OF assms(2) r(1) call] call r(2,3) by auto
qed

end

text \<open>A provider that answers 200, and a worker that delivers a claimable notification to it.\<close>

lemma ex_send:
  assumes "w_http w = ([], l)" "w_cb w = NewCircuitBreaker 5 (30 * 10 ^ 9)"
  shows "\<exists>i b w'. worker_send (ex_sched rd) n w = (Inr i, w') \<and> w_http w' = ([], b # l) \<and> w_metrics w' = w_metrics w"
  using assms by (simp add: send_eval ex_sched_def Let_def)

lemma ex_process:
  assumes "service (ex_sched rd)" "world_inv steady_pg w" "rows (w_db w) (m_NotificationID msg) = Some n0" "claimable (n_Status n0)"
    and "w_http w = ([], l)" "w_cb w = NewCircuitBreaker 5 (30 * 10 ^ 9)"
  shows "\<exists>b. w_http (act (ex_sched rd) (RunProcess msg) w) = ([], b # l)"
proof -
  let ?p = "worker_processor (ex_sched rd)"
  have inv: "db_inv steady_pg (w_db w)" using assms(2) by (simp add: world_inv_def)
  obtain n s where c: "NotificationRepo_GetAndMarkProcessing steady_pg (m_NotificationID msg) (w_db w) = (Inr n, s)"
    using spg.claim_up [OF ex_networks(2) inv assms(3,4)] by blast
  then have claim: "repo_GetAndMarkProcessing (p_repo ?p) (m_NotificationID msg) w = (Inr n, w\<lparr>w_db := s\<rparr>)" (is "_ = (_, ?w1)")
    by (simp add: on_db_def)
  have "rows s (m_NotificationID msg) = Some n" "db_inv steady_pg s"
    using spg.repo.claim_ok [OF inv c] spg.repo.claim_inv [OF inv c] by simp_all
  then have ch: "Channel_Valid (n_Channel n)" using spg.repo.tbl_valid by blast
  obtain i b w2 where send: "worker_send (ex_sched rd) n ?w1 = (Inr i, w2)" "w_http w2 = ([], b # l)" "w_metrics w2 = w_metrics w"
    using ex_send [of ?w1 l rd n] assms(5,6) by auto
  obtain e w3 where upd: "repo_UpdateSent (p_repo ?p) (n_ID n) i w2 = (e, w3)" by fastforce
  then have w3: "w_http w3 = w_http w2" "w_metrics w3 = w_metrics w2" by (auto simp: on_db_eq)
  obtain m where m: "IncrSent (n_Channel n) (w_metrics w) = Some m"
    using incr_ok [of "w_metrics w" "n_Channel n" "\<lambda>v. v\<lparr>mt_Sent := mt_Sent v + 1\<rparr>"] assms(2) ch
    by (auto simp: IncrSent_def world_inv_def)
  have "w_http (Processor_ack ?p [msg] w3) = w_http w2" "w_metrics (Processor_ack ?p [msg] w3) = w_metrics w"
    using w3 send(3) by (auto simp: Processor_ack_def worker_ops on_redis_def split: prod.splits)
  then have "\<exists>w'. Processor_Process ?p msg w = Some w' \<and> w_http w' = w_http w2"
    using claim send(1) upd w3(1) m
    by (cases e) (auto simp: Processor_Process_def worker_ops Let_def worker_processor_def simp del: worker_sel(3-))
  then show ?thesis using send(2) by auto
qed

section \<open>Examples\<close>

text \<open>
  An empty service, a request, and the notification it becomes: the clock reads zero and
  the first UUID is \<open>1\<close>.
\<close>

definition ex_empty :: "(nat list \<times> time, mem, int result list \<times> string list) world" where
  "ex_empty = new_worker 5 (30 * 10 ^ 9) (empty_db ([], 0)) (mem_init []) ([], [])"

definition ex_req :: createNotificationRequest where
  "ex_req =
     \<lparr>q_Recipient = ''+905551234567'', q_Channel = ChannelSMS, q_Content = ''hello'', q_Priority = [], q_TemplateID = None,
      q_TemplateVars = None, q_ScheduledAt = None, q_IdempotencyKey = None\<rparr>"

definition ex_new :: notification where
  "ex_new = (ex_pending ''1'' None)\<lparr>n_CreatedAt := 0, n_UpdatedAt := 0\<rparr>"

definition ex_msg1 :: message where
  "ex_msg1 = MessageFromNotification ex_new"

lemma ex_Itoa: "Itoa 0 = ''0''" "Itoa 1 = ''1''" "Itoa 2 = ''2''"
  by code_simp+

lemma quiet_ex [simp]: "others sv (\<lambda>_. []) w = w" "quiet (ex_api rd (\<lambda>_. []))"
  by (simp_all add: others_def quiet_def)

lemma ex_empty_inv: "store_inv steady_pg (w_db ex_empty)" "world_inv steady_pg ex_empty"
  using db_inv_empty by (simp_all add: store_inv_def world_inv_def ex_empty_def new_worker_def metrics_ok_new) (simp add: empty_db_def)

lemma ex_new_sel [simp]:
  "n_ID ex_new = ''1''" "n_Status ex_new = StatusPending" "n_Channel ex_new = ChannelSMS" "m_NotificationID ex_msg1 = ''1''"
  "StatusPending \<noteq> StatusScheduled" "valid_message ex_msg1"
  by (simp_all add: ex_new_def ex_pending_def ex_msg1_def MessageFromNotification_def valid_message_def status_defs)

lemma ex_build:
  assumes "w_tick w = 0"
  shows "buildNotification (ex_api rd plan) ex_req (w, cache) = (Inr ex_new, (advance 2 w, cache))"
  using assms
  by (simp add: buildNotification_def request_content_def ex_req_def ex_new_def ex_pending_def Channel_Valid_def Priority_Valid_def
      channel_defs priority_defs ex_Itoa Let_def)

lemma ex_created:
  "\<exists>c. NotificationRepo_Create steady_pg ex_new (empty_db ([], 0)) =
     (None, \<lparr>pg_conn = ([], c), notifications = [new_row mem_pg ex_new JNull], templates = [], dead_letters = []\<rparr>)"
  by (simp add: NotificationRepo_Create_def ex_new_def steady_pg_def repo_eval)

text \<open>The world after the insert, in which only the API has acted.\<close>

lemma ex_create:
  assumes "plan 0 = []" "plan 2 = []"
  shows "\<exists>w2. NotificationHandler_Create (ex_api rd plan) (Inr ex_req) (ex_empty, cache) =
     (writeJSON 201 (NotificationBody ex_new), (snd (NotificationHandler_enqueue (ex_api rd plan) ex_new w2), cache)) \<and>
     rows (w_db w2) = [''1'' \<mapsto> row_view (new_row mem_pg ex_new JNull)] \<and> store_inv steady_pg (w_db w2) \<and>
     w_redis w2 = mem_init [] \<and> w_http w2 = ([], []) \<and> w_cb w2 = NewCircuitBreaker 5 (30 * 10 ^ 9) \<and>
     w_metrics w2 = NewMetricsCollector \<and> w_tick w2 = 3"
proof -
  obtain c where c: "NotificationRepo_Create steady_pg ex_new (empty_db ([], 0)) =
     (None, \<lparr>pg_conn = ([], c), notifications = [new_row mem_pg ex_new JNull], templates = [], dead_letters = []\<rparr>)" (is "_ = (_, ?s)")
    using ex_created by blast
  let ?w = "ex_empty\<lparr>w_tick := 3, w_db := ?s\<rparr>"
  have e: "w_tick ex_empty = 0" "w_db ex_empty = empty_db ([], 0)" by (simp_all add: ex_empty_def new_worker_def)
  have "NotificationHandler_Create (ex_api rd plan) (Inr ex_req) (ex_empty, cache) =
     (writeJSON 201 (NotificationBody ex_new), (snd (NotificationHandler_enqueue (ex_api rd plan) ex_new ?w), cache))"
    using ex_build [OF e(1)] assms(2) [unfolded numeral_2_eq_2]
    by (simp add: NotificationHandler_Create_def api_db_def on_db_def others_def advance_def e c Let_def numeral_3_eq_3)
  moreover have "rows ?s = [''1'' \<mapsto> row_view (new_row mem_pg ex_new JNull)]"
    by (simp add: rows_def raw_def fun_eq_iff)
  moreover have "store_inv steady_pg ?s"
    using spt.store_exec_inv [of "empty_db ([], 0)" "OpNotification (OpCreate ex_new)"] ex_empty_inv(1) by (simp add: c e)
  ultimately show ?thesis by (intro exI [of _ ?w]) (simp add: ex_empty_def new_worker_def)
qed

section \<open>Races\<close>

text \<open>A write of a status by the API when PostgreSQL answers, after the worker has delivered the notification.\<close>

lemma ex_overwritten:
  assumes plan: "plan (w_tick w) = [RunProcess msg]" and inv: "store_inv steady_pg (w_db w)" "metrics_ok (w_metrics w)"
    and row: "rows (w_db w) (m_NotificationID msg) = Some n" "claimable (n_Status n)" and st: "status_check st"
    and http: "w_http w = ([], l)" "w_cb w = NewCircuitBreaker 5 (30 * 10 ^ 9)"
  shows "\<exists>w' n' b. api_db (ex_api mem_up plan) (NotificationRepo_UpdateStatus steady_pg (m_NotificationID msg) st) w = (None, w') \<and>
    rows (w_db w') (m_NotificationID msg) = Some n' \<and> n_Status n' = st \<and> w_http w' = ([], b # l)"
proof -
  let ?a = "ex_api mem_up plan" and ?i = "m_NotificationID msg"
  let ?u = "act (ex_sched mem_up) (RunProcess msg) w"
  have u: "others (ex_sched mem_up) plan w = ?u" by (simp add: others_def plan)
  have w: "world_inv steady_pg w" using inv by (simp add: world_inv_def store_invD)
  obtain b where b: "w_http ?u = ([], b # l)" using ex_process [OF up.service_axioms w row http] by blast
  have "db_inv steady_pg (w_db ?u)" using api_up.other_inv [of plan w] inv(1) u by (simp add: store_invD)
  then have "fst (NotificationRepo_UpdateStatus steady_pg ?i st (w_db ?u)) = None"
    using spg.UpdateStatus_up [OF ex_networks(2) _ st] by blast
  then obtain s where s: "NotificationRepo_UpdateStatus steady_pg ?i st (w_db ?u) = (None, s)" by (metis prod.collapse)
  then have call: "api_db ?a (NotificationRepo_UpdateStatus steady_pg ?i st) w = (None, (advance 1 ?u)\<lparr>w_db := s\<rparr>)"
    by (simp add: api_db_def on_db_def u del: act.simps)
  have inv': "store_inv (api_pg ?a) (w_db w)" using inv(1) by simp
  have "api_db ?a (NotificationRepo_UpdateStatus (api_pg ?a) ?i st) w = (None, (advance 1 ?u)\<lparr>w_db := s\<rparr>)" using call by simp
  from api_up.status_write(1) [OF inv' row(1) this] b call show ?thesis by (auto simp del: act.simps)
qed

lemma ex_enqueued:
  assumes "plan (w_tick w) = []"
  shows "\<exists>r. api_Enqueue (ex_api mem_up plan) ex_msg1 w = (None, (advance 1 w)\<lparr>w_redis := r\<rparr>)"
  using assms
  by (simp add: api_Enqueue_def others_def worker_Enqueue_def on_redis_def Producer_Enqueue_def ex_msg1_def MessageFromNotification_def
      ex_new_def ex_pending_def text_codec_def rd_do_def remote_def mem_up_def Let_def) (rule exI, rule refl)

section \<open>Examples of responses\<close>

definition ex_stored :: "(nat list \<times> time, mem, int result list \<times> string list) world" where
  "ex_stored = ex_empty\<lparr>w_db := snd (NotificationRepo_Create steady_pg ex_new (empty_db ([], 0)))\<rparr>"

lemma ex_stored_facts:
  "store_inv steady_pg (w_db ex_stored)" "\<exists>n. rows (w_db ex_stored) ''1'' = Some n \<and> n_Status n = StatusPending"
  "w_metrics ex_stored = NewMetricsCollector" "w_http ex_stored = ([], [])" "w_cb ex_stored = NewCircuitBreaker 5 (30 * 10 ^ 9)"
  "w_tick ex_stored = 0"
proof -
  obtain c where c: "NotificationRepo_Create steady_pg ex_new (empty_db ([], 0)) =
     (None, \<lparr>pg_conn = ([], c), notifications = [new_row mem_pg ex_new JNull], templates = [], dead_letters = []\<rparr>)"
    using ex_created by blast
  show "store_inv steady_pg (w_db ex_stored)"
    using spt.store_exec_inv [of "empty_db ([], 0)" "OpNotification (OpCreate ex_new)"] ex_empty_inv(1)
    by (simp add: ex_stored_def ex_empty_def new_worker_def)
  show "\<exists>n. rows (w_db ex_stored) ''1'' = Some n \<and> n_Status n = StatusPending"
    by (simp add: ex_stored_def c rows_def raw_def)
qed (simp_all add: ex_stored_def ex_empty_def new_worker_def)

text \<open>Cancelling up to the write, when nothing happens before the read.\<close>

lemma ex_cancel_read:
  assumes "plan 0 = []"
  shows "\<exists>n s. NotificationHandler_Cancel (ex_api mem_up plan) ''1'' ex_stored =
     (case api_db (ex_api mem_up plan) (NotificationRepo_UpdateStatus steady_pg ''1'' StatusCancelled) (ex_stored\<lparr>w_tick := 1, w_db := s\<rparr>) of
        (Some e, w2) \<Rightarrow> (writeError 500 ''failed to cancel notification'', w2)
      | (None, w2) \<Rightarrow> (writeJSON 200 (NotificationBody (n\<lparr>n_Status := StatusCancelled\<rparr>)), w2)) \<and>
     same_db (w_db ex_stored) s"
proof -
  obtain n where n: "rows (w_db ex_stored) ''1'' = Some n" "n_Status n = StatusPending" using ex_stored_facts(2) by blast
  have inv: "db_inv steady_pg (w_db ex_stored)" using store_invD [OF ex_stored_facts(1)] .
  obtain s where s: "NotificationRepo_GetByID steady_pg ''1'' (w_db ex_stored) = (Inr n, s)"
    using spg.GetByID_up [OF ex_networks(2) inv n(1)] by blast
  have "api_db (ex_api mem_up plan) (NotificationRepo_GetByID steady_pg ''1'') ex_stored = (Inr n, ex_stored\<lparr>w_tick := 1, w_db := s\<rparr>)"
    by (simp add: api_db_def others_def ex_stored_facts(6) assms on_db_def s advance_def)
  then show ?thesis using repo_reads(1) [OF s] n(2) by (intro exI [of _ n] exI [of _ s]) (simp add: NotificationHandler_Cancel_def)
qed

lemma ex_cancel: "\<exists>r w'. NotificationHandler_Cancel (ex_api mem_up (\<lambda>_. [])) ''1'' ex_stored = (r, w') \<and> rs_code r = 200"
proof -
  obtain n s where c: "NotificationHandler_Cancel (ex_api mem_up (\<lambda>_. [])) ''1'' ex_stored =
     (case api_db (ex_api mem_up (\<lambda>_. [])) (NotificationRepo_UpdateStatus steady_pg ''1'' StatusCancelled) (ex_stored\<lparr>w_tick := 1, w_db := s\<rparr>) of
        (Some e, w2) \<Rightarrow> (writeError 500 ''failed to cancel notification'', w2)
      | (None, w2) \<Rightarrow> (writeJSON 200 (NotificationBody (n\<lparr>n_Status := StatusCancelled\<rparr>)), w2))"
     "same_db (w_db ex_stored) s"
    using ex_cancel_read [of "\<lambda>_. []"] by blast
  have "db_inv steady_pg s" using same_dbD(2) [OF c(2)] store_invD [OF ex_stored_facts(1)] by simp
  then have "fst (NotificationRepo_UpdateStatus steady_pg ''1'' StatusCancelled s) = None"
    using spg.UpdateStatus_up [OF ex_networks(2)] by simp
  then obtain s' where "NotificationRepo_UpdateStatus steady_pg ''1'' StatusCancelled s = (None, s')" by (metis prod.collapse)
  then show ?thesis by (simp add: c(1) api_db_def on_db_def writeJSON_def)
qed

lemma ex_batch_code:
  "rs_code (fst (NotificationHandler_BatchCreate (ex_api mem_up (\<lambda>_. [])) (Inr [ex_req]) (ex_empty, cache))) = 201"
  by (simp add: NotificationHandler_BatchCreate_def buildNotification_def request_content_def ex_req_def ex_empty_def new_worker_def
      api_db_def on_db_def NotificationRepo_CreateBatch_def steady_pg_def repo_eval writeJSON_def advance_def ex_Itoa Let_def
      split: prod.splits)

lemma same_store:
  assumes "same_db s s'"
  shows "rows s' = rows s" "store_inv pg s' = store_inv pg s"
  using assms by (auto simp: same_db_def rows_def raw_def store_inv_def)

lemma ex_enqueue_down:
  "\<exists>e t. NotificationHandler_enqueue (ex_api mem_down (\<lambda>_. [])) ex_new w = (Some e, w\<lparr>w_tick := t\<rparr>)"
  by (simp add: advance_def NotificationHandler_enqueue_def api_Enqueue_def worker_Enqueue_def on_redis_def Producer_Enqueue_def MessageFromNotification_def
      ex_new_def ex_pending_def text_codec_def rd_do_def remote_def mem_down_def Let_def) (intro exI [of _ "Suc (w_tick w)"], simp)

lemma ex_queue_empty: "w_redis w = mem_init [] \<Longrightarrow> queued (ex_sched mem_up) w = {}"
  by (auto simp: queued_def ready_def inflight_def delayed_def in_zset_def mem_up_def mem_eval split: sum.splits)

definition ex_templated :: "(nat list \<times> time, mem, int result list \<times> string list) world" where
  "ex_templated = ex_empty\<lparr>w_db := snd (TemplateRepo_Create steady_pg (ex_template ''old'') (empty_db ([], 0)))\<rparr>"

lemma ex_templated_inv: "store_inv steady_pg (w_db ex_templated)"
  using spt.store_exec_inv [of "empty_db ([], 0)" "OpTmplCreate (ex_template ''old'')"] ex_empty_inv(1)
  by (simp add: ex_templated_def ex_empty_def new_worker_def)

lemma ex_put:
  "\<exists>w1. api_exec (ex_api mem_up (\<lambda>_. [])) (PutTemplate ''t'' (Inr \<lparr>qt_Name = [], qt_Channel = [], qt_Content = ''new'', qt_Variables = None\<rparr>))
     (ex_templated, [''welcome'' \<mapsto> ''old'']) = (writeJSON 200 (TemplateBody (ex_template ''new'')), (w1, [''welcome'' \<mapsto> ''old''])) \<and>
   (\<exists>x st. request_content (ex_api mem_up (\<lambda>_. [])) (ex_req\<lparr>q_TemplateID := Some ''t''\<rparr>) (w1, [''welcome'' \<mapsto> ''old'']) = (Inr x, st))"
  by (simp add: keep_cache_def TemplateHandler_Update_def apply_template_request_def request_content_def Engine_Render_def Engine_getOrParse_def
      ex_req_def ex_templated_def ex_empty_def new_worker_def api_db_def on_db_def advance_def Let_def
      template_eval scanTemplate_def Unmarshal_strings_def TemplateRepo_Update_def updateTemplate_def set_template_def steady_pg_def ex_lib_def Channel_Valid_def channel_defs)

section \<open>Rendering after a change of the template\<close>

lemma updateTemplate_names:
  assumes "updateTemplate pg new u = (Inr x, s')" "r \<in> set (templates s')" "t_ID r = t_ID new"
  shows "t_Name r = t_Name new"
proof (cases "t_ID new \<in> t_ID ` set (templates u)")
  case True
  then have "s' = u\<lparr>templates := map (\<lambda>r. if t_ID r = t_ID new then set_template new (pg_time pg u) r else r) (templates u)\<rparr>"
    using assms(1) by (simp add: updateTemplate_def split: if_splits option.splits)
  then show ?thesis using assms(2,3) by (auto split: if_splits)
next
  case False
  then have "s' = u" using assms(1) by (simp add: updateTemplate_def split: if_splits)
  then show ?thesis using assms(2,3) False by (metis image_eqI)
qed

lemma updated_rows:
  assumes "TemplateRepo_Update pg t s = (None, s')" "r \<in> set (templates s')" "t_ID r = t_ID t"
  shows "t_Name r = t_Name t"
proof -
  obtain x where "pg_call pg (template_stmt pg (updateTemplate pg) t) s = (Inr x, s')"
    using assms(1) by (auto simp: TemplateRepo_Update_err)
  then obtain j u where "updateTemplate pg (template_row pg t j) u = (Inr x, s')"
    by (cases rule: pg_call_cases) (auto simp: template_stmt_def split: sum.splits)
  from updateTemplate_names [OF this assms(2)] assms(3) show ?thesis by simp
qed

context api_env
begin

lemma content_cached:
  assumes q: "quiet a" and inv: "store_inv (api_pg a) (w_db w)"
    and names: "\<forall>r \<in> set (templates (w_db w)). t_ID r = i \<longrightarrow> t_Name r = name" and c: "cache name = Some m"
    and run: "request_content a req (w, cache) = (Inr out, st)" "q_TemplateID req = Some i"
  shows "tl_execute (api_tmpl a) m (q_TemplateVars req) = Inr out"
proof -
  have o: "api_other a w = w" using q by (simp add: quiet_def)
  obtain x s where get: "TemplateRepo_GetByID (api_pg a) i (w_db w) = (x, s)" by fastforce
  then have call: "api_db a (TemplateRepo_GetByID (api_pg a) i) w = (x, (advance 1 w)\<lparr>w_db := s\<rparr>)"
    by (simp add: api_db_def on_db_def o)
  then obtain t where t: "x = Inr t" using run by (cases x) (auto simp: request_content_def)
  from GetByID_template(2) [OF inv get t] obtain r where "r \<in> set (templates (w_db w))" "t_ID r = i" "t = template_view r" by blast
  then have "t_Name t = name" using names by (simp add: template_view_def template.truncate_def)
  then show ?thesis
    using run call t c by (auto simp: request_content_def Engine_Render_def Engine_getOrParse_def split: sum.splits)
qed

lemma update_not_rendered:
  assumes q: "quiet a" and inv: "store_inv (api_pg a) (w_db w)" and c: "cache (t_Name t) = Some m"
    and put: "api_exec a (PutTemplate path d) (w, cache) = (r, (w1, cache1))" "rs_body r = TemplateBody t"
    and run: "request_content a req (w1, cache1) = (Inr out, st)" "q_TemplateID req = Some (t_ID t)"
  shows "tl_execute (api_tmpl a) m (q_TemplateVars req) = Inr out"
proof -
  have upd: "TemplateHandler_Update a path d w = (r, w1)" "cache1 = cache" using put(1) by (auto simp: keep_cache_eq)
  have inv1: "store_inv (api_pg a) (w_db w1)" by (rule goodD [OF Update_good [OF upd(1) inv]])
  obtain t0 w0 where "api_db a (TemplateRepo_Update (api_pg a) t) w0 = (None, w1)"
    using upd(1) put(2)
    by (auto simp: TemplateHandler_Update_def writeError_def writeJSON_def Let_def split: option.splits sum.splits prod.splits if_splits)
  then have "\<exists>s. TemplateRepo_Update (api_pg a) t s = (None, w_db w1)" by (auto simp: api_db_def on_db_eq)
  then have names: "\<forall>r \<in> set (templates (w_db w1)). t_ID r = t_ID t \<longrightarrow> t_Name r = t_Name t" using updated_rows by blast
  show ?thesis by (rule content_cached [OF q inv1 names _ run(1,2)]) (simp add: upd(2) c)
qed

end

section \<open>Properties\<close>

text \<open>
  C8. Requests keep the database in order. After any sequence of requests, with any actions
  of other processes between any two calls, every constraint of the tables holds, and every
  notification that was stored is still there with its identifier, recipient, channel,
  content, priority, keys and schedule; only its delivery state may have changed.
\<close>

theorem api_invariant:
  assumes "api_env a" "store_inv (api_pg a) (w_db w)"
    and "fold (\<lambda>req st. snd (api_exec a req st)) reqs (w, cache) = (w', cache')"
  shows "store_inv (api_pg a) (w_db w') \<and>
    (\<forall>i n. rows (w_db w) i = Some n \<longrightarrow> (\<exists>n'. rows (w_db w') i = Some n' \<and> same_content n n'))"
proof -
  have "good (api_pg a) (w_db (fst st)) (w_db (fst (fold (\<lambda>req st. snd (api_exec a req st)) reqs st)))"
    if "store_inv (api_pg a) (w_db (fst st))" for st
    using that
  proof (induction reqs arbitrary: st)
    case Nil
    then show ?case by (simp add: good_refl)
  next
    case (Cons req reqs)
    note g = api_env.api_exec_good [OF assms(1) Cons.prems, of req]
    show ?case using good_trans [OF g Cons.IH [OF goodD [OF g]]] by simp
  qed
  from this [of "(w, cache)"] show ?thesis using assms(2,3) by (simp add: good_def keeps_rows_def)
qed

theorem api_invariant_witness:
  "let a = ex_api mem_up (\<lambda>_. [RunProcess ex_msg1, RunPoll]);
       st = fold (\<lambda>req st. snd (api_exec a req st)) [PostNotification (Inr ex_req), PostCancel ''1''] (ex_empty, NewEngine)
   in store_inv steady_pg (w_db (fst st))"
proof -
  let ?a = "ex_api mem_up (\<lambda>_. [RunProcess ex_msg1, RunPoll])"
  let ?st = "fold (\<lambda>req st. snd (api_exec ?a req st)) [PostNotification (Inr ex_req), PostCancel ''1''] (ex_empty, NewEngine)"
  have "store_inv (api_pg ?a) (w_db ex_empty)" using ex_empty_inv by simp
  from api_invariant [OF api_up.api_env_axioms this, of "[PostNotification (Inr ex_req), PostCancel ''1'']" NewEngine "fst ?st" "snd ?st"]
  show ?thesis by (simp add: Let_def del: fold_simps)
qed

text \<open>
  C14. An accepted notification is stored. When \<open>POST /notifications\<close> answers 201, the
  notification in the response obeys the rules of the domain, and at the end of the request
  its row is in the database with the recipient, channel, content, priority and idempotency
  key of the response, whatever other processes have done meanwhile.
\<close>

theorem create_accepted:
  assumes "api_env a" "store_inv (api_pg a) (w_db w)"
    and "NotificationHandler_Create a d (w, cache) = (r, (w', cache'))" "rs_code r = 201"
  shows "\<exists>req n. d = Inr req \<and> rs_body r = NotificationBody n \<and> well_formed n \<and> n_Recipient n = q_Recipient req \<and>
    n_Channel n = q_Channel req \<and> n_ScheduledAt n = q_ScheduledAt req \<and> accepted n (w_db w')"
  by (rule api_env.Create_accepted [OF assms(1,3,2,4)])

theorem create_accepted_witness:
  "let (r, (w', cache')) = NotificationHandler_Create (ex_api mem_down (\<lambda>_. [])) (Inr ex_req) (ex_empty, NewEngine)
   in rs_code r = 201 \<and> (\<exists>n. rs_body r = NotificationBody n \<and> accepted n (w_db w'))"
proof -
  let ?a = "ex_api mem_down (\<lambda>_. [])"
  obtain w' where run: "NotificationHandler_Create ?a (Inr ex_req) (ex_empty, NewEngine) = (writeJSON 201 (NotificationBody ex_new), (w', NewEngine))"
    using ex_create [of "\<lambda>_. []" mem_down NewEngine] by auto
  have inv: "store_inv (api_pg ?a) (w_db ex_empty)" using ex_empty_inv by simp
  from create_accepted [OF api_down.api_env_axioms inv run] show ?thesis by (simp add: run) (simp add: writeJSON_def)
qed

text \<open>
  C15. A batch is accepted as a whole. When \<open>POST /notifications/batch\<close> answers 201, the batch
  had between one and a thousand entries, the response counts all of them, and each has its
  own row, well-formed and with the batch identifier of the response.
\<close>

theorem batch_accepted:
  assumes "api_env a" "store_inv (api_pg a) (w_db w)"
    and "NotificationHandler_BatchCreate a d (w, cache) = (r, (w', cache'))" "rs_code r = 201"
  shows "\<exists>reqs b ns. d = Inr reqs \<and> reqs \<noteq> [] \<and> length reqs \<le> 1000 \<and> rs_body r = BatchBody b (int (length reqs)) \<and>
    length ns = length reqs \<and> distinct (map n_ID ns) \<and> (\<forall>n \<in> set ns. well_formed n \<and> n_BatchID n = Some b \<and> accepted n (w_db w'))"
  by (rule api_env.BatchCreate_accepted [OF assms(1,3,2,4)])

theorem batch_accepted_witness:
  "let (r, (w', cache')) = NotificationHandler_BatchCreate (ex_api mem_up (\<lambda>_. [])) (Inr [ex_req]) (ex_empty, NewEngine)
   in \<exists>b n. rs_body r = BatchBody b 1 \<and> n_BatchID n = Some b \<and> accepted n (w_db w')"
proof -
  let ?a = "ex_api mem_up (\<lambda>_. [])"
  obtain r w' cache' where run: "NotificationHandler_BatchCreate ?a (Inr [ex_req]) (ex_empty, NewEngine) = (r, (w', cache'))" by (metis prod.exhaust)
  have inv: "store_inv (api_pg ?a) (w_db ex_empty)" using ex_empty_inv by simp
  have "rs_code r = 201" using ex_batch_code [of NewEngine] run by simp
  from batch_accepted [OF api_up.api_env_axioms inv run this] obtain b ns where
    ns: "rs_body r = BatchBody b 1" "length ns = 1" "\<forall>n \<in> set ns. n_BatchID n = Some b \<and> accepted n (w_db w')" by auto
  then have "hd ns \<in> set ns" by (cases ns) simp_all
  then show ?thesis using ns(1,3) by (auto simp: run)
qed

text \<open>
  C16. A refused request changes nothing. Whatever the request, if the answer is 400, 404 or
  409, the notifications, the templates and the queue are as they were (when no other
  process acts meanwhile).
\<close>

theorem refused_changes_nothing:
  assumes "api_env a" "quiet a" "api_exec a req (w, cache) = (r, (w', cache'))" "rs_code r \<in> {400, 404, 409}"
  shows "notifications (w_db w') = notifications (w_db w) \<and> templates (w_db w') = templates (w_db w) \<and> w_redis w' = w_redis w"
  using api_env.api_exec_refused [OF assms] by (simp add: untouched_def)

theorem refused_changes_nothing_witness:
  "let (r, (w', cache')) = api_exec (ex_api mem_up (\<lambda>_. [])) (PostNotification (Inr (ex_req\<lparr>q_Channel := ''fax''\<rparr>))) (ex_empty, NewEngine)
   in rs_code r = 400 \<and> notifications (w_db w') = notifications (w_db ex_empty) \<and> w_redis w' = w_redis ex_empty"
proof -
  let ?a = "ex_api mem_up (\<lambda>_. [])" and ?req = "PostNotification (Inr (ex_req\<lparr>q_Channel := ''fax''\<rparr>))"
  obtain r w' cache' where run: "api_exec ?a ?req (ex_empty, NewEngine) = (r, (w', cache'))" by (metis prod.exhaust)
  have "rs_code r = 400"
    using run by (auto simp: NotificationHandler_Create_def buildNotification_def ex_req_def Channel_Valid_def channel_defs writeError_def writeJSON_def)
  then show ?thesis
    using refused_changes_nothing [OF api_up.api_env_axioms quiet_ex(2) run] run by simp
qed

text \<open>
  C11. Cancelling. When \<open>POST /notifications/{id}/cancel\<close> answers 200, the row is cancelled at
  the end of the request, whatever other processes have done meanwhile. When none acts, 200
  means that exactly this row has changed, from pending, scheduled or queued to cancelled;
  409 means that the notification was in another status, and 404 that there is none.
\<close>

theorem cancel_effect:
  assumes "api_env a" "store_inv (api_pg a) (w_db w)" "api_ParseUUID a path = Some i"
    and "NotificationHandler_Cancel a path w = (r, w')"
  shows "(rs_code r = 200 \<longrightarrow> (\<exists>n. rows (w_db w') i = Some n \<and> n_Status n = StatusCancelled)) \<and>
    (quiet a \<longrightarrow> rs_code r = 200 \<longrightarrow>
       (\<exists>n t. rows (w_db w) i = Some n \<and> cancellable (n_Status n) \<and>
          rows (w_db w') = (rows (w_db w))(i \<mapsto> set_status StatusCancelled t n) \<and> w_redis w' = w_redis w)) \<and>
    (quiet a \<longrightarrow> rs_code r = 409 \<longrightarrow> (\<exists>n. rows (w_db w) i = Some n \<and> \<not> cancellable (n_Status n))) \<and>
    (quiet a \<longrightarrow> rs_code r = 404 \<longrightarrow> rows (w_db w) i = None)"
  using api_env.Cancel_ok [OF assms(1,2,4,3)] by blast

theorem cancel_effect_witness:
  "\<exists>r w'. NotificationHandler_Cancel (ex_api mem_up (\<lambda>_. [])) ''1'' ex_stored = (r, w') \<and> rs_code r = 200 \<and>
     (\<exists>n. rows (w_db w') ''1'' = Some n \<and> n_Status n = StatusCancelled)"
proof -
  obtain r w' where run: "NotificationHandler_Cancel (ex_api mem_up (\<lambda>_. [])) ''1'' ex_stored = (r, w')" "rs_code r = 200"
    using ex_cancel by blast
  have inv: "store_inv (api_pg (ex_api mem_up (\<lambda>_. []))) (w_db ex_stored)" using ex_stored_facts by simp
  from cancel_effect [OF api_up.api_env_axioms inv _ run(1), of "''1''"] run show ?thesis by auto
qed

text \<open>
  Pages are bounded. A list response has a limit between 1 and 100 and an offset that is
  not negative, whatever the query says, at most \<open>limit\<close> notifications, only such as match
  the filters, and as its cursor the creation time of the last one.
\<close>

theorem list_page_bounds:
  assumes "api_env a" "store_inv (api_pg a) (w_db w)" "NotificationHandler_List a q w = (r, w')"
    and "rs_body r = ListBody ns ttl lmt off cursor"
  shows "1 \<le> lmt \<and> lmt \<le> 100 \<and> 0 \<le> off \<and> int (length ns) \<le> lmt \<and>
    (\<forall>n \<in> set ns. matches (api_pg a) (list_filter a q) n) \<and>
    cursor = (if ns = [] then None else Some (api_FormatTime a (n_CreatedAt (last ns))))"
  using api_env.List_page [OF assms] by blast

theorem list_page_bounds_witness:
  "\<exists>ttl w'. NotificationHandler_List (ex_api mem_up (\<lambda>_. [])) (\<lambda>k. if k = ''limit'' then ''500'' else []) ex_empty =
      (writeJSON 200 (ListBody [] ttl 20 0 None), w') \<and> (20 :: int) \<le> 100"
proof -
  let ?a = "ex_api mem_up (\<lambda>_. [])" and ?q = "\<lambda>k. if k = ''limit'' then ''500'' else []"
  have "Atoi ''500'' = Inr 500" by code_simp
  then have f: "list_filter ?a ?q =
      \<lparr>f_Channel = None, f_Status = None, f_Priority = None, f_Limit = 20, f_Offset = 0, f_Cursor = None\<rparr>"
    by (simp add: list_filter_def query_text_def)
  have "\<exists>ttl w'. NotificationHandler_List ?a ?q ex_empty = (writeJSON 200 (ListBody [] ttl 20 0 None), w')"
    by (simp add: NotificationHandler_List_def f NotificationRepo_List_def list_total_def list_conditions_def base_conditions_def add_cond_def
        estimate_query_def count_query_def data_query_def query_rows_def args_error_def int_arg_def placeholder_def api_db_def on_db_def ex_empty_def new_worker_def
        repo_eval steady_pg_def Let_def) blast
  then obtain ttl w' where run: "NotificationHandler_List ?a ?q ex_empty = (writeJSON 200 (ListBody [] ttl 20 0 None), w')" by blast
  have "store_inv (api_pg ?a) (w_db ex_empty)" using ex_empty_inv by simp
  from list_page_bounds [OF api_up.api_env_axioms this run, of "[]" ttl 20 0 None] run show ?thesis
    by (simp add: writeJSON_def)
qed

text \<open>
  C30. What a handler builds is fit for everything downstream: it violates no check of the
  table (no 23514) and no integer range (no 22003), whatever the other columns hold, and the
  message made of it is one that the queue's consumer accepts.
\<close>

theorem build_notification_valid:
  assumes "buildNotification a req st = (Inr n, st')"
  shows "row_error pg (stored pg n) \<notin> {Some (PgError ''23514''), Some (PgError ''22003'')} \<and>
    valid_message (MessageFromNotification n) \<and> n_Recipient n = q_Recipient req \<and> n_Recipient n \<noteq> [] \<and> n_Content n \<noteq> [] \<and>
    n_Attempts n < n_MaxAttempts n \<and> (n_Status n = StatusScheduled \<longleftrightarrow> n_ScheduledAt n \<noteq> None)"
proof -
  have w: "well_formed n" "n_Recipient n = q_Recipient req" using build_well_formed [OF assms] by blast+
  then show ?thesis using well_formed_checks [OF w(1)] by (auto simp: well_formed_def status_defs)
qed

theorem build_notification_valid_witness:
  "fst (buildNotification (ex_api mem_up (\<lambda>_. [])) ex_req (ex_empty, NewEngine)) = Inr ex_new \<and>
   valid_message (MessageFromNotification ex_new)"
proof -
  have "buildNotification (ex_api mem_up (\<lambda>_. [])) ex_req (ex_empty, NewEngine) = (Inr ex_new, (advance 2 ex_empty, NewEngine))"
    by (rule ex_build) (simp add: ex_empty_def new_worker_def)
  with build_notification_valid [OF this, of steady_pg] show ?thesis by simp
qed

text \<open>
  C36. A changed template is not rendered. If the engine has compiled a template under its
  name, then after a successful \<open>PUT /templates/{id}\<close> with new content, a notification that
  uses the template still gets the text of the compiled old one: the handlers for templates
  never invalidate the cache.
\<close>

theorem stale_template:
  assumes "api_env a" "quiet a" "store_inv (api_pg a) (w_db w)" "cache (t_Name t) = Some m"
    and "api_exec a (PutTemplate path d) (w, cache) = (r, (w1, cache1))" "rs_body r = TemplateBody t"
    and "request_content a req (w1, cache1) = (Inr out, st)" "q_TemplateID req = Some (t_ID t)"
  shows "tl_execute (api_tmpl a) m (q_TemplateVars req) = Inr out"
  by (rule api_env.update_not_rendered [OF assms])

theorem stale_template_witness:
  "let a = ex_api mem_up (\<lambda>_. []);
       put = \<lparr>qt_Name = [], qt_Channel = [], qt_Content = ''new'', qt_Variables = None\<rparr>;
       (r, st1) = api_exec a (PutTemplate ''t'' (Inr put)) (ex_templated, [''welcome'' \<mapsto> ''old''])
   in rs_body r = TemplateBody (ex_template ''new'') \<and>
      fst (request_content a (ex_req\<lparr>q_TemplateID := Some ''t''\<rparr>) st1) = Inr ''old''"
proof -
  let ?a = "ex_api mem_up (\<lambda>_. [])" and ?c = "[''welcome'' \<mapsto> ''old'']" and ?req = "ex_req\<lparr>q_TemplateID := Some ''t''\<rparr>"
  let ?put = "\<lparr>qt_Name = [], qt_Channel = [], qt_Content = ''new'', qt_Variables = None\<rparr>"
  obtain w1 where put: "api_exec ?a (PutTemplate ''t'' (Inr ?put)) (ex_templated, ?c) = (writeJSON 200 (TemplateBody (ex_template ''new'')), (w1, ?c))"
    and out: "\<exists>x st. request_content ?a ?req (w1, ?c) = (Inr x, st)"
    using ex_put by blast
  then obtain x st where run: "request_content ?a ?req (w1, ?c) = (Inr x, st)" by blast
  have inv: "store_inv (api_pg ?a) (w_db ex_templated)" using ex_templated_inv by simp
  have "tl_execute (api_tmpl ?a) ''old'' (q_TemplateVars ?req) = Inr x"
    by (rule stale_template [where t = "ex_template ''new''", OF api_up.api_env_axioms quiet_ex(2) inv _ put _ run])
      (simp_all add: writeJSON_def ex_template_def)
  then show ?thesis using put run by (simp add: ex_lib_def writeJSON_def)
qed

text \<open>
  C34. A notification whose enqueueing fails is accepted and then forgotten. With Redis down,
  \<open>POST /notifications\<close> answers 201, the row stays pending and no message is queued; when
  Redis is up again, a run of the scheduler leaves the row as it is.
\<close>

theorem create_enqueue_lost:
  "\<exists>w' w'' n. NotificationHandler_Create (ex_api mem_down (\<lambda>_. [])) (Inr ex_req) (ex_empty, NewEngine) =
      (writeJSON 201 (NotificationBody ex_new), (w', NewEngine)) \<and>
    rows (w_db w') ''1'' = Some n \<and> n_Status n = StatusPending \<and> queued (ex_sched mem_up) w' = {} \<and>
    Scheduler_poll (ex_sched mem_up) w' = Some w'' \<and> rows (w_db w'') ''1'' = Some n"
proof -
  obtain w2 where c: "NotificationHandler_Create (ex_api mem_down (\<lambda>_. [])) (Inr ex_req) (ex_empty, NewEngine) =
     (writeJSON 201 (NotificationBody ex_new), (snd (NotificationHandler_enqueue (ex_api mem_down (\<lambda>_. [])) ex_new w2), NewEngine))"
    and w2: "rows (w_db w2) = [''1'' \<mapsto> row_view (new_row mem_pg ex_new JNull)]" "store_inv steady_pg (w_db w2)"
      "w_redis w2 = mem_init []" "w_metrics w2 = NewMetricsCollector"
    using ex_create [of "\<lambda>_. []" mem_down NewEngine] by auto
  let ?w = "snd (NotificationHandler_enqueue (ex_api mem_down (\<lambda>_. [])) ex_new w2)"
  have w: "w_db ?w = w_db w2" "w_redis ?w = mem_init []" "w_metrics ?w = NewMetricsCollector"
    using w2(3,4) ex_enqueue_down [of w2] by auto
  have "world_inv (sv_pg (ex_sched mem_up)) ?w" using w w2(2) by (simp add: world_inv_def store_invD metrics_ok_new)
  moreover obtain w'' where poll: "Scheduler_poll (ex_sched mem_up) ?w = Some w''"
    using sched_up.poll_returns [OF _ _ calculation] ex_networks by auto
  ultimately have "scheduled_row (ex_sched mem_up) ?w w'' ''1''" using sched_up.poll_schedules by (simp add: schedules_def)
  then have "rows (w_db w'') ''1'' = Some (row_view (new_row mem_pg ex_new JNull))"
    by (auto simp: scheduled_row_def w(1) w2(1))
  moreover have "queued (ex_sched mem_up) ?w = {}" using w(2) ex_queue_empty by blast
  ultimately show ?thesis
    using c poll by (intro exI [of _ ?w] exI [of _ w''] exI [of _ "row_view (new_row mem_pg ex_new JNull)"]) (simp add: w(1) w2(1))
qed

text \<open>
  C35. A cancelled notification may have been delivered. If a worker claims and delivers the
  notification between the two calls of \<open>Cancel\<close>, the handler still answers 200 and the row
  ends up cancelled.
\<close>

theorem cancel_race:
  "\<exists>r w' n b. NotificationHandler_Cancel (ex_api mem_up (\<lambda>k. if k = 1 then [RunProcess ex_msg1] else [])) ''1'' ex_stored = (r, w') \<and>
     rs_code r = 200 \<and> w_http ex_stored = ([], []) \<and> w_http w' = ([], [b]) \<and>
     rows (w_db w') ''1'' = Some n \<and> n_Status n = StatusCancelled"
proof -
  let ?plan = "\<lambda>k :: nat. if k = 1 then [RunProcess ex_msg1] else []"
  obtain n0 where n0: "rows (w_db ex_stored) ''1'' = Some n0" "n_Status n0 = StatusPending" using ex_stored_facts(2) by blast
  obtain n s where c: "NotificationHandler_Cancel (ex_api mem_up ?plan) ''1'' ex_stored =
     (case api_db (ex_api mem_up ?plan) (NotificationRepo_UpdateStatus steady_pg ''1'' StatusCancelled) (ex_stored\<lparr>w_tick := 1, w_db := s\<rparr>) of
        (Some e, w2) \<Rightarrow> (writeError 500 ''failed to cancel notification'', w2)
      | (None, w2) \<Rightarrow> (writeJSON 200 (NotificationBody (n\<lparr>n_Status := StatusCancelled\<rparr>)), w2))"
    and s: "same_db (w_db ex_stored) s"
    using ex_cancel_read [of ?plan] by auto
  let ?w = "ex_stored\<lparr>w_tick := 1, w_db := s\<rparr>"
  have "rows s ''1'' = Some n0" "store_inv steady_pg s" using s n0(1) ex_stored_facts(1) same_store by metis+
  then obtain w' n' b where
    "api_db (ex_api mem_up ?plan) (NotificationRepo_UpdateStatus steady_pg ''1'' StatusCancelled) ?w = (None, w')"
    "rows (w_db w') ''1'' = Some n'" "n_Status n' = StatusCancelled" "w_http w' = ([], [b])"
    using ex_overwritten [of ?plan ?w ex_msg1 n0 StatusCancelled "[]"] n0(2) ex_stored_facts(3-5)
    by (auto simp: metrics_ok_new claimable_def)
  then show ?thesis using c ex_stored_facts(4) by (auto simp: writeJSON_def)
qed

text \<open>
  A delivered notification may be left queued. If a worker takes the message and
  delivers the notification before the handler that enqueued it writes its status, the
  request answers 201 and the row of the delivered notification says queued.
\<close>

theorem create_race:
  "\<exists>w' n b. NotificationHandler_Create (ex_api mem_up (\<lambda>k. if k = 4 then [RunProcess ex_msg1] else [])) (Inr ex_req) (ex_empty, NewEngine) =
      (writeJSON 201 (NotificationBody ex_new), (w', NewEngine)) \<and>
     w_http w' = ([], [b]) \<and> rows (w_db w') ''1'' = Some n \<and> n_Status n = StatusQueued"
proof -
  let ?plan = "\<lambda>k :: nat. if k = 4 then [RunProcess ex_msg1] else []"
  let ?n0 = "row_view (new_row mem_pg ex_new JNull)"
  obtain w2 where c: "NotificationHandler_Create (ex_api mem_up ?plan) (Inr ex_req) (ex_empty, NewEngine) =
     (writeJSON 201 (NotificationBody ex_new), (snd (NotificationHandler_enqueue (ex_api mem_up ?plan) ex_new w2), NewEngine))"
    and w2: "rows (w_db w2) = [''1'' \<mapsto> ?n0]" "store_inv steady_pg (w_db w2)" "w_http w2 = ([], [])"
      "w_cb w2 = NewCircuitBreaker 5 (30 * 10 ^ 9)" "w_metrics w2 = NewMetricsCollector" "w_tick w2 = 3"
    using ex_create [of ?plan mem_up NewEngine] by auto
  obtain q where q: "api_Enqueue (ex_api mem_up ?plan) ex_msg1 w2 = (None, (advance 1 w2)\<lparr>w_redis := q\<rparr>)"
    using ex_enqueued [of ?plan w2] w2(6) by auto
  let ?w = "(advance 1 w2)\<lparr>w_redis := q\<rparr>"
  have tick: "w_tick (advance 1 w2) = 4" by (simp add: advance_def w2(6))
  obtain w' n' b where w': "api_db (ex_api mem_up ?plan) (NotificationRepo_UpdateStatus steady_pg ''1'' StatusQueued) ?w = (None, w')"
    "rows (w_db w') ''1'' = Some n'" "n_Status n' = StatusQueued" "w_http w' = ([], [b])"
    using ex_overwritten [of ?plan ?w ex_msg1 ?n0 StatusQueued "[]"] w2 tick
    by (auto simp: metrics_ok_new claimable_def)
  then have "snd (NotificationHandler_enqueue (ex_api mem_up ?plan) ex_new w2) = w'"
    using q by (simp add: NotificationHandler_enqueue_def ex_msg1_def)
  then show ?thesis using c w' by blast
qed

end
