(* ===== verification/System.thy ===== *)
theory System
  imports Threads Service
begin

text \<open>
  The running service: any number of worker processes, each with any number of goroutines
  that process batches and with a scheduler, and the API that inserts notifications, all
  interleaved at every remote call, with lost requests and lost replies, and with processes
  that crash. PostgreSQL, Redis and the provider are shared; breaker, hub and metrics belong
  to a process. A worker may be given any messages, so that nothing depends on what the queue
  holds; other users of Redis may change it at any time.

  Two things are left out: the API's writes to rows that workers know, which do break what is
  shown here (see the races in the theory \<open>Service\<close>), and a poll that outlives the five seconds
  of the scheduler's lock, so that at most one scheduler is between its lock and the end of its
  poll. The theory \<open>Settled\<close> has both and shows what is left.

  The invariant says who owns a row: a notification is owned by at most one goroutine, and
  while it is owned its row says processing. \<open>sy_sends\<close> counts the calls of the provider; the code
  does not have it.
\<close>

section \<open>What a goroutine holds\<close>

fun todo :: "pc \<Rightarrow> notification list" where
  "todo (WSend b) = fst (snd b)"
| "todo (WFail b n e) = fst (snd b)"
| "todo (WDead b n em) = fst (snd b)"
| "todo (WDeadAck b n em) = fst (snd b)"
| "todo (WRetry b n em) = fst (snd b)"
| "todo (WRetryAck b n em d) = fst (snd b)"
| "todo c = []"

fun failing :: "pc \<Rightarrow> notification list" where
  "failing (WFail b n e) = [n]"
| "failing c = []"

fun sent_of :: "pc \<Rightarrow> sent_list" where
  "sent_of (WSend b) = snd (snd b)"
| "sent_of (WFail b n e) = snd (snd b)"
| "sent_of (WDead b n em) = snd (snd b)"
| "sent_of (WDeadAck b n em) = snd (snd b)"
| "sent_of (WRetry b n em) = snd (snd b)"
| "sent_of (WRetryAck b n em d) = snd (snd b)"
| "sent_of (WMark msgs sent) = sent"
| "sent_of c = []"

definition owned :: "pc \<Rightarrow> uuid list" where
  "owned c = map n_ID (todo c) @ map n_ID (failing c) @ map fst (sent_of c)"

text \<open>The number of calls of the provider for each notification, after a step at the given counter.\<close>

fun count_send :: "pc \<Rightarrow> (uuid \<Rightarrow> nat) \<Rightarrow> uuid \<Rightarrow> nat" where
  "count_send (WSend (msgs, n # ns, sent)) k = k(n_ID n := k (n_ID n) + 1)"
| "count_send c k = k"

definition processing :: "table \<Rightarrow> uuid \<Rightarrow> bool" where
  "processing m i = (case m i of Some n \<Rightarrow> n_Status n = StatusProcessing | None \<Rightarrow> False)"

definition claimable_at :: "table \<Rightarrow> uuid \<Rightarrow> bool" where
  "claimable_at m i = (case m i of Some n \<Rightarrow> claimable (n_Status n) | None \<Rightarrow> False)"

text \<open>
  A goroutine owns distinct rows that say processing; it knows the rows it has not finished, and
  how often the provider has been called for each.
\<close>

definition pc_ok :: "table \<Rightarrow> (uuid \<Rightarrow> nat) \<Rightarrow> pc \<Rightarrow> bool" where
  "pc_ok m k c =
     (distinct (owned c) \<and> list_all (processing m) (owned c) \<and>
      list_all (\<lambda>n. m (n_ID n) = Some n) (todo c @ failing c) \<and>
      list_all (\<lambda>n. int (k (n_ID n)) = n_Attempts n) (todo c) \<and>
      list_all (\<lambda>n. int (k (n_ID n)) = n_Attempts n + 1) (failing c) \<and>
      list_all (\<lambda>i. map_option n_Attempts (m i) = Some (int (k i) - 1)) (map fst (sent_of c)))"

text \<open>
  What a row says of the \<open>k\<close> calls of the provider there have been for it: a row that waits and a
  failed row count them all, a sent row all but the last.
\<close>

definition active :: "status \<Rightarrow> bool" where
  "active st = (claimable st \<or> st = StatusScheduled)"

definition row_quota :: "nat \<Rightarrow> notification \<Rightarrow> bool" where
  "row_quota k n =
     (int k \<le> n_MaxAttempts n \<and>
      (active (n_Status n) \<or> n_Status n = StatusFailed \<longrightarrow> int k = n_Attempts n) \<and>
      (n_Status n = StatusFailed \<longrightarrow> n_Attempts n = n_MaxAttempts n) \<and>
      (n_Status n = StatusSent \<longrightarrow> int k = n_Attempts n + 1) \<and>
      (n_Status n = StatusProcessing \<longrightarrow> int k = n_Attempts n \<or> int k = n_Attempts n + 1) \<and>
      (active (n_Status n) \<or> n_Status n = StatusProcessing \<longrightarrow> n_Attempts n < n_MaxAttempts n))"

definition quota :: "table \<Rightarrow> (uuid \<Rightarrow> nat) \<Rightarrow> bool" where
  "quota m k = (\<forall>i. case m i of None \<Rightarrow> k i = 0 | Some n \<Rightarrow> row_quota (k i) n)"

lemma owned_simps [simp]:
  "owned WIdle = []" "owned (WClaim msgs) = []" "owned (WAck msgs sent) = []" "owned (WMark msgs sent) = map fst sent"
  "owned (WSend b) = map n_ID (fst (snd b)) @ map fst (snd (snd b))" "owned (WDead b n em) = owned (WSend b)"
  "owned (WDeadAck b n em) = owned (WSend b)" "owned (WRetry b n em) = owned (WSend b)" "owned (WRetryAck b n em d) = owned (WSend b)"
  "owned (WFail b n e) = map n_ID (fst (snd b)) @ n_ID n # map fst (snd (snd b))"
  by (simp_all add: owned_def)

text \<open>A counter depends on the rows it holds only.\<close>

lemma pc_ok_cong:
  assumes "pc_ok m k c" "\<And>i. i \<in> set (owned c) \<Longrightarrow> m' i = m i \<and> k' i = k i"
  shows "pc_ok m' k' c"
proof -
  have o: "n \<in> set (todo c @ failing c) \<Longrightarrow> n_ID n \<in> set (owned c)" "i \<in> set (map fst (sent_of c)) \<Longrightarrow> i \<in> set (owned c)" for n i
    by (auto simp: owned_def)
  have "map_option n_Attempts (m' i) = Some (int (k' i) - 1)" if "i \<in> set (map fst (sent_of c))" for i
    using assms(1) assms(2) [OF o(2) [OF that]] that unfolding pc_ok_def list_all_iff by auto
  then have "list_all (\<lambda>i. map_option n_Attempts (m' i) = Some (int (k' i) - 1)) (map fst (sent_of c))"
    by (simp only: list_all_iff) blast
  moreover have "list_all (processing m') (owned c)" using assms by (simp add: pc_ok_def list_all_iff processing_def)
  moreover have "m' (n_ID n) = m (n_ID n) \<and> k' (n_ID n) = k (n_ID n)" if "n \<in> set (todo c @ failing c)" for n
    by (rule assms(2) [OF o(1) [OF that]])
  ultimately show ?thesis using assms(1) unfolding pc_ok_def list_all_iff by simp
qed

lemma pc_ok_sent_only: "pc_ok m k (WSend b) = pc_ok m k c" if "todo c = fst (snd b)" "failing c = []" "sent_of c = snd (snd b)"
  using that by (simp add: pc_ok_def owned_def)

text \<open>One step of a worker, seen from the table.\<close>

definition step_ok :: "table \<Rightarrow> (uuid \<Rightarrow> nat) \<Rightarrow> pc \<Rightarrow> table \<Rightarrow> (uuid \<Rightarrow> nat) \<Rightarrow> pc \<Rightarrow> bool" where
  "step_ok m k c m' k' c' =
     (quota m' k' \<and> pc_ok m' k' c' \<and> (\<forall>i \<in> set (owned c'). i \<in> set (owned c) \<or> claimable_at m i) \<and>
      (\<forall>i. m' i \<noteq> m i \<or> k' i \<noteq> k i \<longrightarrow> i \<in> set (owned c) \<or> claimable_at m i))"

lemma step_ok_same:
  assumes "quota m k" "pc_ok m k c'" "set (owned c') \<subseteq> set (owned c)"
  shows "step_ok m k c m k c'"
  using assms by (auto simp: step_ok_def)

text \<open>A write to one row that is owned and is not owned afterwards.\<close>

lemma quota_upd: "quota m k \<Longrightarrow> row_quota (k i) n \<Longrightarrow> quota (m(i \<mapsto> n)) k"
  by (simp add: quota_def)

context processor_env
begin

lemma step_claim:
  assumes inv: "inv w" and q: "quota (tbl w) k" and claim: "repo_GetAndMarkProcessingBatch (p_repo p) ids w = (x, w1)"
  shows "quota (tbl w1) k" "\<forall>i. tbl w1 i \<noteq> tbl w i \<longrightarrow> claimable_at (tbl w) i"
    "x = Inr ns \<Longrightarrow> pc_ok (tbl w1) k (WSend (msgs, ns, []))"
    "x = Inr ns \<Longrightarrow> \<forall>n \<in> set ns. claimable_at (tbl w) (n_ID n)"
proof -
  have row: "tbl w1 i = tbl w i \<or> (\<exists>n t. tbl w i = Some n \<and> claimable (n_Status n) \<and> tbl w1 i = Some (set_status StatusProcessing t n))" for i
    using store.claim_batch_effect [OF inv claim] by (cases "tbl w i") (auto simp: effect_def mark_def upd_rows_def split: if_splits)
  then show "\<forall>i. tbl w1 i \<noteq> tbl w i \<longrightarrow> claimable_at (tbl w) i" by (fastforce simp: claimable_at_def)
  have "case tbl w1 i of None \<Rightarrow> k i = 0 | Some n \<Rightarrow> row_quota (k i) n" for i
    using row [of i] q [unfolded quota_def, rule_format, of i]
    by (auto simp: row_quota_def active_def set_status_def claimable_def status_defs)
  then show q1: "quota (tbl w1) k" by (simp add: quota_def)
  show "\<forall>n \<in> set ns. claimable_at (tbl w) (n_ID n)" if "x = Inr ns"
    using claimed_batch(1) [OF inv claim [unfolded that]] by (fastforce simp: claimable_at_def)
  show "pc_ok (tbl w1) k (WSend (msgs, ns, []))" if x: "x = Inr ns"
  proof -
    note c = claimed_batch [OF inv claim [unfolded x]]
    have "int (k (n_ID n)) = n_Attempts n" if n: "n \<in> set ns" for n
    proof -
      obtain n0 where n0: "tbl w (n_ID n) = Some n0" "claimable (n_Status n0)" "tbl w1 (n_ID n) = Some n" using c(1) [OF n] by blast
      then have "n_Attempts n = n_Attempts n0"
        using row [of "n_ID n"] by (auto simp: set_status_def)
      then show ?thesis using q [unfolded quota_def, rule_format, of "n_ID n"] n0 by (simp add: row_quota_def active_def)
    qed
    then show ?thesis using c(1,2) by (simp add: pc_ok_def list_all_iff processing_def)
  qed
qed

lemma written:
  assumes inv: "inv w" and row: "tbl w i = Some n" and call: "repo_UpdateStatusWithError (p_repo p) i st em a w = (e, w1)"
  shows "inv w1" "tbl w1 = tbl w \<or> (\<exists>t. tbl w1 = (tbl w)(i \<mapsto> set_error st em a t n))"
proof -
  have ids: "tbl w j = Some m \<Longrightarrow> n_ID m = j" for j m using store.tbl_valid [OF inv] by blast
  have at: "upd_rows (\<lambda>m. n_ID m = i) f (tbl w) = (tbl w)(i \<mapsto> f n)" for f
    by (subst upd_rows_at [OF ids], assumption) (simp add: row)
  note u = store.upd_error [OF inv call]
  show "inv w1" using u by blast
  show "tbl w1 = tbl w \<or> (\<exists>t. tbl w1 = (tbl w)(i \<mapsto> set_error st em a t n))"
    using u at by (auto simp: effect_def)
qed

lemma step_fail:
  assumes inv: "inv w" and q: "quota (tbl w) k" and ok: "pc_ok (tbl w) k (WFail b n e)"
    and call: "repo_UpdateStatusWithError (p_repo p) (n_ID n) st em (n_Attempts n + 1) w = (x, w1)"
    and st: "st = StatusFailed \<and> n_Attempts n + 1 \<ge> n_MaxAttempts n \<or> st = StatusQueued \<and> n_Attempts n + 1 < n_MaxAttempts n"
    and c': "todo c' = fst (snd b)" "failing c' = []" "sent_of c' = snd (snd b)"
  shows "inv w1" "step_ok (tbl w) k (WFail b n e) (tbl w1) k c'"
proof -
  have row: "tbl w (n_ID n) = Some n" and pr: "n_Status n = StatusProcessing" and k: "int (k (n_ID n)) = n_Attempts n + 1"
    using ok by (auto simp: pc_ok_def processing_def)
  note u = written [OF inv row call]
  show "inv w1" by (rule u(1))
  have old: "row_quota (k (n_ID n)) n" using q [unfolded quota_def, rule_format, of "n_ID n"] row by simp
  have "row_quota (k (n_ID n)) (set_error st em (n_Attempts n + 1) t n)" for t
    using old st pr k by (auto simp: row_quota_def active_def set_error_def claimable_def status_defs)
  then have q1: "quota (tbl w1) k" using u(2) q quota_upd by auto
  have h: "n_ID n \<notin> set (owned (WSend b))" "pc_ok (tbl w) k (WSend b)" using ok by (auto simp: pc_ok_def)
  have "tbl w1 i = tbl w i" if "i \<in> set (owned (WSend b))" for i using u(2) h(1) that by (cases "i = n_ID n") auto
  then have "pc_ok (tbl w1) k (WSend b)" by (intro pc_ok_cong [OF h(2)]) simp
  then have "pc_ok (tbl w1) k c'" using pc_ok_sent_only [of c' b] c' by simp
  moreover have "owned c' = owned (WSend b)" by (simp add: owned_def c')
  ultimately show "step_ok (tbl w) k (WFail b n e) (tbl w1) k c'" using q1 u(2) by (auto simp: step_ok_def)
qed

lemma step_send:
  assumes q: "quota m k" and ok: "pc_ok m k (WSend (msgs, n # ns, sent))"
    and c': "c' = WFail (msgs, ns, sent) n e \<or> c' = WSend (msgs, ns, sent @ [(n_ID n, pid, ev)])"
  shows "step_ok m k (WSend (msgs, n # ns, sent)) m (count_send (WSend (msgs, n # ns, sent)) k) c'"
proof -
  have row: "m (n_ID n) = Some n" "n_Status n = StatusProcessing" "int (k (n_ID n)) = n_Attempts n"
    using ok by (auto simp: pc_ok_def processing_def)
  have old: "row_quota (k (n_ID n)) n" using q [unfolded quota_def, rule_format, of "n_ID n"] row by simp
  have new: "row_quota (k (n_ID n) + 1) n" using old row(2,3) by (auto simp: row_quota_def active_def claimable_def status_defs)
  have "case m i of None \<Rightarrow> (k(n_ID n := k (n_ID n) + 1)) i = 0 | Some n' \<Rightarrow> row_quota ((k(n_ID n := k (n_ID n) + 1)) i) n'" for i
    using q [unfolded quota_def, rule_format, of i] new row(1) by (cases "i = n_ID n") (auto split: option.splits)
  then have q': "quota m (k(n_ID n := k (n_ID n) + 1))" unfolding quota_def by blast
  have "n_ID n \<notin> n_ID ` set ns" using ok by (simp add: pc_ok_def)
  then have fresh: "x \<in> set ns \<Longrightarrow> n_ID x \<noteq> n_ID n" for x by (metis imageI)
  have "pc_ok m (k(n_ID n := k (n_ID n) + 1)) c'"
    using ok c' fresh by (auto simp: pc_ok_def list_all_iff)
  then show ?thesis using q' c' by (auto simp: step_ok_def)
qed

lemma step_mark:
  assumes inv: "inv w" and q: "quota (tbl w) k" and ok: "pc_ok (tbl w) k (WMark msgs sent)"
    and call: "repo_UpdateBatchSent (p_repo p) (map fst sent) (map (fst \<circ> snd) sent) w = (x, w1)"
  shows "inv w1" "step_ok (tbl w) k (WMark msgs sent) (tbl w1) k (WAck msgs sent)"
proof -
  have ids: "tbl w j = Some m \<Longrightarrow> n_ID m = j" for j m using store.tbl_valid [OF inv] by blast
  let ?l = "zip (map fst sent) (map (fst \<circ> snd) sent)"
  have u: "inv w1 \<and> effect x (tbl w) (tbl w1) (\<lambda>t. mark_sent ?l t (tbl w))"
    by (rule store.upd_sent_batch [OF inv _ call]) simp
  then show "inv w1" by blast
  have row: "tbl w1 i = tbl w i \<or> i \<in> set (map fst sent) \<and> (\<exists>n pid t. tbl w i = Some n \<and> tbl w1 i = Some (set_sent pid t n))" for i
  proof (cases "tbl w1 = tbl w")
    case False
    then obtain t where t: "tbl w1 = mark_sent ?l t (tbl w)" using u by (auto simp: effect_def)
    from mark_sent_row [where m = "tbl w" and l = ?l and t = t and i = i, OF ids]
    have "tbl w1 i = tbl w i \<or> i \<in> fst ` set ?l \<and> (\<exists>n pid. tbl w i = Some n \<and> tbl w1 i = Some (set_sent pid t n))"
      unfolding t by simp
    then show ?thesis using set_zip_leftD by fastforce
  qed simp
  have att: "i \<in> set (map fst sent) \<Longrightarrow> tbl w i = Some n \<Longrightarrow> int (k i) = n_Attempts n + 1 \<and> n_Status n = StatusProcessing" for i n
    using ok by (auto simp: pc_ok_def list_all_iff processing_def)
  have "case tbl w1 i of None \<Rightarrow> k i = 0 | Some n \<Rightarrow> row_quota (k i) n" for i
  proof (cases "tbl w1 i = tbl w i")
    case False
    then obtain n pid t where n: "i \<in> set (map fst sent)" "tbl w i = Some n" "tbl w1 i = Some (set_sent pid t n)" using row by blast
    show ?thesis using att [OF n(1,2)] q [unfolded quota_def, rule_format, of i] n(2,3)
      by (simp add: row_quota_def active_def set_sent_def claimable_def status_defs)
  qed (use q in \<open>simp add: quota_def\<close>)
  then have "quota (tbl w1) k" by (simp add: quota_def)
  then show "step_ok (tbl w) k (WMark msgs sent) (tbl w1) k (WAck msgs sent)"
    using row by (auto simp: step_ok_def pc_ok_def)
qed

lemma ack_same: "inv w \<Longrightarrow> inv (Processor_ack p ms w)" "tbl (Processor_ack p ms w) = tbl w"
  using ack_frame by (auto simp: Processor_ack_def split: list.splits) (metis prod.collapse)+

lemma worker_step:
  assumes inv: "inv w" and q: "quota (tbl w) k" and ok: "pc_ok (tbl w) k c"
  shows "\<exists>c' w'. pstep p c w = Some (c', w') \<and> inv w' \<and> step_ok (tbl w) k c (tbl w') (count_send c k) c'"
proof (cases c)
  case WIdle
  then show ?thesis using inv q ok step_ok_same by simp
next
  case (WClaim msgs)
  have idle: "pc_ok m k WIdle" for m by (simp add: pc_ok_def)
  show ?thesis
  proof (cases "msgs = []")
    case True
    then show ?thesis using WClaim inv q idle step_ok_same by simp
  next
    case False
    obtain x w1 where cl: "repo_GetAndMarkProcessingBatch (p_repo p) (map m_NotificationID msgs) w = (x, w1)" by fastforce
    note s = step_claim [OF inv q cl]
    note i1 = store.claim_batch_inv [OF inv cl]
    show ?thesis
    proof (cases "\<exists>ns. x = Inr ns \<and> ns \<noteq> []")
      case True
      then obtain ns where ns: "x = Inr ns" "ns \<noteq> []" by blast
      have "step_ok (tbl w) k c (tbl w1) k (WSend (msgs, ns, []))"
        using s(1,2) s(3,4) [OF ns(1)] by (auto simp: step_ok_def)
      then show ?thesis using WClaim False cl ns i1 by simp
    next
      case no: False
      have "step_ok (tbl w) k c (tbl w1) k WIdle" using s(1,2) idle by (auto simp: step_ok_def)
      then show ?thesis using WClaim False cl no i1 by (auto split: sum.splits)
    qed
  qed
next
  case (WSend b)
  obtain msgs ns sent where b: "b = (msgs, ns, sent)" by (metis prod.exhaust)
  show ?thesis
  proof (cases ns)
    case Nil
    have "pc_ok (tbl w) k (WMark msgs sent)" using ok by (simp add: WSend b Nil pc_ok_def)
    then show ?thesis using inv q by (auto simp: WSend b Nil intro!: step_ok_same)
  next
    case (Cons n ns')
    have row: "tbl w (n_ID n) = Some n" using ok by (auto simp: pc_ok_def WSend b Cons)
    obtain x w1 where s: "p_provider p n w = (x, w1)" by fastforce
    have f: "tbl w1 = tbl w" "inv w1" using send_frame [OF s] inv by auto
    have ok': "pc_ok (tbl w) k (WSend (msgs, n # ns', sent))" using ok by (simp add: WSend b Cons)
    show ?thesis
    proof (cases x)
      case (Inl e)
      then show ?thesis using s f step_send [OF q ok', of _ e] by (simp add: WSend b Cons)
    next
      case (Inr pid)
      have "Channel_Valid (n_Channel n)" using store.tbl_valid [OF inv row] by blast
      then obtain w2 where w2: "p_IncrSent p (n_Channel n) w1 = Some w2" "tbl w2 = tbl w1" "inv w2" using incr_sent [OF f(2)] by blast
      let ?ev = "status_event ''notification.sent'' n StatusSent []"
      have "pstep p c w = Some (WSend (msgs, ns', sent @ [(n_ID n, pid, ?ev)]), w2)" using s Inr w2(1) by (simp add: WSend b Cons)
      moreover have "step_ok (tbl w) k c (tbl w) (count_send c k) (WSend (msgs, ns', sent @ [(n_ID n, pid, ?ev)]))"
        using step_send [OF q ok', of _ _ pid ?ev] by (simp add: WSend b Cons)
      ultimately show ?thesis using w2 f by auto
    qed
  qed
next
  case (WFail b n e)
  let ?n = "n\<lparr>n_Attempts := n_Attempts n + 1\<rparr>"
  have row: "tbl w (n_ID n) = Some n" using ok by (auto simp: pc_ok_def WFail)
  then have "Channel_Valid (n_Channel n)" using store.tbl_valid [OF inv] by blast
  then obtain w1 where w1: "p_IncrFailed p (n_Channel n) w = Some w1" "tbl w1 = tbl w" "inv w1" using incr_failed [OF inv] by blast
  let ?st = "if n_MaxAttempts n \<le> n_Attempts n + 1 then StatusFailed else StatusQueued"
  obtain x w2 where u: "repo_UpdateStatusWithError (p_repo p) (n_ID n) ?st (Error e) (n_Attempts n + 1) w1 = (x, w2)" by fastforce
  define c' where "c' = (if n_MaxAttempts n \<le> n_Attempts n + 1 then WDead b ?n (Error e)
    else case x of Some _ \<Rightarrow> WSend b | None \<Rightarrow> WRetry b ?n (Error e))"
  have "pstep p c w = Some (c', w2)" using w1(1) u by (auto simp: WFail c'_def Let_def split: option.splits)
  moreover have "inv w2" "step_ok (tbl w) k c (tbl w2) k c'"
    using step_fail [of w1 k b n e ?st "Error e" x w2 c'] w1(2,3) q ok u
    by (auto simp: WFail c'_def split: option.splits)
  ultimately show ?thesis by (simp add: WFail)
next
  case (WDead b n em)
  obtain x w1 where h: "p_Handle p (n_ID n) em (n_Attempts n) w = (x, w1)" by fastforce
  have "tbl w1 = tbl w" "inv w1" using handle_frame [OF h] inv by auto
  then show ?thesis using h ok q by (auto simp: WDead pc_ok_def intro!: step_ok_same)
next
  case (WDeadAck b n em)
  then show ?thesis using inv ok q ack_same by (auto simp: pc_ok_def intro!: step_ok_same)
next
  case (WRetry b n em)
  obtain d w1 where d: "p_NextDelay p (n_Attempts n) w = (d, w1)" by fastforce
  obtain x w2 where e: "p_EnqueueDelayed p (failed_message b n) d w1 = (x, w2)" by fastforce
  have "tbl w2 = tbl w" "inv w2" using nextdelay_frame [OF d] delayed_frame [OF e] inv by auto
  then show ?thesis using d e ok q by (cases x) (auto simp: WRetry pc_ok_def intro!: step_ok_same)
next
  case (WRetryAck b n em d)
  then show ?thesis using inv ok q ack_same by (auto simp: pc_ok_def intro!: step_ok_same)
next
  case (WMark msgs sent)
  obtain x w1 where u: "repo_UpdateBatchSent (p_repo p) (map fst sent) (map (fst \<circ> snd) sent) w = (x, w1)" by fastforce
  show ?thesis
  proof (cases "sent = []")
    case True
    then show ?thesis using inv q by (auto simp: WMark pc_ok_def intro!: step_ok_same)
  next
    case False
    then show ?thesis using step_mark [OF inv q _ u] ok u by (simp add: WMark)
  qed
next
  case (WAck msgs sent)
  have "pc_ok (tbl w) k WIdle" by (simp add: pc_ok_def)
  then show ?thesis using inv q ack_same by (auto simp: WAck Let_def intro!: step_ok_same)
qed

end

section \<open>The system\<close>

text \<open>The objects of one process, apart from its program counters.\<close>

record local =
  l_cb :: circuitBreaker
  l_hub :: hub
  l_metrics :: metrics

definition enter :: "local \<Rightarrow> ('p, 'r, 'h) world \<Rightarrow> ('p, 'r, 'h) world" where
  "enter l w = w\<lparr>w_cb := l_cb l, w_hub := l_hub l, w_metrics := l_metrics l\<rparr>"

definition leave :: "('p, 'r, 'h) world \<Rightarrow> local" where
  "leave w = \<lparr>l_cb = w_cb w, l_hub = w_hub w, l_metrics = w_metrics w\<rparr>"

definition new_local :: "int \<Rightarrow> duration \<Rightarrow> local" where
  "new_local cbMaxFailures cbTimeout =
     \<lparr>l_cb = NewCircuitBreaker cbMaxFailures cbTimeout, l_hub = NewHub, l_metrics = NewMetricsCollector\<rparr>"

text \<open>A worker goroutine is named by its process and its number.\<close>

record ('p, 'r, 'h) sys =
  sy_world :: "('p, 'r, 'h) world"
  sy_local :: "nat \<Rightarrow> local"
  sy_workers :: "nat \<times> nat \<Rightarrow> pc"
  sy_scheds :: "nat \<Rightarrow> spc"
  sy_sends :: "uuid \<Rightarrow> nat"

abbreviation sys_rows :: "('p, 'r, 'h) sys \<Rightarrow> table" where
  "sys_rows s \<equiv> rows (w_db (sy_world s))"

abbreviation world_of :: "('p, 'r, 'h) sys \<Rightarrow> nat \<Rightarrow> ('p, 'r, 'h) world" where
  "world_of s p \<equiv> enter (sy_local s p) (sy_world s)"

text \<open>Between the lock and the end of the poll.\<close>

definition polling :: "spc \<Rightarrow> bool" where
  "polling c = (c \<notin> {SWait, SLock, SStopped})"

text \<open>What the API inserts.\<close>

definition fresh_notification :: "notification \<Rightarrow> bool" where
  "fresh_notification n = (active (n_Status n) \<and> n_Attempts n = 0 \<and> 0 < n_MaxAttempts n)"

lemma built_fresh: "well_formed n \<Longrightarrow> fresh_notification n"
  by (simp add: well_formed_def fresh_notification_def active_def claimable_def)

inductive sys_step :: "('p, 'r, 'h) services \<Rightarrow> ('p, 'r, 'h) sys \<Rightarrow> ('p, 'r, 'h) sys \<Rightarrow> bool" for sv where
  fetch: "sy_workers s x = WIdle \<Longrightarrow> sys_step sv s (s\<lparr>sy_workers := (sy_workers s)(x := WClaim msgs)\<rparr>)"
| work: "pstep (worker_processor sv) (sy_workers s (p, g)) (world_of s p) = Some (c', w') \<Longrightarrow>
    sys_step sv s (s\<lparr>sy_world := w', sy_local := (sy_local s)(p := leave w'), sy_workers := (sy_workers s)((p, g) := c'),
      sy_sends := count_send (sy_workers s (p, g)) (sy_sends s)\<rparr>)"
| tick: "sys_step sv s (s\<lparr>sy_scheds := (sy_scheds s)(p := Scheduler_Start ctxDone (sy_scheds s p))\<rparr>)"
| sched: "sstep sv (sy_scheds s p) (world_of s p) = (c', w') \<Longrightarrow>
    polling c' \<longrightarrow> (\<forall>q. q \<noteq> p \<longrightarrow> \<not> polling (sy_scheds s q)) \<Longrightarrow>
    sys_step sv s (s\<lparr>sy_world := w', sy_local := (sy_local s)(p := leave w'), sy_scheds := (sy_scheds s)(p := c')\<rparr>)"
| create: "fresh_notification n \<Longrightarrow> NotificationRepo_Create (sv_pg sv) n (w_db (sy_world s)) = (e, d) \<Longrightarrow>
    sys_step sv s (s\<lparr>sy_world := (sy_world s)\<lparr>w_db := d\<rparr>\<rparr>)"
| create_batch: "list_all fresh_notification ns \<Longrightarrow> NotificationRepo_CreateBatch (sv_pg sv) ns (w_db (sy_world s)) = (e, d) \<Longrightarrow>
    sys_step sv s (s\<lparr>sy_world := (sy_world s)\<lparr>w_db := d\<rparr>\<rparr>)"
| others: "db_inv (sv_pg sv) d \<Longrightarrow> rows d = sys_rows s \<Longrightarrow>
    sys_step sv s (s\<lparr>sy_world := (sy_world s)\<lparr>w_db := d, w_redis := r, w_http := h, w_tick := k\<rparr>\<rparr>)"
| crash: "sys_step sv s (s\<lparr>sy_local := (sy_local s)(p := new_local cbMaxFailures cbTimeout),
    sy_workers := (\<lambda>x. if fst x = p then WIdle else sy_workers s x), sy_scheds := (sy_scheds s)(p := SWait)\<rparr>)"

text \<open>The page a scheduler is at.\<close>

fun page_of :: "spc \<Rightarrow> notification list" where
  "page_of (SEnqueue ns) = ns"
| "page_of (SUpdate n ns) = n # ns"
| "page_of c = []"

definition sched_ok :: "table \<Rightarrow> spc \<Rightarrow> bool" where
  "sched_ok m c =
     (distinct (map n_ID (page_of c)) \<and> list_all (\<lambda>n. m (n_ID n) = Some n \<and> n_Status n = StatusScheduled) (page_of c))"

definition sys_inv :: "('p, 'r, 'h) services \<Rightarrow> ('p, 'r, 'h) sys \<Rightarrow> bool" where
  "sys_inv sv s =
     (db_inv (sv_pg sv) (w_db (sy_world s)) \<and> (\<forall>p. metrics_ok (l_metrics (sy_local s p))) \<and>
      quota (sys_rows s) (sy_sends s) \<and> (\<forall>x. pc_ok (sys_rows s) (sy_sends s) (sy_workers s x)) \<and>
      (\<forall>x y. x \<noteq> y \<longrightarrow> set (owned (sy_workers s x)) \<inter> set (owned (sy_workers s y)) = {}) \<and>
      (\<forall>p. sched_ok (sys_rows s) (sy_scheds s p)) \<and>
      (\<forall>p q. polling (sy_scheds s p) \<longrightarrow> polling (sy_scheds s q) \<longrightarrow> p = q))"

text \<open>No goroutine is doing anything, and the counter of calls agrees with the table.\<close>

definition sys_init :: "('p, 'r, 'h) services \<Rightarrow> ('p, 'r, 'h) sys \<Rightarrow> bool" where
  "sys_init sv s =
     (db_inv (sv_pg sv) (w_db (sy_world s)) \<and> (\<forall>p. metrics_ok (l_metrics (sy_local s p))) \<and>
      quota (sys_rows s) (sy_sends s) \<and> (\<forall>x. sy_workers s x = WIdle) \<and> (\<forall>p. sy_scheds s p = SWait))"

lemma sys_init_inv: "sys_init sv s \<Longrightarrow> sys_inv sv s"
  by (simp add: sys_init_def sys_inv_def pc_ok_def sched_ok_def polling_def)

definition owners :: "('p, 'r, 'h) sys \<Rightarrow> uuid set" where
  "owners s = (\<Union>x. set (owned (sy_workers s x)))"

text \<open>A row that does not exist yet, or that waits for a worker or the scheduler.\<close>

definition open_row :: "table \<Rightarrow> uuid \<Rightarrow> bool" where
  "open_row m i = (case m i of None \<Rightarrow> True | Some n \<Rightarrow> active (n_Status n))"

text \<open>A step acts on rows that are owned or open only.\<close>

definition confined :: "('p, 'r, 'h) sys \<Rightarrow> ('p, 'r, 'h) sys \<Rightarrow> bool" where
  "confined s s' =
     (\<forall>i. i \<in> owners s' \<or> sys_rows s' i \<noteq> sys_rows s i \<or> sy_sends s' i \<noteq> sy_sends s i \<longrightarrow>
        i \<in> owners s \<or> open_row (sys_rows s) i)"

lemma enter_sel [simp]:
  "w_db (enter l w) = w_db w" "w_redis (enter l w) = w_redis w" "w_http (enter l w) = w_http w"
  "w_metrics (enter l w) = l_metrics l" "l_metrics (leave w) = w_metrics w"
  by (simp_all add: enter_def leave_def)

lemma processing_closed: "processing m i \<Longrightarrow> \<not> open_row m i"
  by (auto simp: processing_def open_row_def active_def claimable_def status_defs split: option.splits)

lemma claimable_open: "claimable_at m i \<Longrightarrow> open_row m i"
  by (auto simp: claimable_at_def open_row_def active_def split: option.splits)

lemma claimable_not_scheduled: "claimable_at m i \<Longrightarrow> m i = Some n \<Longrightarrow> n_Status n \<noteq> StatusScheduled"
  by (auto simp: claimable_at_def claimable_def status_defs)

lemma pc_ok_processing: "pc_ok m k c \<Longrightarrow> i \<in> set (owned c) \<Longrightarrow> processing m i"
  by (simp add: pc_ok_def list_all_iff)

lemma sched_ok_cong:
  assumes "sched_ok m c" "\<And>i n. m i = Some n \<Longrightarrow> n_Status n = StatusScheduled \<Longrightarrow> m' i = m i"
  shows "sched_ok m' c"
  using assms unfolding sched_ok_def list_all_iff by metis

lemma sys_invD:
  assumes "sys_inv sv s"
  shows "world_inv (sv_pg sv) (world_of s p)" "quota (sys_rows s) (sy_sends s)"
    "pc_ok (sys_rows s) (sy_sends s) (sy_workers s x)" "i \<in> set (owned (sy_workers s x)) \<Longrightarrow> processing (sys_rows s) i"
    "i \<in> set (owned (sy_workers s x)) \<Longrightarrow> i \<in> set (owned (sy_workers s y)) \<Longrightarrow> x = y"
    "sched_ok (sys_rows s) (sy_scheds s p)" "db_inv (sv_pg sv) (w_db (sy_world s))"
    "polling (sy_scheds s p) \<Longrightarrow> polling (sy_scheds s q) \<Longrightarrow> p = q" "metrics_ok (l_metrics (sy_local s p))"
  using assms pc_ok_processing unfolding sys_inv_def world_inv_def disjoint_iff enter_sel by metis+

text \<open>The shape of every preservation proof: the rows that workers own or that are on a page stay.\<close>

lemma sys_frame:
  assumes inv: "sys_inv sv s" and db: "db_inv (sv_pg sv) (w_db (sy_world s'))" and metrics: "\<And>p. metrics_ok (l_metrics (sy_local s' p))"
    and q: "quota (sys_rows s') (sy_sends s')"
    and workers: "\<And>x. sy_workers s' x = sy_workers s x \<or> owned (sy_workers s' x) = []"
    and sends: "sy_sends s' = sy_sends s"
    and changed: "\<And>i. sys_rows s' i \<noteq> sys_rows s i \<Longrightarrow> open_row (sys_rows s) i"
    and sched: "\<And>p. sched_ok (sys_rows s') (sy_scheds s' p)"
    and lock: "\<And>p q. polling (sy_scheds s' p) \<Longrightarrow> polling (sy_scheds s' q) \<Longrightarrow> p = q"
  shows "sys_inv sv s' \<and> confined s s'"
proof -
  have o: "set (owned (sy_workers s' x)) \<subseteq> set (owned (sy_workers s x))" for x using workers [of x] by auto
  have same: "sys_rows s' i = sys_rows s i" if "i \<in> set (owned (sy_workers s x))" for i x
    using sys_invD(4) [OF inv that] processing_closed changed by blast
  have ok: "pc_ok (sys_rows s') (sy_sends s') (sy_workers s' x)" for x
  proof (cases "sy_workers s' x = sy_workers s x")
    case True
    show ?thesis unfolding True by (rule pc_ok_cong [OF sys_invD(3) [OF inv, of x]]) (simp add: same sends)
  next
    case False
    then have "owned (sy_workers s' x) = []" using workers by blast
    then show ?thesis by (simp add: pc_ok_def owned_def)
  qed
  have "set (owned (sy_workers s' x)) \<inter> set (owned (sy_workers s' y)) = {}" if "x \<noteq> y" for x y
    using o [of x] o [of y] sys_invD(5) [OF inv] that by blast
  then have "sys_inv sv s'" using db metrics q ok sched lock unfolding sys_inv_def by blast
  moreover have "owners s' \<subseteq> owners s" using o by (auto simp: owners_def)
  ultimately show ?thesis using changed by (auto simp: confined_def sends)
qed

text \<open>A step of a worker.\<close>

lemma work_frame:
  assumes inv: "sys_inv sv s" and db: "db_inv (sv_pg sv) (w_db (sy_world s'))" and metrics: "\<And>p. metrics_ok (l_metrics (sy_local s' p))"
    and step: "step_ok (sys_rows s) (sy_sends s) (sy_workers s x) (sys_rows s') (sy_sends s') (sy_workers s' x)"
    and others: "\<And>y. y \<noteq> x \<Longrightarrow> sy_workers s' y = sy_workers s y" and scheds: "sy_scheds s' = sy_scheds s"
  shows "sys_inv sv s' \<and> confined s s'"
proof -
  let ?o = "\<lambda>i. i \<in> set (owned (sy_workers s x)) \<or> claimable_at (sys_rows s) i"
  have st: "quota (sys_rows s') (sy_sends s')" "pc_ok (sys_rows s') (sy_sends s') (sy_workers s' x)"
    "\<And>i. i \<in> set (owned (sy_workers s' x)) \<Longrightarrow> ?o i" "\<And>i. sys_rows s' i \<noteq> sys_rows s i \<or> sy_sends s' i \<noteq> sy_sends s i \<Longrightarrow> ?o i"
    using step by (auto simp: step_ok_def)
  have other: "\<not> ?o i" if "y \<noteq> x" "i \<in> set (owned (sy_workers s y))" for y i
    using sys_invD(4,5) [OF inv that(2)] that(1) processing_closed claimable_open by blast
  have ok: "pc_ok (sys_rows s') (sy_sends s') (sy_workers s' y)" for y
  proof (cases "y = x")
    case False
    show ?thesis unfolding others [OF False]
      by (rule pc_ok_cong [OF sys_invD(3) [OF inv, of y]]) (use other [OF False] st(4) in blast)
  qed (use st(2) in simp)
  have disj: "set (owned (sy_workers s' y)) \<inter> set (owned (sy_workers s' z)) = {}" if "y \<noteq> z" for y z
    using that others st(3) other sys_invD(5) [OF inv] unfolding disjoint_iff by metis
  have "sys_rows s' i = sys_rows s i" if "sys_rows s i = Some n" "n_Status n = StatusScheduled" for i n
  proof (rule ccontr)
    assume "sys_rows s' i \<noteq> sys_rows s i"
    then have "i \<in> set (owned (sy_workers s x))" using st(4) claimable_not_scheduled that by blast
    from sys_invD(4) [OF inv this] show False using that by (simp add: processing_def status_defs)
  qed
  then have "sched_ok (sys_rows s') (sy_scheds s' p)" for p
    unfolding scheds using sched_ok_cong sys_invD(6) [OF inv] by metis
  then have "sys_inv sv s'" using db metrics st(1) ok disj sys_invD(8) [OF inv] unfolding sys_inv_def scheds by blast
  moreover have own: "i \<in> owners s" if "i \<in> set (owned (sy_workers s y))" for i y using that unfolding owners_def by blast
  have "i \<in> owners s \<or> open_row (sys_rows s) i" if "i \<in> owners s'" for i
  proof -
    obtain y where "i \<in> set (owned (sy_workers s' y))" using \<open>i \<in> owners s'\<close> by (auto simp: owners_def)
    then show ?thesis using others [of y] st(3) [of i] own [of i y] own [of i x] claimable_open by (cases "y = x") auto
  qed
  moreover have "i \<in> owners s \<or> open_row (sys_rows s) i" if "sys_rows s' i \<noteq> sys_rows s i \<or> sy_sends s' i \<noteq> sy_sends s i" for i
    using st(4) [OF that] own claimable_open by blast
  ultimately show ?thesis unfolding confined_def by blast
qed

text \<open>A step of a scheduler writes to the row it is at only, which is scheduled.\<close>

context scheduler_env
begin

lemma sched_step:
  assumes inv: "world_inv (sv_pg sv) w" and ok: "sched_ok (rows (w_db w)) c" and step: "sstep sv c w = (c', w')"
  shows "world_inv (sv_pg sv) w' \<and> sched_ok (rows (w_db w')) c' \<and>
    (rows (w_db w') = rows (w_db w) \<or> polling c \<and>
      (\<exists>n t. rows (w_db w) (n_ID n) = Some n \<and> n_Status n = StatusScheduled \<and>
        rows (w_db w') = (rows (w_db w))(n_ID n \<mapsto> set_status StatusQueued t n)))"
proof -
  have req: "world_inv (sv_pg sv) w1 \<and> rows (w_db w1) = rows (w_db w)" if "requeues w w1" for w1
    using that inv by (simp add: requeues_def world_inv_def)
  have idle: "sched_ok m c" if "page_of c = []" for m c using that by (simp add: sched_ok_def)
  show ?thesis
  proof (cases c)
    case SLock
    then have "w_db w' = w_db w" "w_metrics w' = w_metrics w" "page_of c' = []"
      using step by (auto simp: on_redis_def split: prod.splits sum.splits if_splits)
    then show ?thesis using inv idle by (simp add: world_inv_def)
  next
    case SPage
    obtain x w1 where r: "repo_GetPendingScheduled (worker_repo (sv_pg sv)) w = (x, w1)" by fastforce
    note p = page_read [OF inv r]
    have w': "w' = w1" using step r SPage by (auto split: sum.splits)
    have "sched_ok (rows (w_db w1)) c'"
    proof (cases x)
      case (Inr ns)
      then have "c' = (if ns = [] then SPromote else SEnqueue ns)" using step r SPage by simp
      then show ?thesis using p(2) [OF Inr] by (simp add: due_page_def sched_ok_def list_all_iff)
    qed (use step r SPage idle in simp)
    then show ?thesis using p(1,3) by (simp add: w' schedules_def)
  next
    case (SEnqueue ns)
    show ?thesis
    proof (cases ns)
      case Nil
      then show ?thesis using step inv idle by (simp add: SEnqueue)
    next
      case (Cons n ns')
      obtain e w1 where e: "worker_Enqueue sv (scheduled_message n) w = (e, w1)" by fastforce
      note f = worker_Enqueue_frame [OF e]
      have "w' = w1" "c' = SEnqueue ns' \<or> c' = SUpdate n ns'" using step e by (auto simp: SEnqueue Cons split: option.splits)
      then show ?thesis using ok inv f(1,3) by (auto simp: SEnqueue Cons sched_ok_def world_inv_def)
    qed
  next
    case (SUpdate n ns)
    obtain e w1 where u: "repo_UpdateStatus (worker_repo (sv_pg sv)) (n_ID n) StatusQueued w = (e, w1)" by fastforce
    have c': "c' = SEnqueue ns" "w' = w1" using step u by (simp_all add: SUpdate)
    have row: "rows (w_db w) (n_ID n) = Some n" "n_Status n = StatusScheduled" "n_ID n \<notin> n_ID ` set ns"
      using ok by (simp_all add: SUpdate sched_ok_def)
    have ids: "rows (w_db w) j = Some m \<Longrightarrow> n_ID m = j" for j m using store.tbl_valid [OF inv] by blast
    have at: "upd_rows (\<lambda>m. n_ID m = n_ID n) f (rows (w_db w)) = (rows (w_db w))(n_ID n \<mapsto> f n)" for f
      by (subst upd_rows_at [OF ids], assumption) (simp add: row)
    have w1: "world_inv (sv_pg sv) w1"
      "effect e (rows (w_db w)) (rows (w_db w1)) (\<lambda>t. upd_rows (\<lambda>m. n_ID m = n_ID n) (set_status StatusQueued t) (rows (w_db w)))"
      using store.upd_status [OF inv] u by auto
    then have up: "rows (w_db w1) = rows (w_db w) \<or> (\<exists>t. rows (w_db w1) = (rows (w_db w))(n_ID n \<mapsto> set_status StatusQueued t n))"
      unfolding at by (auto simp: effect_def)
    then have "rows (w_db w1) (n_ID m) = rows (w_db w) (n_ID m)" if "m \<in> set ns" for m
      using row(3) imageI [OF that, of n_ID] by (metis fun_upd_apply)
    then have "sched_ok (rows (w_db w1)) (SEnqueue ns)" using ok by (simp add: SUpdate sched_ok_def list_all_iff)
    then show ?thesis using w1(1) up row(1,2) c' by (auto simp: SUpdate polling_def)
  next
    case SPromote
    then show ?thesis using step req [OF promote_requeues] idle by auto
  next
    case SReclaim
    then show ?thesis using step req [OF reclaim_requeues] idle by auto
  qed (use step inv idle in auto)
qed

end

text \<open>An insert.\<close>

lemma insert_frame:
  assumes inv: "sys_inv sv s" and fresh: "list_all fresh_notification ns"
    and d: "db_inv (sv_pg sv) d" "notifications d = notifications (w_db (sy_world s)) \<or>
      notifications d = notifications (w_db (sy_world s)) @ map (stored (sv_pg sv)) ns"
    and s': "s' = s\<lparr>sy_world := (sy_world s)\<lparr>w_db := d\<rparr>\<rparr>"
  shows "sys_inv sv s' \<and> confined s s'"
proof -
  have new: "rows d i = sys_rows s i \<or> sys_rows s i = None \<and> (\<exists>n. rows d i = Some n \<and> fresh_notification n)" for i
  proof (cases "sys_rows s i")
    case None
    show ?thesis
    proof (cases "rows d i")
      case (Some n)
      then obtain r where r: "r \<in> set (notifications d)" "n = row_view r" "n_ID r = i" using rows_Some by blast
      have "r \<notin> set (notifications (w_db (sy_world s)))" using rows_mem [OF sys_invD(7) [OF inv]] None r(3) by fastforce
      then obtain n0 where "n0 \<in> set ns" "r = stored (sv_pg sv) n0" using d(2) r(1) by auto
      then have "fresh_notification n"
        using fresh by (auto simp: r(2) list_all_iff fresh_notification_def row_view_def stored_def new_row_def
            notification.defs nrow.defs split: sum.splits)
      then show ?thesis using None Some by blast
    qed (use None in simp)
  next
    case (Some n)
    then obtain r where r: "r \<in> set (notifications (w_db (sy_world s)))" "n = row_view r" "n_ID r = i" using rows_Some by blast
    then have "r \<in> set (notifications d)" using d(2) by auto
    from rows_mem [OF d(1) this] show ?thesis using r(2,3) Some by simp
  qed
  have "quota (rows d) (sy_sends s)"
    unfolding quota_def
  proof
    fix i
    show "case rows d i of None \<Rightarrow> sy_sends s i = 0 | Some n \<Rightarrow> row_quota (sy_sends s i) n"
      using new [of i] sys_invD(2) [OF inv, unfolded quota_def, rule_format, of i]
      by (auto simp: row_quota_def fresh_notification_def active_def claimable_def status_defs)
  qed
  moreover have "sched_ok (rows d) (sy_scheds s p)" for p
    by (rule sched_ok_cong [OF sys_invD(6) [OF inv, of p]]) (use new in \<open>metis option.distinct(1)\<close>)
  moreover have "rows d i \<noteq> sys_rows s i \<Longrightarrow> open_row (sys_rows s) i" for i using new [of i] by (auto simp: open_row_def)
  ultimately show ?thesis using d(1) sys_invD(8,9) [OF inv] by (intro sys_frame [OF inv]) (auto simp: s')
qed

section \<open>The invariant\<close>

context scheduler_env
begin

lemma sys_step_inv:
  assumes "sys_step sv s s'" "sys_inv sv s"
  shows "sys_inv sv s' \<and> confined s s'"
  using assms
proof (induction rule: sys_step.induct)
  case (fetch s x msgs)
  note D = sys_invD [OF fetch.prems]
  show ?case using D(2,6-9) by (intro sys_frame [OF fetch.prems]) auto
next
  case (work s p g c' w')
  note D = sys_invD [OF work.prems]
  obtain c1 w1 where "pstep (worker_processor sv) (sy_workers s (p, g)) (world_of s p) = Some (c1, w1)" "world_inv (sv_pg sv) w1"
    "step_ok (sys_rows s) (sy_sends s) (sy_workers s (p, g)) (rows (w_db w1)) (count_send (sy_workers s (p, g)) (sy_sends s)) c1"
    using proc.worker_step [OF D(1) [of p], of "sy_sends s" "sy_workers s (p, g)"] D(2,3) by auto
  then show ?case using work.hyps D(9)
    by (intro work_frame [OF work.prems, where x = "(p, g)"]) (auto simp: world_inv_def)
next
  case (tick s p ctxDone)
  note D = sys_invD [OF tick.prems]
  have "polling (Scheduler_Start ctxDone (sy_scheds s q)) = polling (sy_scheds s q)"
    "sched_ok (sys_rows s) (Scheduler_Start ctxDone (sy_scheds s q))" for q
    using D(6) [of q] by (cases "sy_scheds s q"; simp add: polling_def sched_ok_def)+
  then show ?case using D(2,6-9) by (intro sys_frame [OF tick.prems]) (auto split: if_splits)
next
  case (sched s p c' w')
  note D = sys_invD [OF sched.prems]
  have w': "world_inv (sv_pg sv) w'" "sched_ok (rows (w_db w')) c'"
    and r: "rows (w_db w') = sys_rows s \<or> polling (sy_scheds s p) \<and>
      (\<exists>n t. sys_rows s (n_ID n) = Some n \<and> n_Status n = StatusScheduled \<and>
        rows (w_db w') = (sys_rows s)(n_ID n \<mapsto> set_status StatusQueued t n))"
    using sched_step [OF D(1) _ sched.hyps(1)] D(6) by auto
  have q: "quota (rows (w_db w')) (sy_sends s)"
  proof (cases "rows (w_db w') = sys_rows s")
    case False
    then obtain n t where n: "sys_rows s (n_ID n) = Some n" "n_Status n = StatusScheduled"
      "rows (w_db w') = (sys_rows s)(n_ID n \<mapsto> set_status StatusQueued t n)" using r by blast
    have "row_quota (sy_sends s (n_ID n)) n" using D(2) n(1) unfolding quota_def by (metis option.case(2))
    then have "row_quota (sy_sends s (n_ID n)) (set_status StatusQueued t n)"
      using n(2) by (simp add: row_quota_def active_def set_status_def claimable_def status_defs)
    then show ?thesis unfolding n(3) by (rule quota_upd [OF D(2)])
  qed (use D(2) in simp)
  have other: "sched_ok (rows (w_db w')) (sy_scheds s q)" if "q \<noteq> p" for q
  proof (cases "rows (w_db w') = sys_rows s")
    case False
    then have "\<not> polling (sy_scheds s q)" using r D(8) that by blast
    then show ?thesis by (auto simp: polling_def sched_ok_def)
  qed (use D(6) in simp)
  have "rows (w_db w') i \<noteq> sys_rows s i \<Longrightarrow> open_row (sys_rows s) i" for i
    using r by (auto simp: open_row_def active_def split: if_splits)
  then show ?case using w' q other sched.hyps(2) D(8,9)
    by (intro sys_frame [OF sched.prems]) (auto simp: world_inv_def split: if_splits)
next
  case (create n s e d)
  note D = sys_invD [OF create.prems]
  show ?case using Create_effect(1,3) [OF create.hyps(2)] D(7) create.hyps(1)
    by (intro insert_frame [OF create.prems, where ns = "[n]" and d = d]) auto
next
  case (create_batch ns s e d)
  note D = sys_invD [OF create_batch.prems]
  show ?case using CreateBatch_effect [OF create_batch.hyps(2)] D(7) create_batch.hyps(1)
    by (intro insert_frame [OF create_batch.prems, where ns = ns and d = d]) auto
next
  case (others d s r h k)
  note D = sys_invD [OF others.prems]
  show ?case using D(2,6,8,9) others.hyps by (intro sys_frame [OF others.prems]) auto
next
  case (crash s p cbMaxFailures cbTimeout)
  note D = sys_invD [OF crash.prems]
  show ?case using D(2,6-9)
    by (intro sys_frame [OF crash.prems]) (auto simp: new_local_def metrics_ok_new sched_ok_def polling_def split: if_splits)
qed

lemma proc_step:
  "world_inv (sv_pg sv) w \<Longrightarrow> quota (rows (w_db w)) k \<Longrightarrow> pc_ok (rows (w_db w)) k c \<Longrightarrow> \<exists>x. pstep (worker_processor sv) c w = Some x"
  using proc.worker_step [of w k c] by blast

lemma sys_reach_inv:
  assumes "(sys_step sv)\<^sup>*\<^sup>* s s'" "sys_inv sv s"
  shows "sys_inv sv s'"
  using assms by (induction rule: rtranclp_induct) (use sys_step_inv in blast)+

lemma closed_stays:
  assumes "(sys_step sv)\<^sup>*\<^sup>* s s'" "sys_inv sv s" "i \<notin> owners s" "\<not> open_row (sys_rows s) i"
  shows "sys_rows s' i = sys_rows s i \<and> sy_sends s' i = sy_sends s i \<and> i \<notin> owners s'"
  using assms(1)
proof (induction rule: rtranclp_induct)
  case (step s1 s2)
  have "sys_inv sv s1" by (rule sys_reach_inv [OF step.hyps(1) assms(2)])
  from sys_step_inv [OF step.hyps(2) this] have "confined s1 s2" by blast
  then show ?case using step.IH assms(4) unfolding confined_def open_row_def by metis
qed (use assms in simp)

end

section \<open>An example run\<close>

definition ex_sys :: "(nat list \<times> time, mem, int result list \<times> string list) sys" where
  "ex_sys =
     \<lparr>sy_world = ex_stored, sy_local = (\<lambda>_. new_local 5 (30 * 10 ^ 9)), sy_workers = (\<lambda>_. WIdle), sy_scheds = (\<lambda>_. SWait),
      sy_sends = (\<lambda>_. 0)\<rparr>"

lemma ex_sys_row: "rows (w_db ex_stored) = [''1'' \<mapsto> row_view (new_row mem_pg ex_new JNull)]"
  using ex_created by (auto simp: ex_stored_def ex_empty_def rows_def raw_def fun_eq_iff)

lemma ex_sys_init: "sys_init (ex_sched mem_up) ex_sys"
proof -
  have "db_inv steady_pg (w_db ex_stored)" using ex_stored_facts(1) by (rule store_invD)
  moreover have "quota (rows (w_db ex_stored)) (\<lambda>_. 0)"
    by (auto simp: ex_sys_row quota_def row_quota_def new_row_def notification.defs nrow.defs ex_new_def ex_pending_def active_def
        claimable_def status_defs split: if_splits)
  ultimately show ?thesis by (simp add: sys_init_def ex_sys_def new_local_def metrics_ok_new)
qed

lemma ex_sys_claim:
  "\<exists>n w'. pstep (worker_processor (ex_sched mem_up)) (WClaim [ex_msg1]) (enter (new_local 5 (30 * 10 ^ 9)) ex_stored) =
     Some (WSend ([ex_msg1], [n], []), w') \<and> n_ID n = ''1''"
proof -
  have m: "m_NotificationID ex_msg1 = ''1''" by (simp add: ex_msg1_def MessageFromNotification_def ex_new_def ex_pending_def)
  obtain c where c: "w_db ex_stored = \<lparr>pg_conn = ([], c), notifications = [new_row mem_pg ex_new JNull], templates = [], dead_letters = []\<rparr>"
    using ex_created by (auto simp: ex_stored_def)
  show ?thesis
    by (simp add: m on_db_def c claim_eval steady_pg_def repo_eval ex_new_def Let_def)
qed

text \<open>A worker of process 0 has claimed the notification.\<close>

lemma ex_owned:
  "\<exists>s n. (sys_step (ex_sched mem_up))\<^sup>*\<^sup>* ex_sys s \<and> sy_workers s (0, 0) = WSend ([ex_msg1], [n], []) \<and> n_ID n = ''1'' \<and>
     (\<forall>x. fst x \<noteq> 0 \<longrightarrow> sy_workers s x = WIdle) \<and> (\<forall>p. sy_scheds s p = SWait)"
proof -
  obtain n w' where c: "pstep (worker_processor (ex_sched mem_up)) (WClaim [ex_msg1]) (enter (new_local 5 (30 * 10 ^ 9)) ex_stored) =
     Some (WSend ([ex_msg1], [n], []), w')" "n_ID n = ''1''" using ex_sys_claim by blast
  let ?s1 = "ex_sys\<lparr>sy_workers := (sy_workers ex_sys)((0, 0) := WClaim [ex_msg1])\<rparr>"
  have 1: "sys_step (ex_sched mem_up) ex_sys ?s1" by (rule sys_step.fetch) (simp add: ex_sys_def)
  let ?s2 = "?s1\<lparr>sy_world := w', sy_local := (sy_local ?s1)(0 := leave w'),
    sy_workers := (sy_workers ?s1)((0, 0) := WSend ([ex_msg1], [n], [])), sy_sends := count_send (sy_workers ?s1 (0, 0)) (sy_sends ?s1)\<rparr>"
  have "pstep (worker_processor (ex_sched mem_up)) (sy_workers ?s1 (0, 0)) (world_of ?s1 0) = Some (WSend ([ex_msg1], [n], []), w')"
    using c(1) by (simp add: ex_sys_def del: pstep.simps)
  then have 2: "sys_step (ex_sched mem_up) ?s1 ?s2" by (rule sys_step.work)
  have "(sys_step (ex_sched mem_up))\<^sup>*\<^sup>* ex_sys ?s2" using 1 2 by (rule converse_rtranclp_into_rtranclp [OF _ r_into_rtranclp])
  moreover have "sy_workers ?s2 (0, 0) = WSend ([ex_msg1], [n], [])" "\<forall>x. fst x \<noteq> 0 \<longrightarrow> sy_workers ?s2 x = WIdle" "\<forall>p. sy_scheds ?s2 p = SWait"
    by (auto simp: ex_sys_def)
  ultimately show ?thesis using c(2) by blast
qed

text \<open>Then it calls the provider; or it crashes, and a worker of process 1 gets the message again.\<close>

lemma ex_work:
  assumes "(sys_step (ex_sched mem_up))\<^sup>*\<^sup>* ex_sys s"
  shows "\<exists>s'. (sys_step (ex_sched mem_up))\<^sup>*\<^sup>* s s' \<and> sy_sends s' = count_send (sy_workers s (p, g)) (sy_sends s)"
proof -
  have "sys_inv (ex_sched mem_up) s" by (rule sched_up.sys_reach_inv [OF assms sys_init_inv [OF ex_sys_init]])
  note D = sys_invD [OF this]
  obtain c' w' where "pstep (worker_processor (ex_sched mem_up)) (sy_workers s (p, g)) (world_of s p) = Some (c', w')"
    using sched_up.proc_step [of "world_of s p" "sy_sends s" "sy_workers s (p, g)"] D(1) [of p] D(2,3) by auto
  from r_into_rtranclp [of "sys_step (ex_sched mem_up)", OF sys_step.work [OF this]] show ?thesis by (intro exI conjI, assumption) simp
qed

lemma ex_called: "\<exists>s n. (sys_step (ex_sched mem_up))\<^sup>*\<^sup>* ex_sys s \<and> 0 < sy_sends s ''1'' \<and> sys_rows s ''1'' = Some n"
proof -
  obtain s n where s: "(sys_step (ex_sched mem_up))\<^sup>*\<^sup>* ex_sys s" "sy_workers s (0, 0) = WSend ([ex_msg1], [n], [])" "n_ID n = ''1''"
    using ex_owned by blast
  obtain s' where s': "(sys_step (ex_sched mem_up))\<^sup>*\<^sup>* s s'" "0 < sy_sends s' ''1''"
    using ex_work [OF s(1), of 0 0] s(2,3) by auto
  have r: "(sys_step (ex_sched mem_up))\<^sup>*\<^sup>* ex_sys s'" using s(1) s'(1) by (rule rtranclp_trans)
  have "quota (sys_rows s') (sy_sends s')" by (rule sys_invD(2)) (rule sched_up.sys_reach_inv [OF r sys_init_inv [OF ex_sys_init]])
  then have "sys_rows s' ''1'' \<noteq> None" using s'(2) unfolding quota_def by (metis less_numeral_extra(3) option.case(1))
  then show ?thesis using r s'(2) by blast
qed

lemma ex_crashed:
  "\<exists>s n. (sys_step (ex_sched mem_up))\<^sup>*\<^sup>* ex_sys s \<and> sys_rows s ''1'' = Some n \<and> n_Status n = StatusProcessing \<and>
     (\<forall>x. sy_workers s x = WIdle) \<and> (\<forall>p. sy_scheds s p = SWait)"
proof -
  obtain s n where s: "(sys_step (ex_sched mem_up))\<^sup>*\<^sup>* ex_sys s" "sy_workers s (0, 0) = WSend ([ex_msg1], [n], [])" "n_ID n = ''1''"
    "\<forall>x. fst x \<noteq> 0 \<longrightarrow> sy_workers s x = WIdle" "\<forall>p. sy_scheds s p = SWait" using ex_owned by blast
  have inv: "sys_inv (ex_sched mem_up) s" by (rule sched_up.sys_reach_inv [OF s(1) sys_init_inv [OF ex_sys_init]])
  let ?s = "s\<lparr>sy_local := (sy_local s)(0 := new_local 5 0), sy_workers := (\<lambda>x. if fst x = 0 then WIdle else sy_workers s x),
    sy_scheds := (sy_scheds s)(0 := SWait)\<rparr>"
  have "(sys_step (ex_sched mem_up))\<^sup>*\<^sup>* ex_sys ?s" by (rule rtranclp.rtrancl_into_rtrancl [OF s(1) sys_step.crash])
  moreover have "processing (sys_rows ?s) ''1''" using sys_invD(4) [OF inv, of "''1''" "(0, 0)"] s(2,3) by simp
  moreover have "\<forall>x. sy_workers ?s x = WIdle" "\<forall>p. sy_scheds ?s p = SWait" using s(4,5) by auto
  ultimately show ?thesis unfolding processing_def by (auto split: option.splits)
qed

section \<open>Properties\<close>

text \<open>
  C5. Exclusive ownership. However many worker processes and goroutines run, however their
  remote calls interleave with each other, with the scheduler and with new notifications,
  whichever requests and replies are lost and processes crash: a claimed notification is owned
  by one goroutine, which owns it once; while it is owned its row says processing; and no
  goroutine ever panics, each can take its next step. (The steps are those of \<open>sys_step\<close>: the
  status writes of the API and a poll that outlives its lock are not among them.)
\<close>

theorem system_invariant:
  assumes "scheduler_env sv" "sys_init sv s0" "(sys_step sv)\<^sup>*\<^sup>* s0 s"
  shows "(\<forall>x y i. i \<in> set (owned (sy_workers s x)) \<and> i \<in> set (owned (sy_workers s y)) \<longrightarrow> x = y) \<and>
    (\<forall>x. distinct (owned (sy_workers s x))) \<and>
    (\<forall>x i. i \<in> set (owned (sy_workers s x)) \<longrightarrow> (\<exists>n. sys_rows s i = Some n \<and> n_Status n = StatusProcessing)) \<and>
    (\<forall>p g. pstep (worker_processor sv) (sy_workers s (p, g)) (world_of s p) \<noteq> None)"
proof -
  have inv: "sys_inv sv s" by (rule scheduler_env.sys_reach_inv [OF assms(1,3) sys_init_inv [OF assms(2)]])
  note D = sys_invD [OF inv]
  have "\<exists>n. sys_rows s i = Some n \<and> n_Status n = StatusProcessing" if "i \<in> set (owned (sy_workers s x))" for x i
    using D(4) [OF that] by (auto simp: processing_def split: option.splits)
  moreover have "pstep (worker_processor sv) (sy_workers s (p, g)) (world_of s p) \<noteq> None" for p g
    using scheduler_env.proc_step [OF assms(1) D(1) [of p], of "sy_sends s" "sy_workers s (p, g)"] D(2,3) by auto
  moreover have "distinct (owned (sy_workers s x))" for x using D(3) [of x] by (simp add: pc_ok_def)
  ultimately show ?thesis using D(5) by blast
qed

theorem system_invariant_witness:
  "\<exists>s. (sys_step (ex_sched mem_up))\<^sup>*\<^sup>* ex_sys s \<and> ''1'' \<in> set (owned (sy_workers s (0, 0))) \<and>
     (\<forall>x. x \<noteq> (0, 0) \<longrightarrow> ''1'' \<notin> set (owned (sy_workers s x))) \<and> (\<exists>n. sys_rows s ''1'' = Some n \<and> n_Status n = StatusProcessing)"
proof -
  obtain s n where s: "(sys_step (ex_sched mem_up))\<^sup>*\<^sup>* ex_sys s" "sy_workers s (0, 0) = WSend ([ex_msg1], [n], [])" "n_ID n = ''1''"
    using ex_owned by blast
  have "''1'' \<in> set (owned (sy_workers s (0, 0)))" using s(2,3) by simp
  then show ?thesis using system_invariant [OF sched_up.scheduler_env_axioms ex_sys_init s(1)] s(1) by blast
qed

text \<open>
  C4. The attempts of a row are exact. In the same runs the provider is called for a
  notification at most \<open>max_attempts\<close> times; a row that waits has counted every call and has calls
  left, a failed row has used up its calls, and a sent row has counted all but the one that
  succeeded.
\<close>

theorem attempts_exact:
  assumes "scheduler_env sv" "sys_init sv s0" "(sys_step sv)\<^sup>*\<^sup>* s0 s" "sys_rows s i = Some n"
  shows "int (sy_sends s i) \<le> n_MaxAttempts n \<and>
    (n_Status n \<in> {StatusPending, StatusQueued, StatusScheduled} \<longrightarrow> int (sy_sends s i) = n_Attempts n \<and> n_Attempts n < n_MaxAttempts n) \<and>
    (n_Status n = StatusFailed \<longrightarrow> int (sy_sends s i) = n_Attempts n \<and> n_Attempts n = n_MaxAttempts n) \<and>
    (n_Status n = StatusSent \<longrightarrow> int (sy_sends s i) = n_Attempts n + 1)"
proof -
  have "quota (sys_rows s) (sy_sends s)"
    by (rule sys_invD(2)) (rule scheduler_env.sys_reach_inv [OF assms(1,3) sys_init_inv [OF assms(2)]])
  then have "row_quota (sy_sends s i) n" using assms(4) unfolding quota_def by (metis option.case(2))
  then show ?thesis by (auto simp: row_quota_def active_def claimable_def)
qed

theorem attempts_exact_witness:
  "\<exists>s n. (sys_step (ex_sched mem_up))\<^sup>*\<^sup>* ex_sys s \<and> sys_rows s ''1'' = Some n \<and> 0 < sy_sends s ''1'' \<and>
     int (sy_sends s ''1'') \<le> n_MaxAttempts n"
proof -
  obtain s n where s: "(sys_step (ex_sched mem_up))\<^sup>*\<^sup>* ex_sys s" "0 < sy_sends s ''1''" "sys_rows s ''1'' = Some n" using ex_called by blast
  then show ?thesis using attempts_exact [OF sched_up.scheduler_env_axioms ex_sys_init s(1,3)] by blast
qed

end
