(* ===== verification/Races.thy ===== *)
theory Races
  imports System
begin

text \<open>
  A race between a scheduler and a worker. \<open>poll\<close> (\<open>internal/queue/redis/scheduler.go\<close>) puts the
  message of a due notification into the queue and writes its status afterwards. A worker that
  takes the message in between does not find the row claimable. If the batch has another
  message that can be claimed, \<open>ProcessBatch\<close> (\<open>internal/worker/processor.go\<close>) acknowledges all its
  messages at the end, this one included, and the scheduler then writes queued.
\<close>

section \<open>A batch acknowledges what it has not claimed\<close>

lemma find_filter_other: "j \<noteq> i \<Longrightarrow> find (\<lambda>m. f m = j) (filter (\<lambda>m. f m \<noteq> i) xs) = find (\<lambda>m. f m = j) xs"
  by (induction xs) auto

lemma msgMap_other: "j \<noteq> i \<Longrightarrow> msgMap (filter (\<lambda>m. m_NotificationID m \<noteq> i) msgs) j = msgMap msgs j"
  by (simp add: msgMap_def rev_filter find_filter_other)

lemma send_loop_other:
  "i \<notin> n_ID ` set ns \<Longrightarrow> send_loop p (filter (\<lambda>m. m_NotificationID m \<noteq> i) msgs) ns w = send_loop p msgs ns w"
proof (induction ns arbitrary: w)
  case (Cons n ns)
  then have "msgMap (filter (\<lambda>m. m_NotificationID m \<noteq> i) msgs) (n_ID n) = msgMap msgs (n_ID n)" by (intro msgMap_other) auto
  moreover have "send_loop p (filter (\<lambda>m. m_NotificationID m \<noteq> i) msgs) ns = send_loop p msgs ns" using Cons by auto
  ultimately show ?case by (simp only: send_loop.simps)
qed simp

context processor_env
begin

lemma batch_drops:
  assumes inv: "inv w" and msgs: "\<forall>m \<in> set msgs. valid_message m" "msg \<in> set msgs" "m_Channel (hd msgs) = ch"
    and row: "tbl w (m_NotificationID msg) = Some n" "\<not> claimable (n_Status n)"
    and claim: "repo_GetAndMarkProcessingBatch (p_repo p) (map m_NotificationID msgs) w = (Inr ns, w1)" "ns \<noteq> []"
    and ack: "\<And>u. fst (p_Ack p ch msgs u) = None"
  shows "\<exists>w'. Processor_ProcessBatch p msgs w = Some w' \<and> inv w' \<and> tbl w' (m_NotificationID msg) = Some n \<and>
    msg \<notin> held ch w' \<and> (\<forall>c. waiting c w' = waiting c w) \<and> (\<forall>c. held c w' \<subseteq> held c w) \<and> (msg \<in> later w' \<longrightarrow> msg \<in> later w)"
proof -
  let ?i = "m_NotificationID msg"
  let ?ms = "filter (\<lambda>m. m_NotificationID m \<noteq> ?i) msgs"
  note c = claimed_batch [OF inv claim(1)]
  have i: "?i \<notin> n_ID ` set ns" using c(1) row by fastforce
  have inv1: "inv w1" by (rule store.claim_batch_inv [OF inv claim(1)])
  have q1: "qview w1 = qview w" using claim_batch_frame [OF claim(1)] by blast
  have sub: "n_ID ` set ns \<subseteq> m_NotificationID ` set ?ms"
  proof
    fix j assume j: "j \<in> n_ID ` set ns"
    then have "j \<in> m_NotificationID ` set msgs" using c(1) by auto
    moreover have "j \<noteq> ?i" using j i by blast
    ultimately show "j \<in> m_NotificationID ` set ?ms" by auto
  qed
  obtain sent w2 where w2: "send_loop p ?ms ns w1 = Some (sent, w2)" "loop_ok (set ?ms) ns w1 sent w2"
    using send_loop_outcome [OF inv1 _ c(2) _ sub] c(1) msgs(1) by auto
  note d = loop_okD [OF w2(2)]
  have loop: "send_loop p msgs ns w1 = Some (sent, w2)" using w2(1) send_loop_other [OF i] by metis
  define w3 where "w3 = (if sent \<noteq> [] then snd (repo_UpdateBatchSent (p_repo p) (map fst sent) (map (fst \<circ> snd) sent) w2) else w2)"
  have q3: "qview w3 = qview w2" unfolding w3_def using upd_sent_batch_frame by (cases "sent = []") (auto, metis prod.collapse)
  obtain w' where w': "Processor_ProcessBatch p msgs w = Some w'" "inv w'" "queue_ok (set msgs) w w'"
    "rows_ok (m_NotificationID ` set msgs) (tbl w) (tbl w')"
    using ProcessBatch_outcome [OF inv msgs(1)] by blast
  have ne: "msgs \<noteq> []" using msgs(2) by auto
  have run: "w' = (if sent \<noteq> [] then p_BroadcastBatch p (map (snd \<circ> snd) sent) (Processor_ack p msgs w3) else Processor_ack p msgs w3)"
    using w'(1) ne claim loop by (simp add: Processor_ProcessBatch_def w3_def Let_def split: if_splits)
  have same: "held ch' w' = held ch' (Processor_ack p msgs w3)" "later w' = later (Processor_ack p msgs w3)" for ch'
    using run by simp_all
  obtain u where u: "p_Ack p ch msgs w3 = (None, u)" using ack [of w3] by (metis prod.collapse)
  have a: "Processor_ack p msgs w3 = u" using u ne msgs(3) by (cases msgs) (simp_all add: Processor_ack_def)
  have "msg \<notin> held ch w'" using wq.ack_ok [OF msgs(1) u] msgs(2) by (simp add: same a)
  moreover have "msg \<in> later w" if "msg \<in> later w'"
  proof -
    have "msg \<in> later w2" using that ack_outcome(5) [OF msgs(1), of w3] qviewD(3) [OF q3] by (simp add: same)
    then show ?thesis using d(2) qviewD(3) [OF q1] by (auto simp: queue_ok_def)
  qed
  moreover have "tbl w' ?i = Some n" using w'(4) row unfolding rows_ok_def by (metis option.inject)
  moreover have "(\<forall>c. waiting c w' = waiting c w) \<and> (\<forall>c. held c w' \<subseteq> held c w)" using w'(3) by (auto simp: queue_ok_def moved_def)
  ultimately show ?thesis using w'(1,2) by blast
qed

end

context pg_server
begin

lemma claim_batch_up:
  assumes "pg_up pg" "db_inv pg s"
  shows "\<exists>ns s'. NotificationRepo_GetAndMarkProcessingBatch pg ids s = (Inr ns, s')"
proof -
  have "\<exists>rs u. getAndMarkProcessingBatch pg ids (s\<lparr>pg_conn := c\<rparr>) = (Inr rs, u)" for c
    unfolding getAndMarkProcessingBatch_def by (rule update_status_where [OF assms(2)]) simp
  then obtain rs u where q: "pg_call pg (getAndMarkProcessingBatch pg ids) s = (Inr rs, u)" by (metis pg_call_up [OF assms(1)])
  from claim_call(3) [OF assms(2) q refl] q show ?thesis by (auto simp: NotificationRepo_GetAndMarkProcessingBatch_def query_rows_def split: sum.splits)
qed

end

lemma marshal_all_ok: "\<forall>m \<in> set ms. \<exists>d. marshal js m = Inr d \<Longrightarrow> \<exists>ds. marshal_all js ms = Inr ds"
  by (induction ms) auto

context scheduler_env
begin

lemma race_lost:
  assumes up: "redis_up (sv_rd sv)" "pg_up (sv_pg sv)" and inv: "world_inv (sv_pg sv) w"
    and row: "rows (w_db w) (n_ID n) = Some n" "n_Status n = StatusScheduled"
    and msgs: "set msgs \<subseteq> inflight (sv_rd sv) (sv_js sv) (n_Channel n) (w_redis w)" "m_Channel (hd msgs) = n_Channel n"
      "scheduled_message n \<in> set msgs"
    and other: "m \<in> set msgs" "rows (w_db w) (m_NotificationID m) = Some n1" "claimable (n_Status n1)"
    and only: "\<forall>c. scheduled_message n \<notin> ready (sv_rd sv) (sv_js sv) c (w_redis w)"
      "\<forall>c. c \<noteq> n_Channel n \<longrightarrow> scheduled_message n \<notin> inflight (sv_rd sv) (sv_js sv) c (w_redis w)"
      "scheduled_message n \<notin> delayed (sv_rd sv) (sv_js sv) (w_redis w)"
  shows "\<exists>w1 w2 n'. Processor_ProcessBatch (worker_processor sv) msgs w = Some w1 \<and>
    sstep sv (SUpdate n ns) w1 = (SEnqueue ns, w2) \<and> rows (w_db w2) (n_ID n) = Some n' \<and> n_Status n' = StatusQueued \<and>
    scheduled_message n \<notin> queued sv w2"
proof -
  let ?p = "worker_processor sv" and ?m = "scheduled_message n"
  have v: "\<forall>m \<in> set msgs. valid_message m" using msgs(1) by (auto simp: inflight_def)
  have "\<exists>d. marshal (sv_js sv) m = Inr d" if "in_zset (sv_rd sv) (sv_js sv) k (w_redis w) m" for m k
    using that by (cases "marshal (sv_js sv) m") (auto simp: in_zset_def)
  then have "\<forall>m \<in> set msgs. \<exists>d. marshal (sv_js sv) m = Inr d" using msgs(1) unfolding inflight_def by blast
  then obtain ds where ds: "marshal_all (sv_js sv) msgs = Inr ds" using marshal_all_ok by blast
  have ack: "fst (p_Ack ?p (n_Channel n) msgs u) = None" for u
    using rd_do_up [OF up(1)] by (auto simp: worker_ops on_redis_def Consumer_Ack_def ds split: prod.splits) (metis fst_conv)
  have db: "db_inv (sv_pg sv) (w_db w)" using inv by (simp add: world_inv_def)
  obtain cl s where cl: "NotificationRepo_GetAndMarkProcessingBatch (sv_pg sv) (map m_NotificationID msgs) (w_db w) = (Inr cl, s)"
    using claim_batch_up [OF up(2) db] by blast
  then have claim: "repo_GetAndMarkProcessingBatch (p_repo ?p) (map m_NotificationID msgs) w = (Inr cl, w\<lparr>w_db := s\<rparr>)"
    by (simp add: on_db_def)
  have "cl \<noteq> []"
  proof -
    have "effect (err_of (Inr cl)) (rows (w_db w)) (rows s) (\<lambda>t. mark (map m_NotificationID msgs) t (rows (w_db w)))"
      by (rule repo.claim_batch_effect [OF db cl])
    then obtain n2 where "rows s (m_NotificationID m) = Some n2" using other(2) by (auto simp: effect_def mark_def upd_rows_def)
    moreover have "n_ID n2 = m_NotificationID m" using repo.tbl_valid [OF repo.claim_batch_inv [OF db cl] calculation] by blast
    ultimately have "n2 \<in> set cl" using repo.claim_batch_ok [OF db cl] other by auto
    then show ?thesis by auto
  qed
  have mi: "m_NotificationID ?m = n_ID n" by (simp add: scheduled_message_def)
  obtain w1 where w1: "Processor_ProcessBatch ?p msgs w = Some w1" "world_inv (sv_pg sv) w1" "rows (w_db w1) (n_ID n) = Some n"
    "?m \<notin> inflight (sv_rd sv) (sv_js sv) (n_Channel n) (w_redis w1)"
    "\<forall>c. ready (sv_rd sv) (sv_js sv) c (w_redis w1) = ready (sv_rd sv) (sv_js sv) c (w_redis w)"
    "\<forall>c. inflight (sv_rd sv) (sv_js sv) c (w_redis w1) \<subseteq> inflight (sv_rd sv) (sv_js sv) c (w_redis w)"
    "?m \<in> delayed (sv_rd sv) (sv_js sv) (w_redis w1) \<longrightarrow> ?m \<in> delayed (sv_rd sv) (sv_js sv) (w_redis w)"
    using proc.batch_drops [OF inv v msgs(3,2) _ _ claim \<open>cl \<noteq> []\<close> ack, of n] row
    by (auto simp: mi claimable_def status_defs)
  obtain s2 where s2: "NotificationRepo_UpdateStatus (sv_pg sv) (n_ID n) StatusQueued (w_db w1) = (None, s2)"
    using UpdateStatus_up [OF up(2), of "w_db w1" StatusQueued "n_ID n"] w1(2) by (metis prod.collapse status_checks(3) world_inv_def)
  let ?w2 = "w1\<lparr>w_db := s2\<rparr>"
  have step: "sstep sv (SUpdate n ns) w1 = (SEnqueue ns, ?w2)" using s2 by (simp add: on_db_def)
  have "effect None (rows (w_db w1)) (rows s2) (\<lambda>t. upd_rows (\<lambda>m. n_ID m = n_ID n) (set_status StatusQueued t) (rows (w_db w1)))"
    using repo.upd_status [OF _ s2] w1(2) by (simp add: world_inv_def)
  then have "\<exists>n'. rows (w_db ?w2) (n_ID n) = Some n' \<and> n_Status n' = StatusQueued"
    using w1(3) by (auto simp: effect_def upd_rows_def set_status_def)
  moreover have "?m \<notin> inflight (sv_rd sv) (sv_js sv) c (w_redis w1)" for c
    using w1(4,6) only(2) by (cases "c = n_Channel n") blast+
  then have "?m \<notin> queued sv ?w2" using w1(5,7) only(1,3) by (auto simp: queued_def)
  ultimately show ?thesis using w1(1) step by blast
qed

end

section \<open>Properties\<close>

definition ex_race :: "(nat list \<times> time, mem, int result list \<times> string list) world" where
  "ex_race = ex_stored\<lparr>w_db := snd (NotificationRepo_Create steady_pg ex_due (w_db ex_stored)),
     w_redis := rd_zadd mem_up (processingPrefix @ ChannelSMS) 1 ''sms,normal,a''
       (rd_zadd mem_up (processingPrefix @ ChannelSMS) 1 ''sms,normal,1'' (mem_init []))\<rparr>"

lemma ex_race_facts:
  "world_inv steady_pg ex_race"
  "\<exists>n. rows (w_db ex_race) ''a'' = Some n \<and> n_ID n = ''a'' \<and> n_Status n = StatusScheduled \<and> n_Channel n = ChannelSMS \<and>
     n_Priority n = PriorityNormal"
  "\<exists>n. rows (w_db ex_race) ''1'' = Some n \<and> claimable (n_Status n)"
proof -
  have "db_inv steady_pg (w_db ex_race)"
    using spg.repo_exec_inv [OF store_invD [OF ex_stored_facts(1)], of "OpCreate ex_due"] by (simp add: ex_race_def)
  then show "world_inv steady_pg ex_race" using ex_stored_facts(3) by (simp add: world_inv_def ex_race_def metrics_ok_new)
  obtain c where "w_db ex_stored = \<lparr>pg_conn = ([], c), notifications = [new_row mem_pg ex_new JNull], templates = [], dead_letters = []\<rparr>"
    using ex_created by (auto simp: ex_stored_def)
  then have "notifications (w_db ex_race) = [new_row mem_pg ex_new JNull, new_row mem_pg ex_due JNull]"
    by (simp add: ex_race_def NotificationRepo_Create_def ex_due_def ex_new_def steady_pg_def repo_eval)
  then show "\<exists>n. rows (w_db ex_race) ''a'' = Some n \<and> n_ID n = ''a'' \<and> n_Status n = StatusScheduled \<and> n_Channel n = ChannelSMS \<and>
     n_Priority n = PriorityNormal" "\<exists>n. rows (w_db ex_race) ''1'' = Some n \<and> claimable (n_Status n)"
    by (simp_all add: rows_def raw_def row_view_def new_row_def notification.defs nrow.defs ex_due_def ex_new_def ex_pending_def
        claimable_def)
qed

text \<open>
  C33. A scheduled notification can be lost. Let the scheduler have put the message of a due
  notification into the queue, and a worker have taken it in a batch with a message that can
  be claimed, before the scheduler has written the status. With all services up, the batch
  runs to its end, the scheduler writes queued, and then the row says queued and its message is in
  no queue.
\<close>

theorem scheduled_race_lost:
  assumes "scheduler_env sv" "redis_up (sv_rd sv)" "pg_up (sv_pg sv)" "world_inv (sv_pg sv) w"
    and "rows (w_db w) (n_ID n) = Some n" "n_Status n = StatusScheduled"
    and "set msgs \<subseteq> inflight (sv_rd sv) (sv_js sv) (n_Channel n) (w_redis w)" "m_Channel (hd msgs) = n_Channel n"
      "scheduled_message n \<in> set msgs"
    and "m \<in> set msgs" "rows (w_db w) (m_NotificationID m) = Some n1" "claimable (n_Status n1)"
    and "\<forall>c. scheduled_message n \<notin> ready (sv_rd sv) (sv_js sv) c (w_redis w)"
      "\<forall>c. c \<noteq> n_Channel n \<longrightarrow> scheduled_message n \<notin> inflight (sv_rd sv) (sv_js sv) c (w_redis w)"
      "scheduled_message n \<notin> delayed (sv_rd sv) (sv_js sv) (w_redis w)"
  shows "\<exists>w1 w2 n'. Processor_ProcessBatch (worker_processor sv) msgs w = Some w1 \<and>
    sstep sv (SUpdate n ns) w1 = (SEnqueue ns, w2) \<and> rows (w_db w2) (n_ID n) = Some n' \<and> n_Status n' = StatusQueued \<and>
    scheduled_message n \<notin> queued sv w2"
  by (rule scheduler_env.race_lost [OF assms])

theorem scheduled_race_lost_witness:
  "\<exists>n w1 w2 n'. rows (w_db ex_race) ''a'' = Some n \<and>
     Processor_ProcessBatch (worker_processor (ex_sched mem_up)) [ex_msg1, scheduled_message n] ex_race = Some w1 \<and>
     sstep (ex_sched mem_up) (SUpdate n []) w1 = (SEnqueue [], w2) \<and> rows (w_db w2) ''a'' = Some n' \<and> n_Status n' = StatusQueued \<and>
     scheduled_message n \<notin> queued (ex_sched mem_up) w2"
proof -
  obtain n where n: "rows (w_db ex_race) ''a'' = Some n" "n_ID n = ''a''" "n_Status n = StatusScheduled" "n_Channel n = ChannelSMS"
    "n_Priority n = PriorityNormal" using ex_race_facts(2) by blast
  obtain n1 where n1: "rows (w_db ex_race) ''1'' = Some n1" "claimable (n_Status n1)" using ex_race_facts(3) by blast
  let ?m = "scheduled_message n"
  have m: "m_NotificationID ex_msg1 = ''1''" "m_Channel ex_msg1 = ChannelSMS" "valid_message ex_msg1" "valid_message ?m"
    "marshal text_codec ex_msg1 = Inr ''sms,normal,1''" "marshal text_codec ?m = Inr ''sms,normal,a''"
    using n(2-5) by (simp_all add: ex_msg1_def MessageFromNotification_def ex_new_def ex_pending_def valid_message_def
        scheduled_message_def text_codec_def channel_defs priority_defs Channel_Valid_def Priority_Valid_def)
  have q: "rd_zset mem_up (w_redis ex_race) k =
      (if k = processingPrefix @ ChannelSMS then [(1, ''sms,normal,1''), (1, ''sms,normal,a'')] else [])" for k
    by (simp add: ex_race_def mem_up_def mem_eval z_add_def)
  have "set [ex_msg1, ?m] \<subseteq> inflight mem_up text_codec ChannelSMS (w_redis ex_race)"
    using m(3-6) by (simp add: inflight_def in_zset_def q z_members_def)
  moreover have "?m \<notin> ready mem_up text_codec c (w_redis ex_race)" "?m \<notin> delayed mem_up text_codec (w_redis ex_race)"
    "c \<noteq> ChannelSMS \<Longrightarrow> ?m \<notin> inflight mem_up text_codec c (w_redis ex_race)" for c
    using m(6) by (simp_all add: ready_def delayed_def inflight_def in_zset_def q z_members_def)
  ultimately show ?thesis
    using scheduled_race_lost [OF sched_up.scheduler_env_axioms, of ex_race n "[ex_msg1, ?m]" ex_msg1 n1 "[]"]
      ex_networks(1,2) ex_race_facts(1) n n1 m(1,2) by simp
qed

end
