(* ===== verification/Settled.thy ===== *)
theory Settled
  imports System
begin

text \<open>
  Finished notifications in the service without the two restrictions of \<open>System\<close>: the API
  also writes the status of notifications (\<open>enqueue\<close> and \<open>Cancel\<close> of
  \<open>internal/api/handler/notification.go\<close> end with such a write), and a poll may outlive the lock of the
  scheduler, so that any number of schedulers work at the same time. Ownership is not
  exclusive in these runs; what remains is that no goroutine touches the row of a notification
  it has not claimed before it was finished.
\<close>

section \<open>Definitions\<close>

text \<open>
  The steps of the service in which the API may write the status of the notifications in \<open>X\<close>; any
  notification may be inserted.
\<close>

inductive free_step :: "('p, 'r, 'h) services \<Rightarrow> uuid set \<Rightarrow> ('p, 'r, 'h) sys \<Rightarrow> ('p, 'r, 'h) sys \<Rightarrow> bool" for sv X where
  fetch: "sy_workers s x = WIdle \<Longrightarrow> free_step sv X s (s\<lparr>sy_workers := (sy_workers s)(x := WClaim msgs)\<rparr>)"
| work: "pstep (worker_processor sv) (sy_workers s (p, g)) (world_of s p) = Some (c', w') \<Longrightarrow>
    free_step sv X s (s\<lparr>sy_world := w', sy_local := (sy_local s)(p := leave w'), sy_workers := (sy_workers s)((p, g) := c'),
      sy_sends := count_send (sy_workers s (p, g)) (sy_sends s)\<rparr>)"
| tick: "free_step sv X s (s\<lparr>sy_scheds := (sy_scheds s)(p := Scheduler_Start ctxDone (sy_scheds s p))\<rparr>)"
| sched: "sstep sv (sy_scheds s p) (world_of s p) = (c', w') \<Longrightarrow>
    free_step sv X s (s\<lparr>sy_world := w', sy_local := (sy_local s)(p := leave w'), sy_scheds := (sy_scheds s)(p := c')\<rparr>)"
| create: "NotificationRepo_Create (sv_pg sv) n (w_db (sy_world s)) = (e, d) \<Longrightarrow>
    free_step sv X s (s\<lparr>sy_world := (sy_world s)\<lparr>w_db := d\<rparr>\<rparr>)"
| create_batch: "NotificationRepo_CreateBatch (sv_pg sv) ns (w_db (sy_world s)) = (e, d) \<Longrightarrow>
    free_step sv X s (s\<lparr>sy_world := (sy_world s)\<lparr>w_db := d\<rparr>\<rparr>)"
| api_status: "j \<in> X \<Longrightarrow> NotificationRepo_UpdateStatus (sv_pg sv) j st (w_db (sy_world s)) = (e, d) \<Longrightarrow>
    free_step sv X s (s\<lparr>sy_world := (sy_world s)\<lparr>w_db := d\<rparr>\<rparr>)"
| others: "db_inv (sv_pg sv) d \<Longrightarrow> rows d = sys_rows s \<Longrightarrow>
    free_step sv X s (s\<lparr>sy_world := (sy_world s)\<lparr>w_db := d, w_redis := r, w_http := h, w_tick := k\<rparr>\<rparr>)"
| crash: "free_step sv X s (s\<lparr>sy_local := (sy_local s)(p := new_local cbMaxFailures cbTimeout),
    sy_workers := (\<lambda>x. if fst x = p then WIdle else sy_workers s x), sy_scheds := (sy_scheds s)(p := SWait)\<rparr>)"

lemma sys_free: "sys_step sv s s' \<Longrightarrow> free_step sv X s s'"
  by (induction rule: sys_step.induct) (auto intro: free_step.intros)

lemma sys_free_steps: "(sys_step sv)\<^sup>*\<^sup>* s s' \<Longrightarrow> (free_step sv X)\<^sup>*\<^sup>* s s'"
  by (induction rule: rtranclp_induct) (auto intro: sys_free rtranclp.rtrancl_into_rtrancl)

text \<open>The channels of the notifications a goroutine counts, and whether a goroutine is at work on a notification.\<close>

definition channels_ok :: "pc \<Rightarrow> bool" where
  "channels_ok c = (\<forall>n \<in> set (todo c @ failing c). Channel_Valid (n_Channel n))"

definition free_inv :: "('p, 'r, 'h) services \<Rightarrow> ('p, 'r, 'h) sys \<Rightarrow> bool" where
  "free_inv sv s =
     (db_inv (sv_pg sv) (w_db (sy_world s)) \<and> (\<forall>p. metrics_ok (l_metrics (sy_local s p))) \<and> (\<forall>x. channels_ok (sy_workers s x)))"

definition untouched :: "('p, 'r, 'h) sys \<Rightarrow> uuid \<Rightarrow> bool" where
  "untouched s i =
     (\<not> open_row (sys_rows s) i \<and> (\<forall>x. i \<notin> set (owned (sy_workers s x))) \<and> (\<forall>p. i \<notin> n_ID ` set (page_of (sy_scheds s p))))"

text \<open>What a step does to a notification nobody works on: nothing.\<close>

definition leaves_alone :: "('p, 'r, 'h) sys \<Rightarrow> ('p, 'r, 'h) sys \<Rightarrow> uuid \<Rightarrow> bool" where
  "leaves_alone s s' i = (sys_rows s' i = sys_rows s i \<and> sy_sends s' i = sy_sends s i \<and> untouched s' i)"

section \<open>Lemmas\<close>

context processor_env
begin

lemma claim_row:
  assumes "inv w" "repo_GetAndMarkProcessingBatch (p_repo p) ids w = (x, w1)" "\<not> open_row (tbl w) i"
  shows "tbl w1 i = tbl w i" "x = Inr ns \<Longrightarrow> i \<notin> n_ID ` set ns"
proof -
  show "tbl w1 i = tbl w i"
    using store.claim_batch_effect [OF assms(1,2)] assms(3)
    by (cases "tbl w i") (auto simp: effect_def mark_def upd_rows_def open_row_def active_def split: if_splits)
  show "i \<notin> n_ID ` set ns" if "x = Inr ns"
    using claimed_batch(1) [OF assms(1) assms(2) [unfolded that]] assms(3) by (fastforce simp: open_row_def active_def)
qed

lemma free_worker_step:
  assumes inv: "inv w" and ch: "channels_ok c" and step: "pstep p c w = Some (c', w')"
  shows "inv w'" "channels_ok c'"
    "\<not> open_row (tbl w) i \<Longrightarrow> i \<notin> set (owned c) \<Longrightarrow> tbl w' i = tbl w i \<and> i \<notin> set (owned c') \<and> count_send c k i = k i"
proof -
  have ids: "tbl w j = Some m \<Longrightarrow> n_ID m = j" for j m using store.tbl_valid [OF inv] by blast
  have "inv w' \<and> channels_ok c' \<and>
    (\<not> open_row (tbl w) i \<longrightarrow> i \<notin> set (owned c) \<longrightarrow> tbl w' i = tbl w i \<and> i \<notin> set (owned c') \<and> count_send c k i = k i)"
  proof (cases c)
    case (WClaim msgs)
    show ?thesis
    proof (cases "msgs = []")
      case False
      obtain x w1 where cl: "repo_GetAndMarkProcessingBatch (p_repo p) (map m_NotificationID msgs) w = (x, w1)" by fastforce
      note r = claim_row [OF inv cl]
      have w': "w' = w1" "c' = (case x of Inl _ \<Rightarrow> WIdle | Inr ns \<Rightarrow> if ns = [] then WIdle else WSend (msgs, ns, []))"
        using step cl False by (auto simp: WClaim split: sum.splits)
      have "Channel_Valid (n_Channel n)" if "x = Inr ns" "n \<in> set ns" for n ns
        using claimed_batch(1) [OF inv cl [unfolded that(1)] that(2)] store.tbl_valid [OF store.claim_batch_inv [OF inv cl]] by blast
      then show ?thesis
        using w' r store.claim_batch_inv [OF inv cl] by (cases x) (auto simp: WClaim channels_ok_def)
    qed (use step inv in \<open>simp add: WClaim channels_ok_def\<close>)
  next
    case (WSend b)
    obtain msgs ns sent where b: "b = (msgs, ns, sent)" by (metis prod.exhaust)
    show ?thesis
    proof (cases ns)
      case (Cons n ns')
      obtain x w1 where s: "p_provider p n w = (x, w1)" by fastforce
      have f: "tbl w1 = tbl w" "inv w1" using send_frame [OF s] inv by auto
      have "Channel_Valid (n_Channel n)" using ch by (simp add: WSend b Cons channels_ok_def)
      then obtain w2 where w2: "p_IncrSent p (n_Channel n) w1 = Some w2" "tbl w2 = tbl w1" "inv w2" using incr_sent [OF f(2)] by blast
      show ?thesis using step s f w2 ch by (cases x) (auto simp: WSend b Cons channels_ok_def)
    qed (use step inv ch in \<open>auto simp: WSend b channels_ok_def\<close>)
  next
    case (WFail b n e)
    have "Channel_Valid (n_Channel n)" using ch by (simp add: WFail channels_ok_def)
    then obtain w1 where w1: "p_IncrFailed p (n_Channel n) w = Some w1" "tbl w1 = tbl w" "inv w1" using incr_failed [OF inv] by blast
    let ?st = "if n_MaxAttempts n \<le> n_Attempts n + 1 then StatusFailed else StatusQueued"
    obtain x w2 where u: "repo_UpdateStatusWithError (p_repo p) (n_ID n) ?st (Error e) (n_Attempts n + 1) w1 = (x, w2)" by fastforce
    have c': "w' = w2" "todo c' = fst (snd b)" "failing c' = []" "sent_of c' = snd (snd b)"
      using step w1(1) u by (auto simp: WFail Let_def split: option.splits if_splits)
    then have o: "owned c' = owned (WSend b)" by (simp add: owned_def)
    note e = store.upd_error [OF w1(3) u]
    have "upd_rows (\<lambda>m. n_ID m = n_ID n) f (tbl w) i = tbl w i" if "i \<noteq> n_ID n" for f
      using that ids by (cases "tbl w i") (auto simp: upd_rows_def)
    then have "tbl w2 i = tbl w i" if "i \<noteq> n_ID n" using e that w1(2) by (auto simp: effect_def)
    then show ?thesis using e c' o ch by (auto simp: WFail channels_ok_def)
  next
    case (WDead b n em)
    obtain x w1 where h: "p_Handle p (n_ID n) em (n_Attempts n) w = (x, w1)" by fastforce
    then show ?thesis using handle_frame [OF h] step inv ch by (auto simp: WDead channels_ok_def)
  next
    case (WRetry b n em)
    obtain d w1 where d: "p_NextDelay p (n_Attempts n) w = (d, w1)" by fastforce
    obtain x w2 where e: "p_EnqueueDelayed p (failed_message b n) d w1 = (x, w2)" by fastforce
    show ?thesis using step d e nextdelay_frame [OF d] delayed_frame [OF e] inv ch by (cases x) (auto simp: WRetry channels_ok_def)
  next
    case (WMark msgs sent)
    obtain x w1 where u: "repo_UpdateBatchSent (p_repo p) (map fst sent) (map (fst \<circ> snd) sent) w = (x, w1)" by fastforce
    let ?l = "zip (map fst sent) (map (fst \<circ> snd) sent)"
    have e: "inv w1 \<and> effect x (tbl w) (tbl w1) (\<lambda>t. mark_sent ?l t (tbl w))"
      by (rule store.upd_sent_batch [OF inv _ u]) simp
    have "mark_sent ?l t (tbl w) i = tbl w i" if "i \<notin> set (map fst sent)" for t
      using mark_sent_row [where m = "tbl w" and l = ?l and t = t and i = i, OF ids] that by (fastforce dest: set_zip_leftD)
    then have "tbl w1 i = tbl w i" if "i \<notin> set (map fst sent)" using e that by (auto simp: effect_def)
    then show ?thesis using step u e inv by (auto simp: WMark channels_ok_def)
  qed (use step inv ch ack_same in \<open>auto simp: channels_ok_def Let_def\<close>)
  then show "inv w'" "channels_ok c'"
    "\<not> open_row (tbl w) i \<Longrightarrow> i \<notin> set (owned c) \<Longrightarrow> tbl w' i = tbl w i \<and> i \<notin> set (owned c') \<and> count_send c k i = k i"
    by blast+
qed

end

context scheduler_env
begin

lemma status_write:
  fixes w :: "('p, 'r, 'h) world"
  assumes "world_inv (sv_pg sv) w" "repo_UpdateStatus (worker_repo (sv_pg sv)) j st w = (e, w1)"
  shows "world_inv (sv_pg sv) w1" "i \<noteq> j \<Longrightarrow> rows (w_db w1) i = rows (w_db w) i"
proof -
  have ids: "rows (w_db w) k = Some m \<Longrightarrow> n_ID m = k" for k m using store.tbl_valid [OF assms(1)] by blast
  have u: "world_inv (sv_pg sv) w1 \<and> effect e (rows (w_db w)) (rows (w_db w1)) (\<lambda>t. upd_rows (\<lambda>n. n_ID n = j) (set_status st t) (rows (w_db w)))"
    using store.upd_status [OF assms(1), of j st e w1] assms(2) by simp
  show "world_inv (sv_pg sv) w1" using u by blast
  have "upd_rows (\<lambda>m. n_ID m = j) f (rows (w_db w)) i = rows (w_db w) i" if "i \<noteq> j" for f
    using that ids by (cases "rows (w_db w) i") (auto simp: upd_rows_def)
  then show "rows (w_db w1) i = rows (w_db w) i" if "i \<noteq> j" using u that by (auto simp: effect_def)
qed

lemma free_sched_step:
  assumes inv: "world_inv (sv_pg sv) w" and step: "sstep sv c w = (c', w')"
  shows "world_inv (sv_pg sv) w'"
    "\<not> open_row (rows (w_db w)) i \<Longrightarrow> i \<notin> n_ID ` set (page_of c) \<Longrightarrow>
      rows (w_db w') i = rows (w_db w) i \<and> i \<notin> n_ID ` set (page_of c')"
proof -
  have req: "world_inv (sv_pg sv) w1 \<and> rows (w_db w1) = rows (w_db w)" if "requeues w w1" for w1
    using that inv by (simp add: requeues_def world_inv_def)
  have "world_inv (sv_pg sv) w' \<and> (\<not> open_row (rows (w_db w)) i \<longrightarrow> i \<notin> n_ID ` set (page_of c) \<longrightarrow>
      rows (w_db w') i = rows (w_db w) i \<and> i \<notin> n_ID ` set (page_of c'))"
  proof (cases c)
    case SLock
    then have "w_db w' = w_db w" "w_metrics w' = w_metrics w" "page_of c' = []"
      using step by (auto simp: on_redis_def split: prod.splits sum.splits if_splits)
    then show ?thesis using inv by (simp add: world_inv_def)
  next
    case SPage
    obtain x w1 where r: "repo_GetPendingScheduled (worker_repo (sv_pg sv)) w = (x, w1)" by fastforce
    note p = page_read [OF inv r]
    have w': "w' = w1" "c' = (case x of Inl _ \<Rightarrow> SPromote | Inr ns \<Rightarrow> if ns = [] then SPromote else SEnqueue ns)"
      using step r SPage by (auto split: sum.splits)
    have "i \<notin> n_ID ` set ns" if "x = Inr ns" "\<not> open_row (rows (w_db w)) i" for ns
      using p(2) [OF that(1)] that(2) p(3) by (fastforce simp: due_page_def open_row_def active_def)
    then show ?thesis using w' p(1,3) by (cases x) (auto simp: schedules_def)
  next
    case (SEnqueue ns)
    show ?thesis
    proof (cases ns)
      case (Cons n ns')
      obtain e w1 where e: "worker_Enqueue sv (scheduled_message n) w = (e, w1)" by fastforce
      note f = worker_Enqueue_frame [OF e]
      have "w' = w1" "c' = SEnqueue ns' \<or> c' = SUpdate n ns'" using step e by (auto simp: SEnqueue Cons split: option.splits)
      then show ?thesis using inv f(1,3) by (auto simp: SEnqueue Cons world_inv_def)
    qed (use step inv in \<open>auto simp: SEnqueue\<close>)
  next
    case (SUpdate n ns)
    obtain e w1 where u: "repo_UpdateStatus (worker_repo (sv_pg sv)) (n_ID n) StatusQueued w = (e, w1)" by fastforce
    then show ?thesis using step status_write [OF inv u] by (auto simp: SUpdate)
  next
    case SPromote
    then show ?thesis using step req [OF promote_requeues] by auto
  next
    case SReclaim
    then show ?thesis using step req [OF reclaim_requeues] by auto
  qed (use step inv in auto)
  then show "world_inv (sv_pg sv) w'"
    "\<not> open_row (rows (w_db w)) i \<Longrightarrow> i \<notin> n_ID ` set (page_of c) \<Longrightarrow>
      rows (w_db w') i = rows (w_db w) i \<and> i \<notin> n_ID ` set (page_of c')" by blast+
qed

lemma inserted_rows:
  assumes "db_inv (sv_pg sv) s" "db_inv (sv_pg sv) d" "notifications d = notifications s \<or> (\<exists>rs. notifications d = notifications s @ rs)"
    and "rows s i = Some n"
  shows "rows d i = Some n"
proof -
  obtain r where r: "r \<in> set (notifications s)" "n = row_view r" "n_ID r = i" using assms(4) rows_Some by blast
  then have "r \<in> set (notifications d)" using assms(3) by auto
  from rows_mem [OF assms(2) this] show ?thesis using r(2,3) by simp
qed

lemma free_world: "free_inv sv s \<Longrightarrow> world_inv (sv_pg sv) (world_of s p)"
  by (simp add: free_inv_def world_inv_def)

lemma free_insert:
  assumes "free_inv sv s" "db_inv (sv_pg sv) d" "notifications d = notifications (w_db (sy_world s)) \<or> (\<exists>rs. notifications d = notifications (w_db (sy_world s)) @ rs)"
    and s': "s' = s\<lparr>sy_world := (sy_world s)\<lparr>w_db := d\<rparr>\<rparr>"
  shows "free_inv sv s' \<and> (untouched s i \<longrightarrow> leaves_alone s s' i)"
proof -
  have "rows d i = sys_rows s i" if "\<not> open_row (sys_rows s) i"
    using inserted_rows [OF _ assms(2,3), of i] assms(1) that by (cases "sys_rows s i") (auto simp: free_inv_def open_row_def)
  then show ?thesis using assms(1,2) by (auto simp: s' free_inv_def untouched_def leaves_alone_def open_row_def)
qed

lemma free_step_inv:
  assumes "free_step sv X s s'" "free_inv sv s"
  shows "free_inv sv s' \<and> (untouched s i \<and> i \<notin> X \<longrightarrow> leaves_alone s s' i)"
  using assms
proof (induction rule: free_step.induct)
  case (fetch s x msgs)
  then show ?case by (auto simp: free_inv_def untouched_def leaves_alone_def channels_ok_def)
next
  case (work s p g c' w')
  have ch: "channels_ok (sy_workers s (p, g))" using work.prems by (simp add: free_inv_def)
  note st = proc.free_worker_step [OF free_world [OF work.prems] ch work.hyps]
  have "free_inv sv (s\<lparr>sy_world := w', sy_local := (sy_local s)(p := leave w'), sy_workers := (sy_workers s)((p, g) := c'),
      sy_sends := count_send (sy_workers s (p, g)) (sy_sends s)\<rparr>)"
    using work.prems st(1,2) by (auto simp: free_inv_def world_inv_def)
  moreover have "rows (w_db w') i = sys_rows s i \<and> i \<notin> set (owned c') \<and> count_send (sy_workers s (p, g)) (sy_sends s) i = sy_sends s i"
    if "untouched s i" using st(3) [of i "sy_sends s"] that by (simp add: untouched_def)
  ultimately show ?case by (auto simp: untouched_def leaves_alone_def open_row_def)
next
  case (tick s p ctxDone)
  have "page_of (Scheduler_Start ctxDone c) = page_of c" for c by (cases c) simp_all
  then show ?case using tick by (auto simp: free_inv_def untouched_def leaves_alone_def)
next
  case (sched s p c' w')
  note st = free_sched_step [OF free_world [OF sched.prems] sched.hyps]
  have "rows (w_db w') i = sys_rows s i \<and> i \<notin> n_ID ` set (page_of c')" if "untouched s i"
    using st(2) [of i] that by (simp add: untouched_def)
  then show ?case using sched.prems st(1) by (auto simp: free_inv_def world_inv_def untouched_def leaves_alone_def open_row_def)
next
  case (create n s e d)
  have "db_inv (sv_pg sv) (w_db (sy_world s))" using create.prems by (simp add: free_inv_def)
  then show ?case using Create_effect(1,3) [OF create.hyps] free_insert [OF create.prems, of d _ i] by auto
next
  case (create_batch ns s e d)
  have "db_inv (sv_pg sv) (w_db (sy_world s))" using create_batch.prems by (simp add: free_inv_def)
  then show ?case using CreateBatch_effect [OF create_batch.hyps] free_insert [OF create_batch.prems, of d _ i] by auto
next
  case (api_status j st s e d)
  have "repo_UpdateStatus (worker_repo (sv_pg sv)) j st (world_of s 0) = (e, (world_of s 0)\<lparr>w_db := d\<rparr>)"
    using api_status.hyps(2) by (simp add: on_db_eq)
  note u = status_write [OF free_world [OF api_status.prems] this]
  have "rows d i = sys_rows s i" if "i \<notin> X" using u(2) [of i] that api_status.hyps(1) by auto
  then show ?case using api_status.prems u(1) by (auto simp: free_inv_def world_inv_def untouched_def leaves_alone_def open_row_def)
next
  case (others d s r h k)
  then show ?case by (auto simp: free_inv_def untouched_def leaves_alone_def)
next
  case (crash s p cbMaxFailures cbTimeout)
  then show ?case
    by (auto simp: free_inv_def untouched_def leaves_alone_def channels_ok_def new_local_def metrics_ok_new)
qed

lemma free_steps_inv: "(free_step sv X)\<^sup>*\<^sup>* s s' \<Longrightarrow> free_inv sv s \<Longrightarrow> free_inv sv s'"
  by (induction rule: rtranclp_induct) (use free_step_inv in blast)+

lemma untouched_stays:
  assumes "(free_step sv X)\<^sup>*\<^sup>* s s'" "free_inv sv s" "untouched s i" "i \<notin> X"
  shows "leaves_alone s s' i"
  using assms(1)
proof (induction rule: rtranclp_induct)
  case base
  show ?case using assms(3) by (simp add: leaves_alone_def)
next
  case (step s1 s2)
  have "free_inv sv s1" by (rule free_steps_inv [OF step.hyps(1) assms(2)])
  from free_step_inv [OF step.hyps(2) this, of i] show ?case using step.IH assms(4) by (simp add: leaves_alone_def)
qed

end

lemma sys_init_free: "sys_init sv s \<Longrightarrow> free_inv sv s"
  by (simp add: sys_init_def free_inv_def channels_ok_def)

section \<open>The hubs of the workers\<close>

text \<open>
  A worker process has a hub of its own and no HTTP server, so that nothing ever registers a client there.
\<close>

lemma hub_calls [simp]:
  "w_hub (snd (on_db f w)) = w_hub w" "w_hub (snd (on_redis g w)) = w_hub w"
  "w_hub (snd (worker_send sv n w)) = w_hub w" "w_hub (enter l w) = l_hub l" "l_hub (leave w) = w_hub w"
  by (simp_all add: on_db_def on_redis_def worker_send_def Let_def enter_def leave_def split: prod.splits)

lemma hub_call_eqs:
  "on_db f w = (x, w') \<Longrightarrow> w_hub w' = w_hub w" "on_redis g w = (y, w') \<Longrightarrow> w_hub w' = w_hub w"
  "worker_send sv n w = (z, w') \<Longrightarrow> w_hub w' = w_hub w"
  using hub_calls(1) [of f w] hub_calls(2) [of g w] hub_calls(3) [of sv n w] by simp_all

lemma broadcast_empty:
  "w_hub w = NewHub \<Longrightarrow> w_hub (p_Broadcast (worker_processor sv) ev w) = NewHub"
  "w_hub w = NewHub \<Longrightarrow> w_hub (p_BroadcastBatch (worker_processor sv) evs w) = NewHub"
  by (simp_all add: worker_processor_def broadcast_end_def Hub_Broadcast_def Hub_BroadcastBatch_def NewHub_def split: sum.splits)

lemma processor_hub:
  "p_Handle (worker_processor sv) i em a w = (x, w') \<Longrightarrow> w_hub w' = w_hub w"
  "p_NextDelay (worker_processor sv) a w = (d, w') \<Longrightarrow> w_hub w' = w_hub w"
  "p_EnqueueDelayed (worker_processor sv) m d w = (e, w') \<Longrightarrow> w_hub w' = w_hub w"
  "p_IncrSent (worker_processor sv) ch w = Some w' \<Longrightarrow> w_hub w' = w_hub w"
  "p_IncrFailed (worker_processor sv) ch w = Some w' \<Longrightarrow> w_hub w' = w_hub w"
  "w_hub (Processor_ack (worker_processor sv) msgs w) = w_hub w"
  by (auto simp: worker_processor_def Processor_ack_def dest: hub_call_eqs split: list.splits prod.splits)

lemma pstep_hub:
  assumes "pstep (worker_processor sv) c w = Some (c', w')" "w_hub w = NewHub"
  shows "w_hub w' = NewHub"
proof (cases c)
  case (WSend b)
  then show ?thesis using assms
    by (cases b; cases "fst (snd b)") (auto dest!: hub_call_eqs(3) processor_hub(4) split: prod.splits sum.splits option.splits)
next
  case (WFail b n e)
  then show ?thesis using assms
    by (auto simp: Let_def dest!: hub_call_eqs(1) processor_hub(5) split: prod.splits option.splits if_splits)
qed (use assms in \<open>auto simp: processor_hub(6) broadcast_empty Let_def dest!: hub_call_eqs processor_hub(1-3) split: prod.splits sum.splits option.splits if_splits\<close>)

lemma requeue_hub: "w_hub (requeue_all sv key ms w) = w_hub w"
  by (induction sv key ms w rule: requeue_all.induct)
    (auto simp: worker_Enqueue_def dest!: hub_call_eqs(2) split: sum.splits prod.splits option.splits)

lemma scheduler_hub:
  "w_hub (promoteDelayedRetries sv w) = w_hub w" "w_hub (reclaimExpiredProcessing sv w) = w_hub w"
proof -
  have r: "w_hub (reclaim_channel sv now ch u) = w_hub u" for now ch u
    by (auto simp: reclaim_channel_def due_members_def requeue_hub dest!: hub_call_eqs(2) split: prod.splits sum.splits)
  then show "w_hub (reclaimExpiredProcessing sv w) = w_hub w" by (simp add: reclaimExpiredProcessing_def Let_def)
  show "w_hub (promoteDelayedRetries sv w) = w_hub w"
    by (auto simp: promoteDelayedRetries_def due_members_def requeue_hub Let_def dest!: hub_call_eqs(2) split: prod.splits sum.splits)
qed

lemma sstep_hub: "sstep sv c w = (c', w') \<Longrightarrow> w_hub w' = w_hub w"
  by (induction sv c w rule: sstep.induct)
    (auto simp: worker_Enqueue_def scheduler_hub dest!: hub_call_eqs(1,2) split: prod.splits sum.splits option.splits if_splits)

section \<open>Properties\<close>

text \<open>
  C13. Finished notifications are left alone by workers and schedulers. Take any state that any number of
  processes can reach, the status writes of the API, polls that outlive the lock, lost calls and
  crashes included. If the row of a notification there says sent, failed, cancelled or
  processing, no goroutine owns the notification and no scheduler has it on its page, then in every
  continuation in which the API does not write the status of this notification the row stays as it is
  and the provider is not called for it, even when its message is delivered again. (A write of
  the API does change it: the races in the theory \<open>Service\<close> are such runs.) A notification whose
  worker crashed after the claim is among these: it stays in processing.
\<close>

theorem final_rows:
  assumes "scheduler_env sv" "sys_init sv s0" "(free_step sv UNIV)\<^sup>*\<^sup>* s0 s" "sys_rows s i = Some n"
    and "n_Status n \<in> {StatusSent, StatusFailed, StatusCancelled, StatusProcessing}"
    and "\<forall>x. i \<notin> set (owned (sy_workers s x))" "\<forall>p. i \<notin> n_ID ` set (page_of (sy_scheds s p))"
    and "(free_step sv (- {i}))\<^sup>*\<^sup>* s s'"
  shows "sys_rows s' i = Some n \<and> sy_sends s' i = sy_sends s i"
proof -
  have "free_inv sv s" by (rule scheduler_env.free_steps_inv [OF assms(1,3) sys_init_free [OF assms(2)]])
  moreover have "untouched s i"
    using assms(4-7) by (auto simp: untouched_def open_row_def active_def claimable_def status_defs)
  ultimately have "leaves_alone s s' i" using scheduler_env.untouched_stays [OF assms(1,8)] by simp
  then show ?thesis using assms(4) by (simp add: leaves_alone_def)
qed

text \<open>The worker of process 0 has crashed after its claim; a worker of process 1 gets the message again.\<close>

theorem final_rows_witness:
  "\<exists>s s' n. (free_step (ex_sched mem_up) UNIV)\<^sup>*\<^sup>* ex_sys s \<and> sys_rows s ''1'' = Some n \<and> n_Status n = StatusProcessing \<and>
     free_step (ex_sched mem_up) (- {''1''}) s s' \<and> sy_workers s' (1, 0) = WClaim [ex_msg1] \<and>
     (\<forall>s2. (free_step (ex_sched mem_up) (- {''1''}))\<^sup>*\<^sup>* s' s2 \<longrightarrow> sys_rows s2 ''1'' = Some n)"
proof -
  obtain s n where s: "(sys_step (ex_sched mem_up))\<^sup>*\<^sup>* ex_sys s" "sys_rows s ''1'' = Some n" "n_Status n = StatusProcessing"
    "\<forall>x. sy_workers s x = WIdle" "\<forall>p. sy_scheds s p = SWait" using ex_crashed by blast
  let ?s' = "s\<lparr>sy_workers := (sy_workers s)((1, 0) := WClaim [ex_msg1])\<rparr>"
  have st: "free_step (ex_sched mem_up) (- {''1''}) s ?s'" by (rule free_step.fetch) (use s(4) in blast)
  have r: "(free_step (ex_sched mem_up) UNIV)\<^sup>*\<^sup>* ex_sys s" by (rule sys_free_steps [OF s(1)])
  have "sys_rows s2 ''1'' = Some n" if "(free_step (ex_sched mem_up) (- {''1''}))\<^sup>*\<^sup>* ?s' s2" for s2
    using final_rows [OF sched_up.scheduler_env_axioms ex_sys_init r s(2), of s2] s(3-5) converse_rtranclp_into_rtranclp [OF st that]
    by auto
  moreover have "sy_workers ?s' (1, 0) = WClaim [ex_msg1]" by simp
  ultimately show ?thesis using r s(2,3) st by blast
qed

text \<open>
  The status events of the workers reach nobody. In every run no worker process ever has a client in
  its hub: clients could only connect to the API process, whose hub no worker knows.
\<close>

theorem worker_hubs_empty:
  assumes "\<forall>p. l_hub (sy_local s0 p) = NewHub" "(free_step sv X)\<^sup>*\<^sup>* s0 s"
  shows "l_hub (sy_local s p) = NewHub"
proof -
  have "\<forall>p. l_hub (sy_local s p) = NewHub"
    using assms(2)
  proof (induction rule: rtranclp_induct)
    case (step s1 s2)
    from step.hyps(2) step.IH show ?case
      by (induction rule: free_step.induct) (auto simp: new_local_def dest: pstep_hub sstep_hub)
  qed (use assms(1) in simp)
  then show ?thesis by blast
qed

theorem worker_hubs_empty_witness:
  "\<exists>s. (free_step (ex_sched mem_up) UNIV)\<^sup>*\<^sup>* ex_sys s \<and> 0 < sy_sends s ''1'' \<and> (\<forall>p. l_hub (sy_local s p) = NewHub)"
proof -
  obtain s where s: "(sys_step (ex_sched mem_up))\<^sup>*\<^sup>* ex_sys s" "0 < sy_sends s ''1''" using ex_called by blast
  have "\<forall>p. l_hub (sy_local ex_sys p) = NewHub" by (simp add: ex_sys_def new_local_def)
  from worker_hubs_empty [OF this sys_free_steps [OF s(1)]] show ?thesis using s sys_free_steps by blast
qed

end
