(* ===== verification/Rate_Limiter.thy ===== *)
theory Rate_Limiter
  imports Redis Domain
begin

text \<open>
  The sliding-window rate limiter of \<open>internal/queue/redis/ratelimiter.go\<close>: two Lua scripts
  that run atomically on the Redis server, and the methods \<open>Allow\<close> and \<open>AllowN\<close> that call
  them. Lua numbers are doubles. Two things the scripts use are inputs of the model: Lua's
  conversion of a number to a string (\<open>tostr\<close>) and the values drawn with
  \<open>math.random(1000000)\<close> during one execution (\<open>rnd i\<close> for draw \<open>i\<close>). Nothing is assumed
  about them; where a property needs the entries of different calls to be different, it
  says so.
\<close>

section \<open>Definitions\<close>

definition windowNs :: int where "windowNs = 10 ^ 9"

text \<open>\<open>fmt.Sprintf("ratelimit:%s", channel)\<close>\<close>

definition ratelimit_key :: "channel \<Rightarrow> string" where
  "ratelimit_key ch = ''ratelimit:'' @ ch"

text \<open>
  The seconds after which Redis may remove the whole key: the model's \<open>EXPIRE\<close> never does. It may be
  left out because by then every entry of the last call is outside the window (\<open>key_ttl_window\<close>),
  so that the next script would remove them all, as long as the workers' clocks and the clock
  of the server advance alike.
\<close>

definition key_ttl :: "float64 \<Rightarrow> float64" where
  "key_ttl window = f64 (f64 (window / 10 ^ 9) + 1)"

lemma key_ttl_window: "of_int windowNs \<le> (key_ttl (float64_of_int windowNs) - 1) * 10 ^ 9"
proof -
  have "f64 1 = 1" "f64 2 = 2" using f64_of_small_int [of 1] f64_of_small_int [of 2] by simp_all
  moreover have "float64_of_int windowNs = 10 ^ 9"
    using f64_of_small_int [of "10 ^ 9"] by (simp add: float64_of_int_def windowNs_def)
  ultimately show ?thesis by (simp add: key_ttl_def windowNs_def)
qed

definition rateLimitScript ::
  "'r redis \<Rightarrow> (float64 \<Rightarrow> string) \<Rightarrow> nat \<Rightarrow> string \<Rightarrow> float64 \<Rightarrow> float64 \<Rightarrow> float64 \<Rightarrow> 'r \<Rightarrow> int \<times> 'r" where
  "rateLimitScript rd tostr rnd key limit window now r =
     (let r1 = rd_zremrangebyscore rd key 0 (f64 (now - window)) r;
          cnt = rd_zcard rd key r1
      in if of_nat cnt < limit
         then (let r2 = rd_zadd rd key now (tostr now @ ''-'' @ tostr (of_nat rnd)) r1;
                   r3 = rd_expire rd key (key_ttl window) r2
               in (1, r3))
         else (0, r1))"

text \<open>The loop \<open>for i = 1, allowed\<close> of the batch script, from index \<open>i\<close> for \<open>n\<close> rounds.\<close>

definition batch_entry :: "(float64 \<Rightarrow> string) \<Rightarrow> (nat \<Rightarrow> nat) \<Rightarrow> float64 \<Rightarrow> nat \<Rightarrow> string" where
  "batch_entry tostr rnd now i =
     tostr now @ ''-'' @ tostr (of_nat i) @ ''-'' @ tostr (of_nat (rnd i))"

definition batch_entries :: "(float64 \<Rightarrow> string) \<Rightarrow> (nat \<Rightarrow> nat) \<Rightarrow> float64 \<Rightarrow> nat \<Rightarrow> nat \<Rightarrow> string list" where
  "batch_entries tostr rnd now i n = map (batch_entry tostr rnd now) [i..<i + n]"

fun add_entries ::
  "'r redis \<Rightarrow> (float64 \<Rightarrow> string) \<Rightarrow> (nat \<Rightarrow> nat) \<Rightarrow> string \<Rightarrow> float64 \<Rightarrow> nat \<Rightarrow> nat \<Rightarrow> 'r \<Rightarrow> 'r" where
  "add_entries rd tostr rnd key now i 0 r = r"
| "add_entries rd tostr rnd key now i (Suc n) r =
     add_entries rd tostr rnd key now (Suc i) n
       (rd_zadd rd key now (batch_entry tostr rnd now i) r)"

definition rateLimitBatchScript ::
  "'r redis \<Rightarrow> (float64 \<Rightarrow> string) \<Rightarrow> (nat \<Rightarrow> nat) \<Rightarrow> string \<Rightarrow> float64 \<Rightarrow> float64 \<Rightarrow> float64 \<Rightarrow> float64 \<Rightarrow>
     'r \<Rightarrow> int \<times> 'r" where
  "rateLimitBatchScript rd tostr rnd key limit window now requested r =
     (let r1 = rd_zremrangebyscore rd key 0 (f64 (now - window)) r;
          cnt = rd_zcard rd key r1;
          remaining = f64 (limit - of_nat cnt)
      in if remaining \<le> 0 then (0, r1)
         else
           (let allowed = min requested remaining;
                r2 = add_entries rd tostr rnd key now 1 (nat \<lfloor>allowed\<rfloor>) r1;
                r3 = rd_expire rd key (key_ttl window) r2
            in (int_of_float64 allowed, r3)))"

definition RateLimiter_Allow ::
  "'r redis \<Rightarrow> (float64 \<Rightarrow> string) \<Rightarrow> nat \<Rightarrow> int \<Rightarrow> time \<Rightarrow> channel \<Rightarrow> 'r \<Rightarrow> bool result \<times> 'r" where
  "RateLimiter_Allow rd tostr rnd limit now ch r =
     (let key = ratelimit_key ch
      in case remote (rd_net rd) (rateLimitScript rd tostr rnd key (float64_of_int limit)
                (float64_of_int windowNs) (float64_of_int now)) r of
           (Inl e, r1) \<Rightarrow> (Inl (Wrap ''rate limit check'' e), r1)
         | (Inr res, r1) \<Rightarrow> (Inr (res = 1), r1))"

definition RateLimiter_AllowN ::
  "'r redis \<Rightarrow> (float64 \<Rightarrow> string) \<Rightarrow> (nat \<Rightarrow> nat) \<Rightarrow> int \<Rightarrow> time \<Rightarrow> channel \<Rightarrow> int \<Rightarrow> 'r \<Rightarrow> int result \<times> 'r" where
  "RateLimiter_AllowN rd tostr rnd limit now ch cnt r =
     (if cnt \<le> 0 then (Inr 0, r)
      else
        (let key = ratelimit_key ch
         in case remote (rd_net rd) (rateLimitBatchScript rd tostr rnd key (float64_of_int limit)
                   (float64_of_int windowNs) (float64_of_int now) (float64_of_int cnt)) r of
              (Inl e, r1) \<Rightarrow> (Inl (Wrap ''rate limit batch check'' e), r1)
            | (Inr res, r1) \<Rightarrow> (Inr res, r1)))"

text \<open>
  A sequence of \<open>AllowN\<close> calls on one channel, by any number of workers (each call is one
  atomic script): the clock, the requested count and the random draws of each, and the
  grants the callers see.
\<close>

type_synonym allow_call = "time \<times> int \<times> (nat \<Rightarrow> nat)"

fun allowN_run ::
  "'r redis \<Rightarrow> (float64 \<Rightarrow> string) \<Rightarrow> int \<Rightarrow> channel \<Rightarrow> allow_call list \<Rightarrow> 'r \<Rightarrow> (time \<times> int) list \<times> 'r" where
  "allowN_run rd tostr limit ch [] r = ([], r)"
| "allowN_run rd tostr limit ch ((now, cnt, rnd) # cs) r =
     (let (x, r1) = RateLimiter_AllowN rd tostr rnd limit now ch cnt r;
          g = (case x of Inl _ \<Rightarrow> 0 | Inr n \<Rightarrow> n);
          (gs, r2) = allowN_run rd tostr limit ch cs r1
      in ((now, g) # gs, r2))"

text \<open>The grants seen whose (rounded) time is after \<open>x\<close>.\<close>

definition granted_after :: "float64 \<Rightarrow> (time \<times> int) list \<Rightarrow> int" where
  "granted_after x gs = (\<Sum>(t, g) \<leftarrow> gs. if x < float64_of_int t then g else 0)"

text \<open>Every entry a call adds is new in the set at that moment.\<close>

definition fresh_call :: "(float64 \<Rightarrow> string) \<Rightarrow> (nat \<Rightarrow> nat) \<Rightarrow> float64 \<Rightarrow> int \<Rightarrow> zset \<Rightarrow> bool" where
  "fresh_call tostr rnd now cnt z =
     (let es = batch_entries tostr rnd now 1 (nat cnt)
      in distinct es \<and> set es \<inter> z_members z = {})"

fun fresh_run :: "'r redis \<Rightarrow> (float64 \<Rightarrow> string) \<Rightarrow> int \<Rightarrow> channel \<Rightarrow> allow_call list \<Rightarrow> 'r \<Rightarrow> bool" where
  "fresh_run rd tostr limit ch [] r = True"
| "fresh_run rd tostr limit ch ((now, cnt, rnd) # cs) r =
     (fresh_call tostr rnd (float64_of_int now) cnt (rd_zset rd r (ratelimit_key ch)) \<and>
      fresh_run rd tostr limit ch cs (snd (RateLimiter_AllowN rd tostr rnd limit now ch cnt r)))"

section \<open>The scripts on the sorted set\<close>

lemma length_batch_entries [simp]: "length (batch_entries tostr rnd now i n) = n"
  by (simp add: batch_entries_def)

lemma batch_entries_Suc:
  "batch_entries tostr rnd now i (Suc n) = batch_entry tostr rnd now i # batch_entries tostr rnd now (Suc i) n"
  by (simp add: batch_entries_def upt_conv_Cons del: upt_Suc)

lemma batch_entries_0 [simp]: "batch_entries tostr rnd now i 0 = []"
  by (simp add: batch_entries_def)

lemma batch_entries_prefix:
  "n \<le> n' \<Longrightarrow> batch_entries tostr rnd now i n' =
     batch_entries tostr rnd now i n @ batch_entries tostr rnd now (i + n) (n' - n)"
  using upt_add_eq_append [of i "i + n" "n' - n"] by (simp add: batch_entries_def)

text \<open>What the batch script does to the set: purge, then add \<open>n\<close> entries.\<close>

definition purge :: "float64 \<Rightarrow> zset \<Rightarrow> zset" where
  "purge now z = z_remrange 0 (f64 (now - float64_of_int windowNs)) z"

definition add_list :: "float64 \<Rightarrow> string list \<Rightarrow> zset \<Rightarrow> zset" where
  "add_list now es z = fold (z_add now) es z"

definition batch_grant :: "int \<Rightarrow> int \<Rightarrow> zset \<Rightarrow> int" where
  "batch_grant limit cnt z = max 0 (min cnt (limit - int (length z)))"

lemma set_add_list: "set (add_list now es z) = {now} \<times> set es \<union> {e \<in> set z. snd e \<notin> set es}"
  unfolding add_list_def by (induction es arbitrary: z) auto

lemma z_members_add_list [simp]: "z_members (add_list now es z) = z_members z \<union> set es"
  unfolding add_list_def by (induction es arbitrary: z) auto

lemma zset_ok_add_list: "zset_ok z \<Longrightarrow> zset_ok (add_list now es z)"
  unfolding add_list_def by (induction es arbitrary: z) (auto simp: zset_ok_ops)

lemma length_add_list_le: "length (add_list now es z) \<le> length z + length es"
  unfolding add_list_def
proof (induction es arbitrary: z)
  case (Cons e es)
  show ?case using Cons.IH [of "z_add now e z"] length_z_add_le [of now e z] by simp
qed simp

text \<open>Counts of entries above a score, the abstraction the window argument needs.\<close>

definition above :: "float64 \<Rightarrow> zset \<Rightarrow> int" where
  "above x z = int (length (filter (\<lambda>e. x < fst e) z))"

lemma length_filter_insort: "length (filter P (insort x xs)) = (if P x then 1 else 0) + length (filter P xs)"
  by (induction xs) auto

lemma above_z_add:
  "m \<notin> z_members z \<Longrightarrow> above x (z_add s m z) = above x z + (if x < s then 1 else 0)"
proof -
  assume "m \<notin> z_members z"
  then have "filter (\<lambda>e. snd e \<noteq> m) z = z" by (auto simp: z_members_def filter_id_conv)
  then show ?thesis by (simp add: above_def z_add_def length_filter_insort)
qed

lemma above_add_list:
  "distinct es \<Longrightarrow> set es \<inter> z_members z = {} \<Longrightarrow>
   above x (add_list now es z) = above x z + (if x < now then int (length es) else 0)"
  unfolding add_list_def
proof (induction es arbitrary: z)
  case (Cons e es)
  then show ?case by (simp add: above_z_add)
qed simp

lemma above_purge: "f64 (now - float64_of_int windowNs) \<le> x \<Longrightarrow> above x (purge now z) = above x z"
  unfolding above_def purge_def z_remrange_def by (rule arg_cong [where f = "\<lambda>l. int (length l)"])
    (auto simp: intro!: filter_cong)

lemma length_purge:
  assumes "\<forall>e \<in> set z. 0 \<le> fst e"
  shows "int (length (purge now z)) = above (f64 (now - float64_of_int windowNs)) z"
proof -
  have "purge now z = filter (\<lambda>e. f64 (now - float64_of_int windowNs) < fst e) z"
    unfolding purge_def z_remrange_def using assms by (intro filter_cong) auto
  then show ?thesis by (simp add: above_def)
qed

lemma f64_of_nat_small: "n \<le> 2 ^ 53 \<Longrightarrow> f64 (of_nat n) = of_nat n"
  using f64_of_small_int [of "int n"] by (simp flip: of_nat_le_iff)

context redis_server
begin

lemma add_entries_zset:
  "rd_zset rd (add_entries rd tostr rnd key now i n r) =
     (rd_zset rd r)(key := add_list now (batch_entries tostr rnd now i n) (rd_zset rd r key))"
proof (induction n arbitrary: i r)
  case 0
  then show ?case by (simp add: add_list_def batch_entries_def)
next
  case (Suc n)
  then show ?case by (simp add: Suc.IH zadd add_list_def fun_eq_iff batch_entries_Suc)
qed

text \<open>
  The batch script as one step on the set, for limits and counts a double holds exactly.
\<close>

lemma batch_script_effect:
  assumes "0 \<le> limit" "limit \<le> 2 ^ 52" "0 < cnt" "cnt \<le> 2 ^ 52"
    and "int (length (rd_zset rd r key)) \<le> 2 ^ 52"
    and script: "rateLimitBatchScript rd tostr rnd key (float64_of_int limit) (float64_of_int windowNs) now
          (float64_of_int cnt) r = (n, r')"
  defines "p \<equiv> purge now (rd_zset rd r key)"
  shows "n = batch_grant limit cnt p"
    and "rd_zset rd r' =
      (rd_zset rd r)(key := add_list now (batch_entries tostr rnd now 1 (nat n)) p)"
proof -
  define r1 where "r1 = rd_zremrangebyscore rd key 0 (f64 (now - float64_of_int windowNs)) r"
  have Z1: "rd_zset rd r1 = (rd_zset rd r)(key := p)"
    by (simp add: r1_def zremrangebyscore p_def purge_def)
  have "length p \<le> length (rd_zset rd r key)" by (simp add: p_def purge_def z_remrange_def)
  then have len: "int (length p) \<le> 2 ^ 52" using assms(5) by linarith
  have fl: "float64_of_int limit = of_int limit" "float64_of_int cnt = of_int cnt"
    using assms(1-4) by (simp_all add: float64_of_int_def f64_of_small_int)
  define rem where "rem = limit - int (length p)"
  have fr: "f64 (of_int limit - of_nat (length p)) = of_int rem"
    using f64_of_small_int [of rem] assms(1,2) len by (simp add: rem_def)
  have mn: "min (of_int cnt) (of_int rem) = (of_int (min cnt rem) :: rat)"
    by (rule of_int_min [symmetric])
  have zc: "rd_zcard rd key r1 = length p" by (simp add: zcard Z1)
  have script': "(n, r') = (if rem \<le> 0 then (0, r1)
      else (min cnt rem, rd_expire rd key (key_ttl (float64_of_int windowNs))
              (add_entries rd tostr rnd key now 1 (nat (min cnt rem)) r1)))"
    using script assms(3) unfolding rateLimitBatchScript_def Let_def r1_def [symmetric] zc fl fr mn
    by (auto simp: int_of_float64_def simp del: of_int_min split: if_splits)
  show n: "n = batch_grant limit cnt p"
    using script' assms(3) by (auto simp: batch_grant_def rem_def split: if_splits)
  show "rd_zset rd r' =
      (rd_zset rd r)(key := add_list now (batch_entries tostr rnd now 1 (nat n)) p)"
    using script' by (auto simp: expire add_entries_zset Z1 fun_eq_iff add_list_def split: if_splits)
qed

end

section \<open>The window\<close>

lemma length_purge_le: "length (purge now z) \<le> length z"
  by (simp add: purge_def z_remrange_def)

lemma length_add_purge:
  assumes "0 \<le> limit" "int (length z) \<le> limit"
    and "int (length es) = batch_grant limit cnt (purge now z)"
  shows "int (length (add_list now es (purge now z))) \<le> limit"
proof -
  let ?n = "batch_grant limit cnt (purge now z)"
  have "int (length (purge now z)) \<le> limit"
    using assms(2) length_purge_le [of now z] by linarith
  moreover have "int (length (purge now z)) + ?n \<le> max limit (int (length (purge now z)))"
    by (simp add: batch_grant_def)
  moreover have "int (length (add_list now es (purge now z))) \<le> int (length (purge now z)) + ?n"
    using length_add_list_le [of now es "purge now z"] assms(3) by linarith
  ultimately show ?thesis by linarith
qed

lemma purge_subset: "set (purge now z) \<subseteq> set z" "z_members (purge now z) \<subseteq> z_members z"
  by (auto simp: purge_def z_remrange_def z_members_def)

text \<open>
  The invariant of a run: the set never holds more than \<open>limit\<close> entries, and above every
  score from the window's lower end at the last call it holds at least as many entries as
  were granted.
\<close>

definition rl_inv :: "int \<Rightarrow> time \<Rightarrow> (time \<times> int) list \<Rightarrow> zset \<Rightarrow> bool" where
  "rl_inv limit t gs z =
     (int (length z) \<le> limit \<and> (\<forall>e \<in> set z. 0 \<le> fst e) \<and>
      (\<forall>x. f64 (float64_of_int t - float64_of_int windowNs) \<le> x \<longrightarrow> granted_after x gs \<le> above x z))"

lemma granted_after_snoc:
  "granted_after x (gs @ [(t, g)]) = granted_after x gs + (if x < float64_of_int t then g else 0)"
  by (simp add: granted_after_def)

lemma window_start_mono: "t \<le> t' \<Longrightarrow>
  f64 (float64_of_int t - float64_of_int windowNs) \<le> f64 (float64_of_int t' - float64_of_int windowNs)"
  by (intro f64_mono diff_right_mono float64_of_int_mono)

lemma rl_inv_skip: "rl_inv limit t gs z \<Longrightarrow> t \<le> t' \<Longrightarrow> rl_inv limit t' (gs @ [(t', 0)]) z"
  using window_start_mono [of t t'] by (fastforce simp: rl_inv_def granted_after_snoc)

lemma rl_inv_step:
  assumes "rl_inv limit t gs z" "t \<le> t'" "0 \<le> t'" "0 \<le> limit"
    and "fresh_call tostr rnd (float64_of_int t') cnt z"
    and "n = batch_grant limit cnt (purge (float64_of_int t') z)" "g = 0 \<or> g = n"
  defines "es \<equiv> batch_entries tostr rnd (float64_of_int t') 1 (nat n)"
  shows "rl_inv limit t' (gs @ [(t', g)]) (add_list (float64_of_int t') es (purge (float64_of_int t') z))"
proof -
  let ?now = "float64_of_int t'"
  have n: "0 \<le> n" "nat n \<le> nat cnt" using assms(6) by (auto simp: batch_grant_def)
  have len: "int (length es) = n" using n by (simp add: es_def)
  have "distinct es \<and> set es \<inter> z_members z = {}"
    using assms(5) batch_entries_prefix [OF n(2), of tostr rnd ?now 1] by (auto simp: fresh_call_def es_def)
  then have es: "distinct es" "set es \<inter> z_members (purge ?now z) = {}"
    using purge_subset(2) [of ?now z] by auto
  have above: "above x (add_list ?now es (purge ?now z)) = above x z + (if x < ?now then n else 0)"
    if "f64 (?now - float64_of_int windowNs) \<le> x" for x
    using above_add_list [OF es, of x ?now] above_purge [OF that] len by simp
  have "0 \<le> ?now" using assms(3) by (simp add: float64_of_int_def f64_nonneg)
  then have "\<forall>e \<in> set (add_list ?now es (purge ?now z)). 0 \<le> fst e"
    using assms(1) purge_subset(1) [of ?now z] by (auto simp: set_add_list rl_inv_def)
  moreover have "int (length (add_list ?now es (purge ?now z))) \<le> limit"
    using length_add_purge [of limit z es] assms(1,4,6) len by (simp add: rl_inv_def)
  moreover have "granted_after x (gs @ [(t', g)]) \<le> above x (add_list ?now es (purge ?now z))"
    if x: "f64 (?now - float64_of_int windowNs) \<le> x" for x
  proof -
    have "granted_after x gs \<le> above x z"
      using assms(1) x window_start_mono [OF assms(2)] by (simp add: rl_inv_def)
    then show ?thesis using assms(7) n(1) by (auto simp: above [OF x] granted_after_snoc)
  qed
  ultimately show ?thesis by (simp add: rl_inv_def)
qed

context redis_server
begin

text \<open>One \<open>AllowN\<close> call: the script runs on the set, or the set stays as it is.\<close>

lemma AllowN_effect:
  assumes "0 \<le> limit" "limit \<le> 2 ^ 52" "cnt \<le> 2 ^ 52"
    and "int (length (rd_zset rd r (ratelimit_key ch))) \<le> 2 ^ 52"
    and call: "RateLimiter_AllowN rd tostr rnd limit now ch cnt r = (x, r')"
  defines "z \<equiv> rd_zset rd r (ratelimit_key ch)" and "z' \<equiv> rd_zset rd r' (ratelimit_key ch)"
    and "g \<equiv> (case x of Inl _ \<Rightarrow> 0 | Inr m \<Rightarrow> m)"
    and "n \<equiv> batch_grant limit cnt (purge (float64_of_int now) (rd_zset rd r (ratelimit_key ch)))"
  shows "g = 0 \<and> z' = z \<or> (g = 0 \<or> g = n) \<and>
    z' = add_list (float64_of_int now) (batch_entries tostr rnd (float64_of_int now) 1 (nat n))
           (purge (float64_of_int now) z)"
    and "x = Inr m \<Longrightarrow> m = n"
proof -
  let ?key = "ratelimit_key ch"
  let ?script = "rateLimitBatchScript rd tostr rnd ?key (float64_of_int limit) (float64_of_int windowNs)
      (float64_of_int now) (float64_of_int cnt)"
  have scr: "m = n \<and> rd_zset rd r2 ?key = add_list (float64_of_int now)
      (batch_entries tostr rnd (float64_of_int now) 1 (nat n)) (purge (float64_of_int now) z)"
    if "?script r1 = (m, r2)" "rd_zset rd r1 = rd_zset rd r" "0 < cnt" for r1 r2 m
    using batch_script_effect [OF assms(1,2) that(3) assms(3) _ that(1)] assms(4) that(2)
    by (simp add: n_def z_def)
  show "g = 0 \<and> z' = z \<or> (g = 0 \<or> g = n) \<and>
    z' = add_list (float64_of_int now) (batch_entries tostr rnd (float64_of_int now) 1 (nat n))
           (purge (float64_of_int now) z)"
  proof (cases "cnt \<le> 0")
    case True
    then show ?thesis using call by (auto simp: RateLimiter_AllowN_def g_def z_def z'_def)
  next
    case False
    obtain y where y: "remote (rd_net rd) ?script r = (y, r')" "g = (case y of Inl _ \<Rightarrow> 0 | Inr m \<Rightarrow> m)"
      using call False by (auto simp: RateLimiter_AllowN_def Let_def g_def split: prod.splits sum.splits)
    from y(1) show ?thesis
      by (cases rule: remote_cases) (use y(2) scr False net_state in \<open>auto simp: z_def z'_def\<close>)
  qed
  show "x = Inr m \<Longrightarrow> m = n"
  proof (cases "cnt \<le> 0")
    case True
    moreover assume "x = Inr m"
    ultimately show ?thesis using call by (simp add: RateLimiter_AllowN_def n_def batch_grant_def)
  next
    case False
    assume "x = Inr m"
    then have "remote (rd_net rd) ?script r = (Inr m, r')"
      using call False by (auto simp: RateLimiter_AllowN_def Let_def split: prod.splits sum.splits)
    then show ?thesis
      by (cases rule: remote_cases) (use scr False net_state in auto)
  qed
qed

end

context redis_server
begin

lemma allowN_run_inv:
  assumes "rl_inv limit t hist (rd_zset rd r (ratelimit_key ch))" "0 \<le> t" "0 \<le> limit" "limit \<le> 2 ^ 52"
    and "sorted (t # map fst cs)" "\<forall>(now, cnt, rnd) \<in> set cs. cnt \<le> 2 ^ 52"
    and "fresh_run rd tostr limit ch cs r"
    and "allowN_run rd tostr limit ch cs r = (gs, r')"
  shows "rl_inv limit (last (t # map fst cs)) (hist @ gs) (rd_zset rd r' (ratelimit_key ch))"
  using assms
proof (induction cs arbitrary: t hist r gs)
  case Nil
  then show ?case by simp
next
  case (Cons c cs)
  obtain now cnt rnd where c: "c = (now, cnt, rnd)" by (cases c)
  obtain x r1 where call: "RateLimiter_AllowN rd tostr rnd limit now ch cnt r = (x, r1)" by fastforce
  define g where "g = (case x of Inl _ \<Rightarrow> 0 | Inr n \<Rightarrow> n)"
  obtain gs' where run: "allowN_run rd tostr limit ch cs r1 = (gs', r')" and gs: "gs = (now, g) # gs'"
    using Cons.prems(8) by (auto simp: c call g_def split: prod.splits)
  have t: "t \<le> now" using Cons.prems(5) by (simp add: c)
  have len: "int (length (rd_zset rd r (ratelimit_key ch))) \<le> 2 ^ 52"
    using Cons.prems(1,4) by (simp add: rl_inv_def)
  have "rl_inv limit now (hist @ [(now, g)]) (rd_zset rd r1 (ratelimit_key ch))"
    using AllowN_effect(1) [OF Cons.prems(3,4) _ len call] Cons.prems(1,2,3,6,7) t
      rl_inv_skip [OF Cons.prems(1) t] rl_inv_step [OF Cons.prems(1) t]
    by (auto simp: c g_def)
  then have "rl_inv limit (last (now # map fst cs)) ((hist @ [(now, g)]) @ gs')
      (rd_zset rd r' (ratelimit_key ch))"
    using Cons.prems t by (intro Cons.IH [OF _ _ _ _ _ _ _ run]) (auto simp: c call)
  then show ?case by (simp add: gs c)
qed

end

text \<open>
  C22. The limit holds in every window. Over any sequence of \<open>AllowN\<close> calls on a channel, by
  any number of workers, with clocks that do not run backwards, network failures included,
  and starting from an empty set: the permits granted in the second before the last call
  (after \<open>now - window\<close>, in the script's double arithmetic) are at most \<open>limit\<close>, provided
  the entries a call writes are not already in the set. The statement holds for every
  prefix of a run, hence at every call.
\<close>

theorem sliding_window_limit:
  assumes "redis_server rd" "rd_zset rd r (ratelimit_key ch) = []"
    and "0 \<le> limit" "limit \<le> 2 ^ 52"
    and "cs \<noteq> []" "sorted (0 # map fst cs)" "\<forall>(now, cnt, rnd) \<in> set cs. cnt \<le> 2 ^ 52"
    and "fresh_run rd tostr limit ch cs r"
    and "allowN_run rd tostr limit ch cs r = (gs, r')"
  shows "granted_after (f64 (float64_of_int (fst (last cs)) - float64_of_int windowNs)) gs \<le> limit"
proof -
  let ?z = "rd_zset rd r' (ratelimit_key ch)" and ?t = "fst (last cs)"
  have "rl_inv limit 0 [] (rd_zset rd r (ratelimit_key ch))"
    using assms(2,3) by (simp add: rl_inv_def granted_after_def above_def)
  from redis_server.allowN_run_inv [OF assms(1) this order_refl assms(3,4,6-9)]
  have inv: "rl_inv limit ?t gs ?z" using assms(5) by (simp add: last_map)
  have "granted_after (f64 (float64_of_int ?t - float64_of_int windowNs)) gs
      \<le> above (f64 (float64_of_int ?t - float64_of_int windowNs)) ?z"
    using inv by (simp add: rl_inv_def)
  also have "\<dots> \<le> int (length ?z)" by (simp add: above_def)
  also have "\<dots> \<le> limit" using inv by (simp add: rl_inv_def)
  finally show ?thesis .
qed

text \<open>Number texts for the examples.\<close>

definition ex_tostr :: "float64 \<Rightarrow> string" where
  "ex_tostr x = (if x = 1 then ''1'' else if x = 2 then ''2'' else if x = 5 then ''5'' else ''7'')"

lemmas limiter_eval = mem_eval RateLimiter_AllowN_def rateLimitBatchScript_def remote_def batch_entry_def
  batch_entries_def fresh_call_def f64_eval windowNs_def z_remrange_def z_add_def int_of_float64_def
  granted_after_def ex_tostr_def z_members_def

theorem sliding_window_limit_witness:
  "granted_after (f64 (float64_of_int 7 - float64_of_int windowNs))
     (fst (allowN_run mem_redis ex_tostr 1 ChannelSMS [(5, 1, \<lambda>_. 1), (7, 1, \<lambda>_. 2)] (mem_init []))) \<le> 1"
proof -
  let ?cs = "[(5, 1, \<lambda>_. 1), (7, 1, \<lambda>_. 2)] :: allow_call list"
  have "fresh_run mem_redis ex_tostr 1 ChannelSMS ?cs (mem_init [])"
    by (simp add: limiter_eval)
  then show ?thesis
    using sliding_window_limit [OF mem.redis_server_axioms, of "mem_init []" ChannelSMS 1 ?cs ex_tostr
        "fst (allowN_run mem_redis ex_tostr 1 ChannelSMS ?cs (mem_init []))"
        "snd (allowN_run mem_redis ex_tostr 1 ChannelSMS ?cs (mem_init []))"]
    by (simp add: mem_eval del: allowN_run.simps fresh_run.simps)
qed

text \<open>
  What a call grants. An \<open>AllowN\<close> that returns without error grants exactly the
  smaller of the requested count and the room left, \<open>limit\<close> minus the entries newer than
  \<open>now - window\<close>, and never a negative number.
\<close>

theorem allowN_grant:
  assumes "redis_server rd" "0 \<le> limit" "limit \<le> 2 ^ 52" "cnt \<le> 2 ^ 52"
    and "int (length (rd_zset rd r (ratelimit_key ch))) \<le> 2 ^ 52"
    and "\<forall>e \<in> set (rd_zset rd r (ratelimit_key ch)). 0 \<le> fst e"
    and "RateLimiter_AllowN rd tostr rnd limit now ch cnt r = (Inr m, r')"
  shows "m = max 0 (min cnt (limit - above (f64 (float64_of_int now - float64_of_int windowNs))
    (rd_zset rd r (ratelimit_key ch))))"
  using redis_server.AllowN_effect(2) [OF assms(1-5,7) refl] length_purge [OF assms(6), of "float64_of_int now"]
  by (simp add: batch_grant_def)

theorem allowN_grant_witness:
  "fst (RateLimiter_AllowN mem_redis ex_tostr (\<lambda>_. 1) 1 5 ChannelSMS 3 (mem_init [])) = Inr 1"
proof -
  obtain m r' where call: "RateLimiter_AllowN mem_redis ex_tostr (\<lambda>_. 1) 1 5 ChannelSMS 3 (mem_init []) = (Inr m, r')"
    by (simp add: limiter_eval)
  from allowN_grant [OF mem.redis_server_axioms _ _ _ _ _ call]
  have "m = 1" by (simp add: mem_eval above_def)
  with call show ?thesis by simp
qed

context redis_server
begin

lemma allowN_run_colliding:
  assumes up: "\<And>r. fst (rd_net rd r) = Delivered"
    and "0 < b" "2 * b \<le> limit" "limit \<le> 2 ^ 52"
    and "\<forall>(now, cnt, rnd) \<in> set cs. cnt = b \<and> batch_entries tostr rnd (float64_of_int now) 1 (nat b) = es"
    and "z_members (rd_zset rd r (ratelimit_key ch)) \<subseteq> set es" "length es = nat b"
  shows "map snd (fst (allowN_run rd tostr limit ch cs r)) = replicate (length cs) b"
  using assms(5,6)
proof (induction cs arbitrary: r)
  case Nil
  then show ?case by simp
next
  case (Cons c cs)
  obtain now rnd where c: "c = (now, b, rnd)" using Cons.prems(1) by (cases c) auto
  have es: "batch_entries tostr rnd (float64_of_int now) 1 (nat b) = es" using Cons.prems(1) c by auto
  let ?z = "rd_zset rd r (ratelimit_key ch)"
  have "card (z_members ?z) = length ?z"
    using zset_ok distinct_card [of "map snd ?z"] by (simp add: z_members_def zset_ok_def)
  moreover have "card (z_members ?z) \<le> length es"
    using Cons.prems(2) by (meson card_length card_mono finite_set order_trans)
  ultimately have len: "int (length ?z) \<le> b" using assms(2,7) by simp
  obtain x r1 where call: "RateLimiter_AllowN rd tostr rnd limit now ch b r = (x, r1)" by fastforce
  have "\<exists>n. x = Inr n"
    using call up [of r] assms(2)
    by (auto simp: RateLimiter_AllowN_def remote_def Let_def split: prod.splits fault.splits)
  then obtain n where x: "x = Inr n" ..
  note bounds = assms(2-4) len
  have n: "n = batch_grant limit b (purge (float64_of_int now) ?z)"
    using AllowN_effect(2) [OF _ _ _ _ call x] bounds by simp
  then have nb: "n = b"
    using length_purge_le [of "float64_of_int now" ?z] bounds by (simp add: batch_grant_def)
  have "z_members (rd_zset rd r1 (ratelimit_key ch)) \<subseteq> set es"
    using AllowN_effect(1) [OF _ _ _ _ call] bounds Cons.prems(2) purge_subset(2) n nb es x by fastforce
  then show ?case
    using Cons.IH [of r1] Cons.prems(1) by (simp add: c call x nb split: prod.splits) (metis fst_conv)
qed

end

text \<open>
  Colliding entries defeat the limiter. If the entries that different calls write have
  the same texts (same clock text, same draws), the set never grows beyond one batch and
  every call is granted in full, however many calls there are: the limit is not enforced.
  A script writes \<open>now .. '-' .. i .. '-' .. math.random(1000000)\<close>; Lua prints \<open>now\<close>
  with 14 significant digits, so calls within 100 microseconds can share its text, and
  Redis starts every script execution with the same random seed.
\<close>

theorem colliding_entries_unlimited:
  assumes "redis_server rd" "\<And>r. fst (rd_net rd r) = Delivered"
    and "rd_zset rd r (ratelimit_key ch) = []"
    and "0 < b" "2 * b \<le> limit" "limit \<le> 2 ^ 52"
    and "\<forall>(now, cnt, rnd) \<in> set cs. cnt = b \<and> batch_entries tostr rnd (float64_of_int now) 1 (nat b) = es"
  shows "map snd (fst (allowN_run rd tostr limit ch cs r)) = replicate (length cs) b"
proof (cases cs)
  case (Cons c cs')
  then have "length es = nat b" using assms(7) by (cases c) auto
  then show ?thesis
    using redis_server.allowN_run_colliding [OF assms(1,2,4-7)] assms(3) by simp
qed simp

theorem colliding_entries_unlimited_witness:
  "map snd (fst (allowN_run mem_up ex_tostr 2 ChannelSMS (replicate 5 (7, 1, \<lambda>_. 1)) (mem_init [])))
     = replicate 5 1"
  using colliding_entries_unlimited [of mem_up "mem_init []" ChannelSMS 1 2 "replicate 5 (7, 1, \<lambda>_. 1)"
      ex_tostr "batch_entries ex_tostr (\<lambda>_. 1) (float64_of_int 7) 1 (nat 1)"]
    mem_up.redis_server_axioms
  by (simp add: mem_up_def mem_eval)

end
