(* ===== verification/Dispatcher.thy ===== *)
theory Dispatcher
  imports Worker Rate_Limiter
begin

text \<open>
  The worker pool and the dispatcher of \<open>internal/worker/pool.go\<close> and
  \<open>internal/worker/dispatcher.go\<close>.

  A pool is its buffered channel of tasks and the states of its goroutines; a task of the
  dispatcher is the batch of messages its closure captures. The dispatch loops, the pool
  goroutines and the shutdown of \<open>RunWorker\<close> run concurrently: \<open>dstep\<close> is a step relation
  with one step per channel operation, per dequeue and per processed batch. Other processes
  (schedulers, other workers, the API) are the step \<open>env\<close>, which may change the world in any
  way that keeps its invariant. Each operation that can panic in a goroutine has a step that
  sets \<open>ds_panicked\<close>; the Go runtime ends the process there, so that the steps after it are more
  than the code can do.
\<close>

section \<open>The pool\<close>

datatype 'a goroutine = Idle | Running 'a | Exited

record 'a pool =
  pool_size :: int
  pool_tasks :: "'a list"
  pool_closed :: bool
  pool_workers :: "'a goroutine list"

text \<open>\<open>make(chan func(), size*2)\<close> panics on a negative size.\<close>

definition NewPool :: "int \<Rightarrow> 'a pool option" where
  "NewPool sz =
     (if sz * 2 < 0 then None
      else Some \<lparr>pool_size = sz, pool_tasks = [], pool_closed = False, pool_workers = []\<rparr>)"

definition Pool_Start :: "'a pool \<Rightarrow> 'a pool" where
  "Pool_Start p = p\<lparr>pool_workers := pool_workers p @ replicate (nat (pool_size p)) Idle\<rparr>"

text \<open>A send on a channel: it goes through, blocks while the buffer is full, or panics when the channel is closed.\<close>

datatype 'a send = Sent 'a | Blocked | Panic

definition Pool_Submit :: "'a \<Rightarrow> 'a pool \<Rightarrow> 'a pool send" where
  "Pool_Submit task p =
     (if pool_closed p then Panic
      else if int (length (pool_tasks p)) < pool_size p * 2 then Sent (p\<lparr>pool_tasks := pool_tasks p @ [task]\<rparr>)
      else Blocked)"

definition Pool_TrySubmit :: "'a \<Rightarrow> 'a pool \<Rightarrow> (bool \<times> 'a pool) option" where
  "Pool_TrySubmit task p =
     (case Pool_Submit task p of
        Sent p' \<Rightarrow> Some (True, p')
      | Blocked \<Rightarrow> Some (False, p)
      | Panic \<Rightarrow> None)"

definition Pool_Pending :: "'a pool \<Rightarrow> int" where
  "Pool_Pending p = int (length (pool_tasks p))"

text \<open>\<open>Stop\<close> closes the channel (closing it twice panics), then waits until all goroutines have exited.\<close>

definition Pool_Stop :: "'a pool \<Rightarrow> 'a pool option" where
  "Pool_Stop p = (if pool_closed p then None else Some (p\<lparr>pool_closed := True\<rparr>))"

definition Pool_stopped :: "'a pool \<Rightarrow> bool" where
  "Pool_stopped p = (pool_closed p \<and> (\<forall>g \<in> set (pool_workers p). g = Exited))"

text \<open>One iteration of goroutine \<open>k\<close>: it takes a task, or exits when the context is done or the channel closed and empty.\<close>

inductive worker_step :: "bool \<Rightarrow> nat \<Rightarrow> 'a pool \<Rightarrow> 'a pool \<Rightarrow> bool" for ctx_done k where
  take_task: "k < length (pool_workers p) \<Longrightarrow> pool_workers p ! k = Idle \<Longrightarrow> pool_tasks p = t # ts \<Longrightarrow>
    worker_step ctx_done k p (p\<lparr>pool_tasks := ts, pool_workers := (pool_workers p)[k := Running t]\<rparr>)"
| worker_exit: "k < length (pool_workers p) \<Longrightarrow> pool_workers p ! k = Idle \<Longrightarrow>
    ctx_done \<or> pool_closed p \<and> pool_tasks p = [] \<Longrightarrow>
    worker_step ctx_done k p (p\<lparr>pool_workers := (pool_workers p)[k := Exited]\<rparr>)"

section \<open>The dispatcher\<close>

record dispatcher =
  dp_pools :: "channel \<rightharpoonup> message list pool"
  dp_pollInterval :: duration
  dp_batchSize :: int

definition NewDispatcher :: "int \<Rightarrow> duration \<Rightarrow> int \<Rightarrow> dispatcher option" where
  "NewDispatcher poolSize pollInterval batchSize =
     (case NewPool poolSize of
        None \<Rightarrow> None
      | Some p \<Rightarrow>
          Some \<lparr>dp_pools = [ChannelSMS \<mapsto> p, ChannelEmail \<mapsto> p, ChannelPush \<mapsto> p],
                dp_pollInterval = pollInterval,
                dp_batchSize = (if batchSize \<le> 0 then 10 else batchSize)\<rparr>)"

definition NewSingleChannelDispatcher :: "channel \<Rightarrow> int \<Rightarrow> duration \<Rightarrow> int \<Rightarrow> dispatcher option" where
  "NewSingleChannelDispatcher ch poolSize pollInterval batchSize =
     (case NewPool poolSize of
        None \<Rightarrow> None
      | Some p \<Rightarrow>
          Some \<lparr>dp_pools = [ch \<mapsto> p], dp_pollInterval = pollInterval, dp_batchSize = (if batchSize \<le> 0 then 10 else batchSize)\<rparr>)"

definition Dispatcher_Channels :: "dispatcher \<Rightarrow> channel set" where
  "Dispatcher_Channels d = dom (dp_pools d)"

text \<open>The settings of the rate limiter and the consumer, and the scripts' number formatting and random draws.\<close>

record dispatch_env =
  de_tostr :: "float64 \<Rightarrow> string"
  de_rnd :: "nat \<Rightarrow> nat \<Rightarrow> nat"
  de_limit :: int
  de_visibilityTimeout :: duration

fun incr_all :: "message list \<Rightarrow> channel \<Rightarrow> metrics \<Rightarrow> metrics option" where
  "incr_all [] ch m = Some m"
| "incr_all (_ # msgs) ch m = (case IncrProcessing ch m of None \<Rightarrow> None | Some m' \<Rightarrow> incr_all msgs ch m')"

text \<open>\<open>dispatch\<close> up to \<open>pool.Submit\<close>: the batch to submit, empty if there is none; \<open>None\<close> is a panic.\<close>

definition Dispatcher_dispatch ::
  "('p, 'r, 'h) services \<Rightarrow> dispatch_env \<Rightarrow> int \<Rightarrow> channel \<Rightarrow> ('p, 'r, 'h) world \<Rightarrow> (message list \<times> ('p, 'r, 'h) world) option" where
  "Dispatcher_dispatch sv de batchSize ch w =
     (case on_redis (RateLimiter_AllowN (sv_rd sv) (de_tostr de) (de_rnd de (w_tick w)) (de_limit de)
              (env_now (sv_env sv) (w_tick w)) ch batchSize) (advance 1 w) of
        (Inl _, w1) \<Rightarrow> Some ([], w1)
      | (Inr allowed, w1) \<Rightarrow>
          if allowed = 0 then Some ([], w1)
          else
           (case on_redis (Consumer_DequeueBatch (sv_rd sv) (sv_js sv) (de_visibilityTimeout de)
                    (env_now (sv_env sv) (w_tick w1)) ch allowed) (advance 1 w1) of
              (Inl _, w2) \<Rightarrow> Some ([], w2)
            | (Inr msgs, w2) \<Rightarrow>
                map_option (\<lambda>m. (msgs, w2\<lparr>w_metrics := m\<rparr>)) (incr_all msgs ch (w_metrics w2))))"

section \<open>The running worker process\<close>

text \<open>Where \<open>dispatchLoop\<close> is: at \<open>time.NewTicker\<close>, at its \<open>select\<close>, polling, inside \<open>pool.Submit\<close>, or returned.\<close>

datatype loop = Starting | Select | Polling | Submitting "message list" | Ended

record ('p, 'r, 'h) dsys =
  ds_world :: "('p, 'r, 'h) world"
  ds_dispatcher :: dispatcher
  ds_loops :: "channel \<rightharpoonup> loop"
  ds_done :: bool
  ds_panicked :: bool

definition Dispatcher_Start :: "dispatcher \<Rightarrow> ('p, 'r, 'h) world \<Rightarrow> ('p, 'r, 'h) dsys" where
  "Dispatcher_Start d w =
     \<lparr>ds_world = w, ds_dispatcher = d\<lparr>dp_pools := map_option Pool_Start \<circ> dp_pools d\<rparr>,
      ds_loops = map_option (\<lambda>_. Starting) \<circ> dp_pools d, ds_done = False, ds_panicked = False\<rparr>"

definition set_pool :: "channel \<Rightarrow> message list pool \<Rightarrow> ('p, 'r, 'h) dsys \<Rightarrow> ('p, 'r, 'h) dsys" where
  "set_pool ch p s = s\<lparr>ds_dispatcher := (ds_dispatcher s)\<lparr>dp_pools := (dp_pools (ds_dispatcher s))(ch \<mapsto> p)\<rparr>\<rparr>"

definition set_loop :: "channel \<Rightarrow> loop \<Rightarrow> ('p, 'r, 'h) dsys \<Rightarrow> ('p, 'r, 'h) dsys" where
  "set_loop ch l s = s\<lparr>ds_loops := (ds_loops s)(ch \<mapsto> l)\<rparr>"

abbreviation pool_of :: "('p, 'r, 'h) dsys \<Rightarrow> channel \<Rightarrow> message list pool option" where
  "pool_of s \<equiv> dp_pools (ds_dispatcher s)"

text \<open>After a submitted batch: a full one is followed by another poll, unless the context is done.\<close>

definition after_submit :: "('p, 'r, 'h) dsys \<Rightarrow> message list \<Rightarrow> loop" where
  "after_submit s msgs =
     (if int (length msgs) < dp_batchSize (ds_dispatcher s) then Select else if ds_done s then Ended else Polling)"

text \<open>Members of the ready sets decode to valid messages; producers put nothing else there.\<close>

definition clean :: "('p, 'r, 'h) services \<Rightarrow> 'r \<Rightarrow> bool" where
  "clean sv r =
     (\<forall>c. \<forall>d \<in> z_members (rd_zset (sv_rd sv) r (queuePrefix @ c)). \<exists>m. unmarshal (sv_js sv) d = Inr m \<and> valid_message m)"

inductive dstep :: "('p, 'r, 'h) services \<Rightarrow> dispatch_env \<Rightarrow> ('p, 'r, 'h) dsys \<Rightarrow> ('p, 'r, 'h) dsys \<Rightarrow> bool"
  for sv de where
  ticker: "ds_loops s ch = Some Starting \<Longrightarrow> 0 < dp_pollInterval (ds_dispatcher s) \<Longrightarrow> dstep sv de s (set_loop ch Select s)"
| tick: "ds_loops s ch = Some Select \<Longrightarrow> dstep sv de s (set_loop ch Polling s)"
| loop_end: "ds_loops s ch = Some Select \<Longrightarrow> ds_done s \<Longrightarrow> dstep sv de s (set_loop ch Ended s)"
| dispatch: "ds_loops s ch = Some Polling \<Longrightarrow>
    Dispatcher_dispatch sv de (dp_batchSize (ds_dispatcher s)) ch (ds_world s) = Some (msgs, w) \<Longrightarrow>
    dstep sv de s (set_loop ch (if msgs = [] then Select else Submitting msgs) (s\<lparr>ds_world := w\<rparr>))"
| submit: "ds_loops s ch = Some (Submitting msgs) \<Longrightarrow> pool_of s ch = Some p \<Longrightarrow> Pool_Submit msgs p = Sent p' \<Longrightarrow>
    dstep sv de s (set_loop ch (after_submit s msgs) (set_pool ch p' s))"
| goroutine: "pool_of s ch = Some p \<Longrightarrow> worker_step (ds_done s) k p p' \<Longrightarrow> dstep sv de s (set_pool ch p' s)"
| run_task: "pool_of s ch = Some p \<Longrightarrow> k < length (pool_workers p) \<Longrightarrow> pool_workers p ! k = Running msgs \<Longrightarrow>
    Processor_ProcessBatch (worker_processor sv) msgs (ds_world s) = Some w \<Longrightarrow>
    dstep sv de s (set_pool ch (p\<lparr>pool_workers := (pool_workers p)[k := Idle]\<rparr>) (s\<lparr>ds_world := w\<rparr>))"
| cancel: "dstep sv de s (s\<lparr>ds_done := True\<rparr>)"
| stop: "ds_done s \<Longrightarrow> pool_of s ch = Some p \<Longrightarrow> Pool_Stop p = Some p' \<Longrightarrow> dstep sv de s (set_pool ch p' s)"
| ticker_panic: "ds_loops s ch = Some Starting \<Longrightarrow> dp_pollInterval (ds_dispatcher s) \<le> 0 \<Longrightarrow> dstep sv de s (s\<lparr>ds_panicked := True\<rparr>)"
| dispatch_panic: "ds_loops s ch = Some Polling \<Longrightarrow>
    Dispatcher_dispatch sv de (dp_batchSize (ds_dispatcher s)) ch (ds_world s) = None \<Longrightarrow> dstep sv de s (s\<lparr>ds_panicked := True\<rparr>)"
| submit_panic: "ds_loops s ch = Some (Submitting msgs) \<Longrightarrow> pool_of s ch = Some p \<Longrightarrow> Pool_Submit msgs p = Panic \<Longrightarrow>
    dstep sv de s (s\<lparr>ds_panicked := True\<rparr>)"
| task_panic: "pool_of s ch = Some p \<Longrightarrow> k < length (pool_workers p) \<Longrightarrow> pool_workers p ! k = Running msgs \<Longrightarrow>
    Processor_ProcessBatch (worker_processor sv) msgs (ds_world s) = None \<Longrightarrow> dstep sv de s (s\<lparr>ds_panicked := True\<rparr>)"
| env: "world_inv (sv_pg sv) w \<Longrightarrow> clean sv (w_redis w) \<Longrightarrow> dstep sv de s (s\<lparr>ds_world := w\<rparr>)"

section \<open>The invariant of the worker process\<close>

definition pool_ok :: "message list pool \<Rightarrow> bool" where
  "pool_ok p =
     ((\<forall>msgs \<in> set (pool_tasks p). \<forall>m \<in> set msgs. valid_message m) \<and>
      (\<forall>msgs. Running msgs \<in> set (pool_workers p) \<longrightarrow> (\<forall>m \<in> set msgs. valid_message m)))"

definition dsys_inv :: "('p, 'r, 'h) services \<Rightarrow> ('p, 'r, 'h) dsys \<Rightarrow> bool" where
  "dsys_inv sv s =
     (world_inv (sv_pg sv) (ds_world s) \<and> clean sv (w_redis (ds_world s)) \<and>
      (\<forall>ch p. pool_of s ch = Some p \<longrightarrow> pool_ok p \<and> (pool_closed p \<longrightarrow> ds_done s)) \<and>
      (ds_panicked s \<longrightarrow> ds_done s \<or> dp_pollInterval (ds_dispatcher s) \<le> 0) \<and> (\<forall>ch l. ds_loops s ch = Some l \<longrightarrow> Channel_Valid ch) \<and>
      (\<forall>ch msgs. ds_loops s ch = Some (Submitting msgs) \<longrightarrow> (\<forall>m \<in> set msgs. valid_message m)))"

lemma running_update: "Running t \<in> set (xs[k := g]) \<Longrightarrow> Running t = g \<or> Running t \<in> set xs"
  by (metis insertE set_update_subset_insert subsetD)

lemma pool_ok_update:
  assumes "pool_ok p" "set ts \<subseteq> set (pool_tasks p)"
    and "\<And>t m. g = Running t \<Longrightarrow> m \<in> set t \<Longrightarrow> valid_message m"
  shows "pool_ok (p\<lparr>pool_tasks := ts, pool_workers := (pool_workers p)[k := g]\<rparr>)"
proof -
  have "\<forall>m \<in> set msgs. valid_message m" if "Running msgs \<in> set ((pool_workers p)[k := g])" for msgs
    using running_update [OF that] assms(1,3) by (auto simp: pool_ok_def)
  then show ?thesis using assms(1,2) by (auto simp: pool_ok_def)
qed

lemma worker_step_ok: "worker_step d k p p' \<Longrightarrow> pool_ok p \<Longrightarrow> pool_ok p'"
proof (induction rule: worker_step.induct)
  case (take_task p t ts)
  then have "\<forall>m \<in> set t. valid_message m" by (simp add: pool_ok_def)
  then have "pool_ok (p\<lparr>pool_tasks := ts, pool_workers := (pool_workers p)[k := Running t]\<rparr>)"
    using take_task(3) by (intro pool_ok_update [OF take_task(4)]) auto
  then show ?case .
next
  case (worker_exit p)
  then show ?case using pool_ok_update [of p "pool_tasks p" Exited k] by simp
qed

lemma worker_step_closed: "worker_step d k p p' \<Longrightarrow> pool_closed p' = pool_closed p"
  by (induction rule: worker_step.induct) simp_all

lemma Submit_open: "Pool_Submit msgs p = Sent p' \<Longrightarrow> \<not> pool_closed p'"
  by (auto simp: Pool_Submit_def split: if_splits)

lemma Submit_ok: "Pool_Submit msgs p = Sent p' \<Longrightarrow> pool_ok p \<Longrightarrow> \<forall>m \<in> set msgs. valid_message m \<Longrightarrow> pool_ok p'"
  by (auto simp: Pool_Submit_def pool_ok_def split: if_splits)

lemma incr_all_ok: "metrics_ok m \<Longrightarrow> Channel_Valid ch \<Longrightarrow> \<exists>m'. incr_all msgs ch m = Some m' \<and> metrics_ok m'"
proof (induction msgs arbitrary: m)
  case (Cons x msgs)
  obtain m1 where "IncrProcessing ch m = Some m1" "metrics_ok m1"
    unfolding IncrProcessing_def using incr_ok [OF Cons.prems] by blast
  then show ?case using Cons.IH [of m1] Cons.prems(2) by simp
qed simp

section \<open>What the operations leave of the ready sets\<close>

context worker
begin

text \<open>The processor writes to the retry set and the processing sets only.\<close>

definition ready_kept :: "('p, 'r, 'h) world \<Rightarrow> ('p, 'r, 'h) world \<Rightarrow> bool" where
  "ready_kept w w' = (\<forall>c. rd_zset (sv_rd sv) (w_redis w') (queuePrefix @ c) = rd_zset (sv_rd sv) (w_redis w) (queuePrefix @ c))"

lemma ready_kept_trans: "ready_kept w w1 \<Longrightarrow> ready_kept w1 w2 \<Longrightarrow> ready_kept w w2"
  by (simp add: ready_kept_def)

lemma ready_kept_same: "w_redis w' = w_redis w \<Longrightarrow> ready_kept w w'"
  by (simp add: ready_kept_def)

lemma delayed_ready_kept: "p_EnqueueDelayed (worker_processor sv) msg d w = (e, w') \<Longrightarrow> ready_kept w w'"
  using zadd_effect(2)
  by (auto simp: worker_ops on_redis_eq Producer_EnqueueDelayed_def ready_kept_def Let_def split: sum.splits)
    (metis fun_upd_other queue_keys(5))

lemma ack_ready_kept: "ready_kept w (Processor_ack (worker_processor sv) msgs w)"
proof -
  have "ready_kept w w'" if ack: "Consumer_Ack (sv_rd sv) (sv_js sv) ch msgs (w_redis w) = (e, r)" "w' = w\<lparr>w_redis := r\<rparr>" for ch e r w'
    using ack(1) by (cases rule: Ack_effect) (auto simp: ready_kept_def ack(2))
  then show ?thesis
    by (auto simp: Processor_ack_def worker_ops on_redis_def ready_kept_same split: list.splits prod.splits)
qed

lemma handleFailure_ready_kept:
  assumes "Processor_handleFailure (worker_processor sv) n msg e w = Some w'"
  shows "ready_kept w w'"
proof -
  let ?p = "worker_processor sv"
  have same: "ready_kept u u'" if "on_db f u = (x, u')" for f :: "'p pgdb \<Rightarrow> err option \<times> 'p pgdb" and u x u'
    using that by (auto simp: on_db_eq intro: ready_kept_same)
  have handle: "ready_kept u u'" if "p_Handle ?p i em a u = (x, u')" for i em a u x u'
    using that by (auto simp: worker_processor_def on_db_eq intro: ready_kept_same)
  have bc: "ready_kept u (p_Broadcast ?p ev u')" if "ready_kept u u'" for ev u u'
    using that by (auto simp: worker_processor_def ready_kept_def)
  have incr: "ready_kept u u'" if "p_IncrFailed ?p ch u = Some u'" for ch u u'
    using that by (auto simp: worker_ops intro: ready_kept_same)
  have delay: "ready_kept u u'" if "p_NextDelay ?p a u = (d, u')" for a u d u'
    using that by (auto simp: worker_ops intro: ready_kept_same)
  show ?thesis
    using assms unfolding Processor_handleFailure_def Let_def
    by (auto split: option.splits if_splits prod.splits
        dest!: incr same handle delay delayed_ready_kept
        intro!: bc intro: ready_kept_trans ready_kept_trans [OF _ ack_ready_kept])
qed

lemma send_ready_kept: "worker_send sv n w = (x, w') \<Longrightarrow> ready_kept w w'"
  by (auto simp: ready_kept_def elim!: worker_send_eq)

lemma incr_sent_ready_kept: "p_IncrSent (worker_processor sv) ch w = Some w' \<Longrightarrow> ready_kept w w'"
  by (auto simp: worker_ops intro: ready_kept_same)

lemma send_loop_ready_kept: "send_loop (worker_processor sv) msgs ns w = Some (sent, w') \<Longrightarrow> ready_kept w w'"
proof (induction ns arbitrary: w sent)
  case Nil
  then show ?case by (simp add: ready_kept_same)
next
  case (Cons n ns)
  obtain x w1 where send: "worker_send sv n w = (x, w1)" by fastforce
  have 1: "ready_kept w w1" by (rule send_ready_kept [OF send])
  show ?case
  proof (cases x)
    case (Inl e)
    then obtain w2 where w2: "Processor_handleFailure (worker_processor sv) n (msgMap msgs (n_ID n)) e w1 = Some w2"
      "send_loop (worker_processor sv) msgs ns w2 = Some (sent, w')"
      using Cons.prems send by (auto split: option.splits)
    then show ?thesis using 1 handleFailure_ready_kept Cons.IH ready_kept_trans by blast
  next
    case (Inr pid)
    then obtain w2 sent' where w2: "p_IncrSent (worker_processor sv) (n_Channel n) w1 = Some w2"
      "send_loop (worker_processor sv) msgs ns w2 = Some (sent', w')"
      using Cons.prems send by (auto split: option.splits prod.splits)
    then show ?thesis using 1 incr_sent_ready_kept Cons.IH ready_kept_trans by blast
  qed
qed

lemma ProcessBatch_ready_kept:
  assumes "Processor_ProcessBatch (worker_processor sv) msgs w = Some w'"
  shows "ready_kept w w'"
proof -
  let ?p = "worker_processor sv"
  obtain x w1 where claim: "repo_GetAndMarkProcessingBatch (p_repo ?p) (map m_NotificationID msgs) w = (x, w1)" by fastforce
  have 1: "ready_kept w w1" using claim by (auto simp: on_db_eq intro: ready_kept_same)
  show ?thesis
  proof (cases "msgs \<noteq> [] \<and> (\<exists>ns. x = Inr ns \<and> ns \<noteq> [])")
    case True
    then obtain ns where ns: "x = Inr ns" "ns \<noteq> []" "msgs \<noteq> []" by blast
    then obtain sent w2 where w2: "send_loop ?p msgs ns w1 = Some (sent, w2)"
      using assms claim by (auto simp: Processor_ProcessBatch_def split: option.splits)
    let ?w3 = "if sent \<noteq> [] then snd (repo_UpdateBatchSent (p_repo ?p) (map fst sent) (map (fst \<circ> snd) sent) w2) else w2"
    have w': "w' = (if sent \<noteq> [] then p_BroadcastBatch ?p (map (snd \<circ> snd) sent) (Processor_ack ?p msgs ?w3) else Processor_ack ?p msgs ?w3)"
      using assms claim ns w2 by (auto simp: Processor_ProcessBatch_def Let_def)
    have "w_redis ?w3 = w_redis w2" by (simp add: on_db_def split: prod.splits)
    then have "ready_kept w ?w3" using 1 send_loop_ready_kept [OF w2] ready_kept_same ready_kept_trans by blast
    then have "ready_kept w (Processor_ack ?p msgs ?w3)" by (rule ready_kept_trans [OF _ ack_ready_kept])
    moreover have "w_redis (p_BroadcastBatch ?p evs u) = w_redis u" for evs u by (simp add: worker_processor_def)
    ultimately show ?thesis unfolding w' ready_kept_def by (cases "sent = []") simp_all
  next
    case False
    then have "w' = w \<or> w' = w1" using assms claim by (auto simp: Processor_ProcessBatch_def split: sum.splits if_splits)
    then show ?thesis using 1 ready_kept_same by blast
  qed
qed

lemma clean_kept: "ready_kept w w' \<Longrightarrow> clean sv (w_redis w) \<Longrightarrow> clean sv (w_redis w')"
  by (simp add: ready_kept_def clean_def)

text \<open>The rate limiter works on keys of its own.\<close>

lemma limiter_key [simp]: "ratelimit_key c \<noteq> queuePrefix @ c'"
  by (simp add: ratelimit_key_def queuePrefix_def)

lemma add_entries_other:
  "k \<noteq> key \<Longrightarrow> rd_zset (sv_rd sv) (add_entries (sv_rd sv) tostr rnd key t i n r) k = rd_zset (sv_rd sv) r k"
  by (induction n arbitrary: i r) (simp_all add: zadd)

lemma AllowN_other:
  assumes "RateLimiter_AllowN (sv_rd sv) tostr rnd limit now ch cnt r = (x, r')" "k \<noteq> ratelimit_key ch"
  shows "rd_zset (sv_rd sv) r' k = rd_zset (sv_rd sv) r k"
proof -
  have script: "rd_zset (sv_rd sv) (snd (rateLimitBatchScript (sv_rd sv) tostr rnd (ratelimit_key ch) l wn t q r0)) k = rd_zset (sv_rd sv) r0 k"
    for l wn t q r0
    using assms(2) by (simp add: rateLimitBatchScript_def Let_def add_entries_other zremrangebyscore expire)
  show ?thesis
  proof (cases "cnt \<le> 0")
    case True
    then show ?thesis using assms(1) by (simp add: RateLimiter_AllowN_def)
  next
    case False
    then obtain y where "remote (rd_net (sv_rd sv)) (rateLimitBatchScript (sv_rd sv) tostr rnd (ratelimit_key ch) (float64_of_int limit)
        (float64_of_int windowNs) (float64_of_int now) (float64_of_int cnt)) r = (y, r')"
      using assms(1) by (auto simp: RateLimiter_AllowN_def Let_def split: prod.splits sum.splits)
    then show ?thesis
      by (cases rule: remote_cases) (metis net_state script snd_conv)+
  qed
qed

text \<open>Dequeuing takes from the ready set of the channel, and returns valid messages.\<close>

lemma popmin_subset:
  assumes "remote (rd_net (sv_rd sv)) (rd_zpopmin (sv_rd sv) k n) r = (x, r')"
  shows "z_members (rd_zset (sv_rd sv) r' k') \<subseteq> z_members (rd_zset (sv_rd sv) r k')"
proof -
  have "rd_zset (sv_rd sv) r' = rd_zset (sv_rd sv) r \<or>
      rd_zset (sv_rd sv) r' = (rd_zset (sv_rd sv) r)(k := drop n (rd_zset (sv_rd sv) r k))"
    using assms by (cases rule: remote_cases) (metis net_state snd_conv zpopmin_state)+
  moreover have "z_members (drop n z) \<subseteq> z_members z" for z using z_members_take_drop [of z n] by blast
  ultimately show ?thesis by (metis fun_upd_apply order_refl)
qed

lemma DequeueBatch_clean:
  assumes "Consumer_DequeueBatch (sv_rd sv) (sv_js sv) vt now ch cnt r = (x, r')" "clean sv r"
  shows "clean sv r'" "x = Inr ms \<Longrightarrow> m \<in> set ms \<Longrightarrow> valid_message m"
proof -
  obtain y r1 where pop: "remote (rd_net (sv_rd sv)) (rd_zpopmin (sv_rd sv) (queuePrefix @ ch) (nat cnt)) r = (y, r1)" by fastforce
  have r': "r' = r1 \<or> (\<exists>t (zs :: zset) e. rd_pipeline (sv_rd sv) (map (\<lambda>z. rd_zadd (sv_rd sv) (processingPrefix @ ch) t (snd z)) zs) r1 = (e, r'))"
    using assms(1) pop by (auto simp: Consumer_DequeueBatch_def Let_def split: sum.splits if_splits prod.splits option.splits)
  have "z_members (rd_zset (sv_rd sv) r' (queuePrefix @ c)) \<subseteq> z_members (rd_zset (sv_rd sv) r (queuePrefix @ c))" for c
    using r'
  proof
    assume "\<exists>t (zs :: zset) e. rd_pipeline (sv_rd sv) (map (\<lambda>z. rd_zadd (sv_rd sv) (processingPrefix @ ch) t (snd z)) zs) r1 = (e, r')"
    then have "rd_zset (sv_rd sv) r' (queuePrefix @ c) = rd_zset (sv_rd sv) r1 (queuePrefix @ c)"
      using pipeline_other queue_keys(3) by blast
    then show ?thesis using popmin_subset [OF pop] by simp
  qed (use popmin_subset [OF pop] in simp)
  then show "clean sv r'" using assms(2) unfolding clean_def by blast
  show "valid_message m" if x: "x = Inr ms" and m: "m \<in> set ms"
  proof -
    let ?popped = "take (nat cnt) (rd_zset (sv_rd sv) r (queuePrefix @ ch))"
    have "map (unmarshal (sv_js sv)) (map snd ?popped) = map Inr ms" by (rule DequeueBatch_effect(1) [OF assms(1) [unfolded x]])
    then have "set (map (unmarshal (sv_js sv)) (map snd ?popped)) = set (map Inr ms)" by (rule arg_cong)
    then have "Inr m \<in> (\<lambda>e. unmarshal (sv_js sv) (snd e)) ` set ?popped" using m by (simp add: image_image)
    then obtain e where e: "e \<in> set ?popped" "unmarshal (sv_js sv) (snd e) = Inr m" by (rule imageE) simp
    have "e \<in> set (rd_zset (sv_rd sv) r (queuePrefix @ ch))" using e(1) by (rule in_set_takeD)
    then have "snd e \<in> z_members (rd_zset (sv_rd sv) r (queuePrefix @ ch))" unfolding z_members_def by (rule imageI)
    then obtain m' where "unmarshal (sv_js sv) (snd e) = Inr m'" "valid_message m'" using assms(2) unfolding clean_def by blast
    then show ?thesis using e(2) by simp
  qed
qed

lemma dispatch_outcome:
  assumes inv: "world_inv (sv_pg sv) w" and cl: "clean sv (w_redis w)" and ch: "Channel_Valid ch"
  shows "\<exists>msgs w'. Dispatcher_dispatch sv de bs ch w = Some (msgs, w') \<and> world_inv (sv_pg sv) w' \<and> clean sv (w_redis w') \<and>
    (\<forall>m \<in> set msgs. valid_message m) \<and> w_db w' = w_db w \<and> w_http w' = w_http w"
proof -
  obtain x r1 where a: "RateLimiter_AllowN (sv_rd sv) (de_tostr de) (de_rnd de (w_tick w)) (de_limit de)
      (env_now (sv_env sv) (w_tick w)) ch bs (w_redis w) = (x, r1)" by fastforce
  let ?w1 = "(advance 1 w)\<lparr>w_redis := r1\<rparr>"
  have cl1: "clean sv r1" using cl AllowN_other [OF a] by (simp add: clean_def limiter_key [symmetric])
  have inv1: "world_inv (sv_pg sv) ?w1" using inv by (simp add: world_inv_def)
  show ?thesis
  proof (cases "\<exists>k. x = Inr k \<and> k \<noteq> 0")
    case True
    then obtain k where k: "x = Inr k" "k \<noteq> 0" by blast
    obtain y r2 where d: "Consumer_DequeueBatch (sv_rd sv) (sv_js sv) (de_visibilityTimeout de) (env_now (sv_env sv) (w_tick ?w1)) ch k r1 = (y, r2)"
      by fastforce
    note c = DequeueBatch_clean [OF d cl1]
    show ?thesis
    proof (cases y)
      case (Inl e)
      then show ?thesis using a d k c(1) inv by (simp add: Dispatcher_dispatch_def on_redis_def world_inv_def)
    next
      case (Inr msgs)
      obtain m' where m': "incr_all msgs ch (w_metrics w) = Some m'" "metrics_ok m'"
        using incr_all_ok [OF _ ch] inv by (auto simp: world_inv_def)
      show ?thesis
        using a d k c Inr m' inv by (simp add: Dispatcher_dispatch_def on_redis_def world_inv_def)
    qed
  next
    case False
    then have "Dispatcher_dispatch sv de bs ch w = Some ([], ?w1)"
      using a by (auto simp: Dispatcher_dispatch_def on_redis_def split: sum.splits)
    then show ?thesis using cl1 inv1 by simp
  qed
qed

lemma dsys_inv_worldI:
  assumes "dsys_inv sv s" "world_inv (sv_pg sv) w" "clean sv (w_redis w)"
  shows "dsys_inv sv (s\<lparr>ds_world := w\<rparr>)"
  using assms by (simp add: dsys_inv_def)

lemma dsys_inv_poolI:
  "dsys_inv sv s \<Longrightarrow> pool_ok p \<Longrightarrow> (pool_closed p \<Longrightarrow> ds_done s) \<Longrightarrow> dsys_inv sv (set_pool ch p s)"
  by (auto simp: dsys_inv_def set_pool_def)

text \<open>What a goroutine runs is valid, and running it returns.\<close>

lemma running_returns:
  assumes "dsys_inv sv s" "pool_of s ch = Some p" "Running msgs \<in> set (pool_workers p)"
  shows "\<exists>w. Processor_ProcessBatch (worker_processor sv) msgs (ds_world s) = Some w"
proof -
  have "\<forall>m \<in> set msgs. valid_message m" using assms by (auto simp: dsys_inv_def pool_ok_def)
  then show ?thesis using batch_outcome [of "ds_world s" msgs] assms(1) by (auto simp: dsys_inv_def)
qed

lemma polling_returns:
  assumes "dsys_inv sv s" "ds_loops s ch = Some l"
  shows "\<exists>msgs w. Dispatcher_dispatch sv de bs ch (ds_world s) = Some (msgs, w)"
  using assms dispatch_outcome [of "ds_world s" ch] unfolding dsys_inv_def by metis

lemma dsys_inv_loopI:
  assumes "dsys_inv sv s" "ds_loops s ch = Some l0" "\<And>msgs m. l = Submitting msgs \<Longrightarrow> m \<in> set msgs \<Longrightarrow> valid_message m"
  shows "dsys_inv sv (set_loop ch l s)"
  using assms by (simp add: dsys_inv_def set_loop_def)

lemma dstep_inv: "dstep sv de s s' \<Longrightarrow> dsys_inv sv s \<Longrightarrow> dsys_inv sv s'"
proof (induction rule: dstep.induct)
  case (ticker s ch)
  then show ?case by (intro dsys_inv_loopI) auto
next
  case (tick s ch)
  then show ?case by (intro dsys_inv_loopI) auto
next
  case (loop_end s ch)
  then show ?case by (intro dsys_inv_loopI) auto
next
  case (dispatch s ch msgs w)
  have "Channel_Valid ch" using dispatch(1,3) by (simp add: dsys_inv_def)
  then have w: "world_inv (sv_pg sv) w" "clean sv (w_redis w)" "\<forall>m \<in> set msgs. valid_message m"
    using dispatch_outcome [of "ds_world s" ch de "dp_batchSize (ds_dispatcher s)"] dispatch(2,3) by (auto simp: dsys_inv_def)
  show ?case
    by (rule dsys_inv_loopI [OF dsys_inv_worldI [OF dispatch(3) w(1,2)]]) (use dispatch(1) w(3) in \<open>auto split: if_splits\<close>)
next
  case (submit s ch msgs p p')
  have "pool_ok p'" using Submit_ok [OF submit(3)] submit(1,2,4) by (auto simp: dsys_inv_def)
  then have "dsys_inv sv (set_pool ch p' s)" using Submit_open [OF submit(3)] by (intro dsys_inv_poolI [OF submit(4)]) simp_all
  then show ?case
    by (rule dsys_inv_loopI) (use submit(1) in \<open>auto simp: set_pool_def after_submit_def split: if_splits\<close>)
next
  case (goroutine s ch p k p')
  have p: "pool_ok p" "pool_closed p \<Longrightarrow> ds_done s" using goroutine(1,3) by (simp_all add: dsys_inv_def)
  show ?case
    using worker_step_ok [OF goroutine(2) p(1)] p(2) worker_step_closed [OF goroutine(2)]
    by (intro dsys_inv_poolI [OF goroutine(3)]) simp_all
next
  case (run_task s ch p k msgs w)
  have p: "pool_ok p" "pool_closed p \<Longrightarrow> ds_done s" using run_task(1,5) by (simp_all add: dsys_inv_def)
  have "Running msgs \<in> set (pool_workers p)" using run_task(2,3) by (metis nth_mem)
  then have "\<forall>m \<in> set msgs. valid_message m" using p by (simp add: pool_ok_def)
  then have "world_inv (sv_pg sv) w"
    using batch_outcome [of "ds_world s" msgs] run_task(4,5) by (auto simp: dsys_inv_def)
  moreover have "clean sv (w_redis w)"
    using clean_kept [OF ProcessBatch_ready_kept [OF run_task(4)]] run_task(5) by (simp add: dsys_inv_def)
  ultimately have "dsys_inv sv (s\<lparr>ds_world := w\<rparr>)" by (rule dsys_inv_worldI [OF run_task(5)])
  moreover have "pool_ok (p\<lparr>pool_workers := (pool_workers p)[k := Idle]\<rparr>)"
    using pool_ok_update [OF p(1), of "pool_tasks p" Idle k] by simp
  ultimately show ?case using p(2) by (intro dsys_inv_poolI) simp_all
next
  case (cancel s)
  then show ?case by (simp add: dsys_inv_def)
next
  case (stop s ch p p')
  then have "pool_ok p'" by (auto simp: Pool_Stop_def dsys_inv_def pool_ok_def split: if_splits)
  then show ?case using stop(1) by (intro dsys_inv_poolI [OF stop(4)])
next
  case (dispatch_panic s ch)
  then show ?case using polling_returns [OF dispatch_panic(3,1), of de "dp_batchSize (ds_dispatcher s)"] by simp
next
  case (submit_panic s ch msgs p)
  have "pool_closed p" using submit_panic(3) by (simp add: Pool_Submit_def split: if_splits)
  then show ?case using submit_panic(2,4) by (auto simp: dsys_inv_def)
next
  case (task_panic s ch p k msgs)
  have "Running msgs \<in> set (pool_workers p)" using task_panic(2,3) by (metis nth_mem)
  from running_returns [OF task_panic(5,1) this] show ?case using task_panic(4) by simp
next
  case (ticker_panic s ch)
  then show ?case by (simp add: dsys_inv_def)
next
  case (env w s)
  then show ?case by (intro dsys_inv_worldI)
qed

text \<open>The settings of the dispatcher do not change.\<close>

lemma dstep_interval: "dstep sv de s s' \<Longrightarrow> dp_pollInterval (ds_dispatcher s') = dp_pollInterval (ds_dispatcher s)"
  by (induction rule: dstep.induct) (simp_all add: set_loop_def set_pool_def)

lemma dsteps_interval: "(dstep sv de)\<^sup>*\<^sup>* s s' \<Longrightarrow> dp_pollInterval (ds_dispatcher s') = dp_pollInterval (ds_dispatcher s)"
  by (induction rule: rtranclp_induct) (simp_all add: dstep_interval)

lemma dsteps_inv: "(dstep sv de)\<^sup>*\<^sup>* s s' \<Longrightarrow> dsys_inv sv s \<Longrightarrow> dsys_inv sv s'"
  by (induction rule: rtranclp_induct) (auto intro: dstep_inv)

lemma dsys_inv_start:
  assumes "NewSingleChannelDispatcher ch poolSize pollInterval batchSize = Some d" "Channel_Valid ch"
    and "world_inv (sv_pg sv) w" "clean sv (w_redis w)"
  shows "dsys_inv sv (Dispatcher_Start d w)"
  using assms
  by (auto simp: NewSingleChannelDispatcher_def NewPool_def dsys_inv_def Dispatcher_Start_def Pool_Start_def pool_ok_def
      split: if_splits option.splits)

end

section \<open>A dispatcher in memory\<close>

definition ex_env :: dispatch_env where
  "ex_env = \<lparr>de_tostr = (\<lambda>_. ''x''), de_rnd = (\<lambda>_ _. 1), de_limit = 5, de_visibilityTimeout = 30\<rparr>"

definition ex_dispatcher :: dispatcher where
  "ex_dispatcher =
     \<lparr>dp_pools = [ChannelSMS \<mapsto> \<lparr>pool_size = 1, pool_tasks = [], pool_closed = False, pool_workers = []\<rparr>],
      dp_pollInterval = 100, dp_batchSize = 2\<rparr>"

definition ex_start :: "(nat list \<times> time, mem, int result list \<times> string list) dsys" where
  "ex_start = Dispatcher_Start ex_dispatcher ((ex_world [] [])\<lparr>w_redis := ex_queue\<rparr>)"

lemma ex_queue_zset: "rd_zset mem_redis ex_queue k = (if k = queuePrefix @ ChannelSMS then [(3, ''sms,high,a'')] else [])"
  by (simp add: ex_queue_def queue_eval ChannelSMS_def PriorityHigh_def Priority_Score_def)

lemma ex_clean: "clean ex_sv ex_queue"
  by (auto simp: clean_def ex_queue_zset z_members_def text_codec_def valid_message_def Channel_Valid_def Priority_Valid_def
      channel_defs priority_defs)

lemma ex_new: "NewSingleChannelDispatcher ChannelSMS 1 100 2 = Some ex_dispatcher"
  by (simp add: NewSingleChannelDispatcher_def NewPool_def ex_dispatcher_def)

lemma ex_start_world: "world_inv mem_pg ((ex_world [] [])\<lparr>w_redis := ex_queue\<rparr>)"
  using ex_world_inv [of "[]" "[]"] by (simp add: world_inv_def)

lemma ex_allow:
  "\<exists>r1. RateLimiter_AllowN mem_redis (\<lambda>_. ''x'') (\<lambda>_. 1) 5 0 ChannelSMS 2 ex_queue = (Inr 2, r1) \<and> mem_faults r1 = [] \<and>
     rd_zset mem_redis r1 (queuePrefix @ ChannelSMS) = [(3, ''sms,high,a'')]"
  by (simp add: ex_queue_def limiter_eval queue_eval ratelimit_key_def numeral_2_eq_2 ChannelSMS_def PriorityHigh_def Priority_Score_def)

lemma ex_dispatch:
  "\<exists>w. Dispatcher_dispatch ex_sv ex_env 2 ChannelSMS (ds_world ex_start) = Some ([msg_ex ''a'' PriorityHigh], w)"
proof -
  obtain r1 where r1: "RateLimiter_AllowN mem_redis (\<lambda>_. ''x'') (\<lambda>_. 1) 5 0 ChannelSMS 2 ex_queue = (Inr 2, r1)"
    "mem_faults r1 = []" "rd_zset mem_redis r1 (queuePrefix @ ChannelSMS) = [(3, ''sms,high,a'')]"
    using ex_allow by blast
  have z: "zlist (mem_zsets r1 (queuePrefix @ ChannelSMS)) = [(3, ''sms,high,a'')]" using r1(3) by (simp add: mem_redis_def)
  have "\<exists>r2. Consumer_DequeueBatch mem_redis text_codec 30 (10 ^ 9) ChannelSMS 2 r1 = (Inr [msg_ex ''a'' PriorityHigh], r2)"
    by (simp add: Consumer_DequeueBatch_def remote_def mem_redis_def r1(2) z [unfolded ChannelSMS_def] rd_do_def text_codec_def msg_ex_def mem_upd_def
        ChannelSMS_def PriorityHigh_def Let_def)
  then obtain r2 where r2: "Consumer_DequeueBatch mem_redis text_codec 30 (10 ^ 9) ChannelSMS 2 r1 = (Inr [msg_ex ''a'' PriorityHigh], r2)" by blast
  have "\<exists>m. incr_all [msg_ex ''a'' PriorityHigh] ChannelSMS NewMetricsCollector = Some m"
    using incr_all_ok [OF metrics_ok_new Channel_Valid_consts(1)] by blast
  then show ?thesis
    using r1(1) r2
    by (auto simp: Dispatcher_dispatch_def on_redis_def ex_start_def Dispatcher_Start_def ex_env_def ex_world_def new_worker_def advance_def)
qed

section \<open>Properties\<close>

text \<open>The batches of a worker process that are on their way: being submitted, waiting in a pool, or running.\<close>

definition batches :: "('p, 'r, 'h) dsys \<Rightarrow> message list set" where
  "batches s =
     {msgs. (\<exists>c. ds_loops s c = Some (Submitting msgs)) \<or>
        (\<exists>c p. pool_of s c = Some p \<and> (msgs \<in> set (pool_tasks p) \<or> Running msgs \<in> set (pool_workers p)))}"

text \<open>A worker that runs its first batch, step by step.\<close>

definition ex_pool :: "message list pool" where
  "ex_pool = Pool_Start \<lparr>pool_size = 1, pool_tasks = [], pool_closed = False, pool_workers = []\<rparr>"

lemmas ex_sel = ex_start_def Dispatcher_Start_def ex_dispatcher_def set_loop_def set_pool_def Pool_Start_def

lemma ex_submitting:
  "\<exists>s. (dstep ex_sv ex_env)\<^sup>*\<^sup>* ex_start s \<and> ds_loops s ChannelSMS = Some (Submitting [msg_ex ''a'' PriorityHigh]) \<and>
     pool_of s ChannelSMS = Some ex_pool \<and> dp_batchSize (ds_dispatcher s) = 2"
proof -
  let ?ms = "[msg_ex ''a'' PriorityHigh]"
  obtain w where w: "Dispatcher_dispatch ex_sv ex_env 2 ChannelSMS (ds_world ex_start) = Some (?ms, w)" using ex_dispatch by blast
  let ?s0 = "set_loop ChannelSMS Select ex_start"
  let ?s1 = "set_loop ChannelSMS Polling ?s0"
  let ?s2 = "set_loop ChannelSMS (Submitting ?ms) (?s1\<lparr>ds_world := w\<rparr>)"
  have 0: "dstep ex_sv ex_env ex_start ?s0" by (rule dstep.ticker) (simp_all add: ex_sel)
  have 1: "dstep ex_sv ex_env ?s0 ?s1" by (rule dstep.tick) (simp add: ex_sel)
  have 2: "dstep ex_sv ex_env ?s1 ?s2"
    using dstep.dispatch [of ?s1 ChannelSMS ex_sv ex_env ?ms w] w by (simp add: ex_sel)
  have "(dstep ex_sv ex_env)\<^sup>*\<^sup>* ex_start ?s2"
    by (rule converse_rtranclp_into_rtranclp, rule 0, rule converse_rtranclp_into_rtranclp, rule 1, rule r_into_rtranclp, rule 2)
  moreover have "ds_loops ?s2 ChannelSMS = Some (Submitting ?ms)" "pool_of ?s2 ChannelSMS = Some ex_pool"
    "dp_batchSize (ds_dispatcher ?s2) = 2" by (simp_all add: ex_sel ex_pool_def)
  ultimately show ?thesis by blast
qed

lemma ex_running:
  "\<exists>s p. (dstep ex_sv ex_env)\<^sup>*\<^sup>* ex_start s \<and> pool_of s ChannelSMS = Some p \<and> Running [msg_ex ''a'' PriorityHigh] \<in> set (pool_workers p)"
proof -
  let ?ms = "[msg_ex ''a'' PriorityHigh]"
  obtain s where s: "(dstep ex_sv ex_env)\<^sup>*\<^sup>* ex_start s" "ds_loops s ChannelSMS = Some (Submitting ?ms)" "pool_of s ChannelSMS = Some ex_pool"
    using ex_submitting by blast
  let ?p1 = "ex_pool\<lparr>pool_tasks := [?ms]\<rparr>"
  let ?s1 = "set_loop ChannelSMS (after_submit s ?ms) (set_pool ChannelSMS ?p1 s)"
  let ?p2 = "?p1\<lparr>pool_tasks := [], pool_workers := (pool_workers ?p1)[0 := Running ?ms]\<rparr>"
  have 1: "dstep ex_sv ex_env s ?s1"
    by (rule dstep.submit [OF s(2,3)]) (simp add: Pool_Submit_def ex_pool_def Pool_Start_def)
  have p1: "pool_of ?s1 ChannelSMS = Some ?p1" by (simp add: ex_sel)
  have "worker_step (ds_done ?s1) 0 ?p1 ?p2" by (rule take_task) (simp_all add: ex_pool_def Pool_Start_def)
  from dstep.goroutine [OF p1 this] have 2: "dstep ex_sv ex_env ?s1 (set_pool ChannelSMS ?p2 ?s1)" .
  have "(dstep ex_sv ex_env)\<^sup>*\<^sup>* ex_start (set_pool ChannelSMS ?p2 ?s1)"
    by (rule rtranclp_trans [OF s(1) rtranclp_trans [OF r_into_rtranclp r_into_rtranclp], OF 1 2])
  moreover have "pool_of (set_pool ChannelSMS ?p2 ?s1) ChannelSMS = Some ?p2" by (simp add: set_pool_def)
  moreover have "Running ?ms \<in> set (pool_workers ?p2)" by (simp add: ex_pool_def Pool_Start_def)
  ultimately show ?thesis by blast
qed

text \<open>
  C20. A worker process handles valid messages only and no goroutine of it panics while it runs. In every
  reachable state, whatever other processes do to the database and the queue: the invariant of the
  world holds; every message of a batch that is being submitted, waits in a pool or is being
  processed is valid; processing any of these batches, and any next dispatch, would return; and no
  goroutine has panicked unless the context was done before or the poll interval is not positive.
\<close>

theorem worker_process_invariant:
  assumes "worker sv" "NewSingleChannelDispatcher ch poolSize pollInterval batchSize = Some d" "Channel_Valid ch"
    and "world_inv (sv_pg sv) w" "clean sv (w_redis w)" "(dstep sv de)\<^sup>*\<^sup>* (Dispatcher_Start d w) s"
  shows "world_inv (sv_pg sv) (ds_world s) \<and>
    (\<forall>msgs \<in> batches s. (\<forall>m \<in> set msgs. valid_message m) \<and>
       (\<exists>w'. Processor_ProcessBatch (worker_processor sv) msgs (ds_world s) = Some w')) \<and>
    (\<forall>c l. ds_loops s c = Some l \<longrightarrow> (\<exists>msgs w'. Dispatcher_dispatch sv de (dp_batchSize (ds_dispatcher s)) c (ds_world s) = Some (msgs, w'))) \<and>
    (ds_panicked s \<longrightarrow> ds_done s \<or> pollInterval \<le> 0)"
proof -
  have inv: "dsys_inv sv s"
    using worker.dsteps_inv [OF assms(1,6)] worker.dsys_inv_start [OF assms(1-5)] by blast
  have "dp_pollInterval d = pollInterval"
    using assms(2) by (auto simp: NewSingleChannelDispatcher_def split: option.splits)
  then have i: "dp_pollInterval (ds_dispatcher s) = pollInterval"
    using worker.dsteps_interval [OF assms(1,6)] by (simp add: Dispatcher_Start_def)
  have v: "\<forall>m \<in> set msgs. valid_message m" if "msgs \<in> batches s" for msgs
    using that inv by (auto simp: batches_def dsys_inv_def pool_ok_def)
  have "\<exists>w'. Processor_ProcessBatch (worker_processor sv) msgs (ds_world s) = Some w'" if "msgs \<in> batches s" for msgs
    using worker.batch_outcome [OF assms(1), of "ds_world s" msgs] v [OF that] inv by (auto simp: dsys_inv_def)
  then show ?thesis
    using v i inv worker.polling_returns [OF assms(1) inv] by (auto simp: dsys_inv_def)
qed

text \<open>The hypotheses hold for a worker that is processing a batch.\<close>

theorem worker_process_invariant_witness:
  "\<exists>s p. (dstep ex_sv ex_env)\<^sup>*\<^sup>* ex_start s \<and> pool_of s ChannelSMS = Some p \<and>
     Running [msg_ex ''a'' PriorityHigh] \<in> set (pool_workers p) \<and> \<not> (ds_panicked s \<and> \<not> ds_done s) \<and>
     (\<exists>w'. Processor_ProcessBatch (worker_processor ex_sv) [msg_ex ''a'' PriorityHigh] (ds_world s) = Some w')"
proof -
  obtain s p where s: "(dstep ex_sv ex_env)\<^sup>*\<^sup>* (Dispatcher_Start ex_dispatcher ((ex_world [] [])\<lparr>w_redis := ex_queue\<rparr>)) s"
    "pool_of s ChannelSMS = Some p" "Running [msg_ex ''a'' PriorityHigh] \<in> set (pool_workers p)"
    using ex_running unfolding ex_start_def by blast
  then have b: "[msg_ex ''a'' PriorityHigh] \<in> batches s" by (auto simp: batches_def)
  have w: "world_inv (sv_pg ex_sv) ((ex_world [] [])\<lparr>w_redis := ex_queue\<rparr>)" "clean ex_sv (w_redis ((ex_world [] [])\<lparr>w_redis := ex_queue\<rparr>))"
    using ex_start_world ex_clean by simp_all
  from worker_process_invariant [OF mw.worker_axioms ex_new Channel_Valid_consts(1) w s(1)] b s show ?thesis
    unfolding ex_start_def by auto
qed

text \<open>
  A poll interval that is not positive, which the configuration accepts, lets \<open>time.NewTicker\<close> panic in
  each dispatch loop: such a worker never polls, and the first step of a loop panics.
\<close>

theorem poll_interval_panics:
  assumes "dp_pollInterval d \<le> 0" "(dstep sv de)\<^sup>*\<^sup>* (Dispatcher_Start d w) s"
  shows "(\<forall>c l. ds_loops s c = Some l \<longrightarrow> l = Starting) \<and>
    (ds_loops s c = Some Starting \<longrightarrow> dstep sv de s (s\<lparr>ds_panicked := True\<rparr>))"
proof -
  have "dp_pollInterval (ds_dispatcher s) \<le> 0 \<and> (\<forall>c l. ds_loops s c = Some l \<longrightarrow> l = Starting)"
    using assms(2)
  proof (induction rule: rtranclp_induct)
    case base
    then show ?case using assms(1) by (auto simp: Dispatcher_Start_def)
  next
    case (step s1 s2)
    from step(2,3) show ?case by (cases rule: dstep.cases) (fastforce simp: set_pool_def set_loop_def)+
  qed
  then show ?thesis by (auto intro: dstep.ticker_panic)
qed

theorem poll_interval_panics_witness:
  "\<exists>s. (dstep ex_sv ex_env)\<^sup>*\<^sup>* (Dispatcher_Start (ex_dispatcher\<lparr>dp_pollInterval := 0\<rparr>) (ds_world ex_start)) s \<and> ds_panicked s"
proof -
  let ?s = "Dispatcher_Start (ex_dispatcher\<lparr>dp_pollInterval := 0\<rparr>) (ds_world ex_start)"
  have "ds_loops ?s ChannelSMS = Some Starting" by (simp add: Dispatcher_Start_def ex_dispatcher_def)
  then have "dstep ex_sv ex_env ?s (?s\<lparr>ds_panicked := True\<rparr>)"
    using poll_interval_panics [of "ex_dispatcher\<lparr>dp_pollInterval := 0\<rparr>" ex_sv ex_env "ds_world ex_start" ?s ChannelSMS] by simp
  then show ?thesis by (intro exI [of _ "?s\<lparr>ds_panicked := True\<rparr>"]) simp
qed

text \<open>
  C39. A shutdown can panic. \<open>RunWorker\<close> stops the pools as soon as the context is done, while
  a dispatch loop may still be about to submit the batch it has dequeued: the send on the
  closed channel panics. From the start of a worker with one queued message such a state
  is reachable.
\<close>

theorem shutdown_can_panic:
  "\<exists>s msgs p. (dstep ex_sv ex_env)\<^sup>*\<^sup>* ex_start s \<and> ds_loops s ChannelSMS = Some (Submitting msgs) \<and>
     pool_of s ChannelSMS = Some p \<and> Pool_Submit msgs p = Panic"
proof -
  let ?ms = "[msg_ex ''a'' PriorityHigh]"
  obtain s where s: "(dstep ex_sv ex_env)\<^sup>*\<^sup>* ex_start s" "ds_loops s ChannelSMS = Some (Submitting ?ms)" "pool_of s ChannelSMS = Some ex_pool"
    using ex_submitting by blast
  let ?s1 = "s\<lparr>ds_done := True\<rparr>" and ?p = "ex_pool\<lparr>pool_closed := True\<rparr>"
  have 1: "dstep ex_sv ex_env s ?s1" by (rule dstep.cancel)
  have 2: "dstep ex_sv ex_env ?s1 (set_pool ChannelSMS ?p ?s1)"
    using s(3) by (intro dstep.stop [where p = ex_pool]) (simp_all add: Pool_Stop_def ex_pool_def Pool_Start_def)
  have "(dstep ex_sv ex_env)\<^sup>*\<^sup>* ex_start (set_pool ChannelSMS ?p ?s1)"
    by (rule rtranclp_trans [OF s(1) rtranclp_trans [OF r_into_rtranclp r_into_rtranclp], OF 1 2])
  moreover have "ds_loops (set_pool ChannelSMS ?p ?s1) ChannelSMS = Some (Submitting ?ms)" "pool_of (set_pool ChannelSMS ?p ?s1) ChannelSMS = Some ?p"
    using s(2) by (simp_all add: set_pool_def)
  moreover have "Pool_Submit ?ms ?p = Panic" by (simp add: Pool_Submit_def)
  ultimately show ?thesis by blast
qed

end
