(* ===== verification/Config.thy ===== *)
theory Config
  imports Go_Text Dispatcher
begin

text \<open>
  The settings of \<open>internal/config/config.go\<close>. Each struct is a record; \<open>default_config\<close> has
  the values of the \<open>envDefault\<close> tags, which the \<open>env\<close> package gives to variables that are not
  set. \<open>itoa\<close> is the conversion the file writes by hand, used for the port of the
  connection string.

  The lemmas show what \<open>itoa\<close> computes, and that the default settings meet the conditions
  under which the other theories prove their properties of a worker.
\<close>

section \<open>Definitions\<close>

record serverConfig =
  srv_Port :: int
  srv_ReadTimeout :: duration
  srv_WriteTimeout :: duration
  srv_ShutdownTimeout :: duration

record databaseConfig =
  db_Host :: string
  db_Port :: int
  db_User :: string
  db_Password :: string
  db_Name :: string
  db_SSLMode :: string
  db_MaxConns :: int
  db_MinConns :: int
  db_MaxConnLifetime :: duration
  db_MaxConnIdleTime :: duration
  db_HealthCheckPeriod :: duration

record redisConfig =
  rc_Addr :: string
  rc_Password :: string
  rc_DB :: int
  rc_PoolSize :: int
  rc_MinIdleConns :: int
  rc_PoolTimeout :: duration
  rc_ReadTimeout :: duration
  rc_WriteTimeout :: duration

record workerConfig =
  wc_PoolSize :: int
  wc_RateLimit :: int
  wc_PollInterval :: duration
  wc_BatchSize :: int
  wc_RetryBaseWait :: duration
  wc_RetryMaxWait :: duration
  wc_MaxAttempts :: int
  wc_VisibilityTimeout :: duration

record providerConfig =
  pc_WebhookURL :: string
  pc_RequestTimeout :: duration
  pc_CBMaxFailures :: int
  pc_CBTimeout :: duration

record tracingConfig =
  tc_Endpoint :: string
  tc_Enabled :: bool

record config =
  cfg_Server :: serverConfig
  cfg_Database :: databaseConfig
  cfg_Redis :: redisConfig
  cfg_Worker :: workerConfig
  cfg_Provider :: providerConfig
  cfg_Tracing :: tracingConfig

abbreviation milliseconds :: "int \<Rightarrow> duration" where "milliseconds n \<equiv> n * 10 ^ 6"
abbreviation seconds :: "int \<Rightarrow> duration" where "seconds n \<equiv> n * 10 ^ 9"

definition default_config :: config where
  "default_config =
     \<lparr>cfg_Server = \<lparr>srv_Port = 8080, srv_ReadTimeout = seconds 10, srv_WriteTimeout = seconds 30,
        srv_ShutdownTimeout = seconds 30\<rparr>,
      cfg_Database = \<lparr>db_Host = ''localhost'', db_Port = 5432, db_User = ''insider'', db_Password = ''insider'',
        db_Name = ''insider'', db_SSLMode = ''disable'', db_MaxConns = 25, db_MinConns = 5,
        db_MaxConnLifetime = seconds 3600, db_MaxConnIdleTime = seconds 1800, db_HealthCheckPeriod = seconds 60\<rparr>,
      cfg_Redis = \<lparr>rc_Addr = ''localhost:6379'', rc_Password = '''', rc_DB = 0, rc_PoolSize = 20, rc_MinIdleConns = 5,
        rc_PoolTimeout = seconds 5, rc_ReadTimeout = seconds 3, rc_WriteTimeout = seconds 3\<rparr>,
      cfg_Worker = \<lparr>wc_PoolSize = 10, wc_RateLimit = 100, wc_PollInterval = milliseconds 100, wc_BatchSize = 10,
        wc_RetryBaseWait = seconds 1, wc_RetryMaxWait = seconds 300, wc_MaxAttempts = 5,
        wc_VisibilityTimeout = seconds 30\<rparr>,
      cfg_Provider = \<lparr>pc_WebhookURL = ''https://webhook.site'', pc_RequestTimeout = seconds 10, pc_CBMaxFailures = 5,
        pc_CBTimeout = seconds 30\<rparr>,
      cfg_Tracing = \<lparr>tc_Endpoint = ''localhost:4317'', tc_Enabled = False\<rparr>\<rparr>"

text \<open>The loop of \<open>itoa\<close>; \<open>s\<close> is the text built so far.\<close>

function itoa_loop :: "int \<Rightarrow> string \<Rightarrow> string" where
  "itoa_loop i s = (if i > 0 then itoa_loop (i div 10) (digit (nat (i mod 10)) # s) else s)"
  by pat_completeness auto
termination by (relation "measure (nat \<circ> fst)") auto

declare itoa_loop.simps [simp del]

definition itoa :: "int \<Rightarrow> string" where
  "itoa i = (if i = 0 then ''0'' else itoa_loop i [])"

definition DatabaseConfig_DSN :: "databaseConfig \<Rightarrow> string" where
  "DatabaseConfig_DSN d =
     ''postgres://'' @ db_User d @ '':'' @ db_Password d @ ''@'' @ db_Host d @ '':'' @ itoa (db_Port d) @
     ''/'' @ db_Name d @ ''?sslmode='' @ db_SSLMode d"

section \<open>Lemmas\<close>

lemma itoa_loop_digits: "itoa_loop (int n) s = (if n = 0 then s else digits n @ s)"
proof (induction n arbitrary: s rule: less_induct)
  case (less n)
  show ?case
  proof (cases "n = 0")
    case True
    then show ?thesis by (simp add: itoa_loop.simps)
  next
    case False
    have "itoa_loop (int n) s = itoa_loop (int (n div 10)) (digit (n mod 10) # s)"
      using False by (simp add: itoa_loop.simps [of "int n"] zdiv_int nat_mod_distrib)
    also have "\<dots> = (if n div 10 = 0 then digit (n mod 10) # s else digits (n div 10) @ digit (n mod 10) # s)"
      using less.IH [of "n div 10"] False by simp
    also have "\<dots> = digits n @ s"
      by (cases "n < 10") (simp_all add: digits.simps [of n] digit_def)
    finally show ?thesis using False by simp
  qed
qed

text \<open>The conditions the settings of a worker have to meet.\<close>

definition worker_settings_ok :: "config \<Rightarrow> bool" where
  "worker_settings_ok c =
     (0 \<le> wc_PoolSize (cfg_Worker c) \<and> 0 < wc_PollInterval (cfg_Worker c) \<and> 0 < wc_RateLimit (cfg_Worker c) \<and> wc_RateLimit (cfg_Worker c) \<le> 2 ^ 52 \<and>
      wc_BatchSize (cfg_Worker c) \<le> 2 ^ 52 \<and> 0 \<le> wc_RetryBaseWait (cfg_Worker c) \<and>
      wc_RetryBaseWait (cfg_Worker c) \<le> wc_RetryMaxWait (cfg_Worker c) \<and> wc_RetryMaxWait (cfg_Worker c) \<le> 2 ^ 50 \<and>
      0 < pc_CBMaxFailures (cfg_Provider c))"

lemma default_settings_ok: "worker_settings_ok default_config"
  by (simp add: worker_settings_ok_def default_config_def)

lemma settings_dispatcher:
  assumes "worker_settings_ok c"
  shows "\<exists>d. NewSingleChannelDispatcher ch (wc_PoolSize (cfg_Worker c)) (wc_PollInterval (cfg_Worker c)) (wc_BatchSize (cfg_Worker c)) = Some d"
  using assms by (simp add: worker_settings_ok_def NewSingleChannelDispatcher_def NewPool_def)

section \<open>Properties\<close>

text \<open>
  The hand-written \<open>itoa\<close> terminates and agrees with \<open>strconv.Itoa\<close> on every number that
  is not negative; a negative number becomes the empty text.
\<close>

theorem itoa_equals_Itoa: "itoa i = (if i < 0 then [] else Itoa i)"
proof (cases "i \<le> 0")
  case True
  have "Itoa 0 = ''0''" by code_simp
  then show ?thesis using True by (simp add: itoa_def itoa_loop.simps)
next
  case False
  then show ?thesis using itoa_loop_digits [of "nat i" "[]"] by (simp add: itoa_def Itoa_def)
qed

end
