(* ===== verification/Middleware.thy ===== *)
theory Middleware
  imports Prelude
begin

text \<open>
  The middleware of \<open>internal/api/middleware\<close>.

  A handler is modelled by what it does to its \<open>http.ResponseWriter\<close>: the list of its
  operations, in order, and whether it returns or panics. No handler of the service looks at
  the result of a write, but one looks at the type of the writer: \<open>websocket.Accept\<close> asks whether it is an
  \<open>http.Hijacker\<close>. So a handler gets its writer as an argument: the server's own, or one of the two
  wrappers of the middleware, which embed the interface \<open>http.ResponseWriter\<close> and so have its
  three methods only. A middleware changes the request and the writer on the way in and the
  operations on the way out. \<open>reply\<close> is what the server of \<open>net/http\<close> makes of the operations: the
  first status wins, a write without a status is a 200, headers count until the status is
  written, a 204 has no body, and the body is not sent in answer to \<open>HEAD\<close>. The headers of a
  reply are those the operations set; of the headers that the server adds by itself only
  a \<open>Content-Type\<close> guessed from the body is noted (\<open>rp_guessed\<close>).

  The compressor of \<open>compress/gzip\<close> is a parameter with the law \<open>gzip_ok\<close>. Log output is
  kept as a list of entries (without the duration and the stack).
\<close>

section \<open>Response writers\<close>

datatype wop = SetHeader string string | DelHeader string | WriteHeader int | Write string

datatype outcome = Returned | Panicked

datatype log = LogRequest string "string list" int string | LogPanic string

record conn =
  cn_header :: "string \<Rightarrow> string option"
  cn_sent :: "(int \<times> (string \<Rightarrow> string option)) option"
  cn_body :: string

definition new_conn :: conn where
  "new_conn = \<lparr>cn_header = (\<lambda>_. None), cn_sent = None, cn_body = []\<rparr>"

definition bodyAllowed :: "int \<Rightarrow> bool" where
  "bodyAllowed code = (\<not> (100 \<le> code \<and> code \<le> 199) \<and> code \<noteq> 204 \<and> code \<noteq> 304)"

definition send_header :: "int \<Rightarrow> conn \<Rightarrow> conn" where
  "send_header code c =
     (if cn_sent c \<noteq> None \<or> (100 \<le> code \<and> code \<le> 199 \<and> code \<noteq> 101) then c else c\<lparr>cn_sent := Some (code, cn_header c)\<rparr>)"

definition sent_code :: "conn \<Rightarrow> int" where
  "sent_code c = (case cn_sent c of Some (code, _) \<Rightarrow> code | None \<Rightarrow> 200)"

fun conn_step :: "wop \<Rightarrow> conn \<Rightarrow> conn" where
  "conn_step (SetHeader k v) c = c\<lparr>cn_header := (cn_header c)(k \<mapsto> v)\<rparr>"
| "conn_step (DelHeader k) c = c\<lparr>cn_header := (cn_header c)(k := None)\<rparr>"
| "conn_step (WriteHeader code) c = send_header code c"
| "conn_step (Write b) c =
     (let c = send_header 200 c in if bodyAllowed (sent_code c) then c\<lparr>cn_body := cn_body c @ b\<rparr> else c)"

record http_reply =
  rp_code :: int
  rp_header :: "string \<Rightarrow> string option"
  rp_body :: string
  rp_guessed :: bool

text \<open>The server guesses a \<open>Content-Type\<close> for a body without one, unless a \<open>Content-Encoding\<close> is set.\<close>

definition guesses :: "(string \<Rightarrow> string option) \<Rightarrow> string \<Rightarrow> bool" where
  "guesses h body =
     (h ''Content-Type'' = None \<and> (case h ''Content-Encoding'' of None \<Rightarrow> True | Some v \<Rightarrow> v = []) \<and> body \<noteq> [])"

definition finish :: "string \<Rightarrow> conn \<Rightarrow> http_reply" where
  "finish method c =
     (let (code, h) = (case cn_sent c of Some ch \<Rightarrow> ch | None \<Rightarrow> (200, cn_header c))
      in \<lparr>rp_code = code, rp_header = h, rp_body = (if method = ''HEAD'' then [] else cn_body c),
          rp_guessed = guesses h (cn_body c)\<rparr>)"

definition reply :: "string \<Rightarrow> wop list \<Rightarrow> http_reply" where
  "reply method ops = finish method (fold conn_step ops new_conn)"

text \<open>\<open>http.Error\<close>.\<close>

definition http_Error :: "string \<Rightarrow> int \<Rightarrow> wop list" where
  "http_Error msg code =
     [DelHeader ''Content-Length'', SetHeader ''Content-Type'' ''text/plain; charset=utf-8'',
      SetHeader ''X-Content-Type-Options'' ''nosniff'', WriteHeader code, Write (msg @ [CHR 0x0A])]"

section \<open>Requests and handlers\<close>

text \<open>
  The body of a request is what can be read of it and the error at its end, if any; the path
  is given by its segments; \<open>hr_ctx\<close> is the request identifier in the context.
\<close>

type_synonym reader = "string \<times> err option"

record http_request =
  hr_Method :: string
  hr_Path :: "string list"
  hr_Query :: "string \<Rightarrow> string"
  hr_Header :: "string \<Rightarrow> string"
  hr_Body :: "reader option"
  hr_ctx :: "string option"

record 's served =
  sd_ops :: "wop list"
  sd_log :: "log list"
  sd_out :: outcome
  sd_state :: 's

text \<open>
  The dynamic type of a \<open>http.ResponseWriter\<close>: \<open>*http.response\<close> of the server, the
  \<open>responseWriter\<close> of \<open>Logging\<close> or the \<open>gzipResponseWriter\<close> of \<open>Gzip\<close>. A wrapper has neither \<open>Hijack\<close> nor
  \<open>Unwrap\<close>.
\<close>

datatype writer = Response | ResponseWriter writer | GzipResponseWriter writer

fun is_Hijacker :: "writer \<Rightarrow> bool" where
  "is_Hijacker Response = True"
| "is_Hijacker (ResponseWriter w) = False"
| "is_Hijacker (GzipResponseWriter w) = False"

type_synonym 's handler = "writer \<Rightarrow> http_request \<Rightarrow> 's \<Rightarrow> 's served"

section \<open>The middleware\<close>

definition GetRequestID :: "http_request \<Rightarrow> string" where
  "GetRequestID r = (case hr_ctx r of Some i \<Rightarrow> i | None \<Rightarrow> [])"

definition RequestID :: "('s \<Rightarrow> string \<times> 's) \<Rightarrow> 's handler \<Rightarrow> 's handler" where
  "RequestID newID nxt w r s =
     (let i = hr_Header r ''X-Request-ID'';
          (i, s) = (if i = [] then newID s else (i, s));
          d = nxt w (r\<lparr>hr_ctx := Some i\<rparr>) s
      in d\<lparr>sd_ops := SetHeader ''X-Request-ID'' i # sd_ops d\<rparr>)"

definition Recovery :: "'s handler \<Rightarrow> 's handler" where
  "Recovery nxt w r s =
     (let d = nxt w r s
      in case sd_out d of
           Returned \<Rightarrow> d
         | Panicked \<Rightarrow>
             d\<lparr>sd_log := sd_log d @ [LogPanic (GetRequestID r)],
               sd_ops := sd_ops d @ http_Error ''{\"error\":\"internal server error\"}'' 500, sd_out := Returned\<rparr>)"

text \<open>The field \<open>status\<close> of the response writer of \<open>Logging\<close> after the operations.\<close>

definition responseWriter_status :: "wop list \<Rightarrow> int" where
  "responseWriter_status ops = fold (\<lambda>op st. case op of WriteHeader code \<Rightarrow> code | _ \<Rightarrow> st) ops 200"

definition Logging :: "'s handler \<Rightarrow> 's handler" where
  "Logging nxt w r s =
     (let d = nxt (ResponseWriter w) r s
      in case sd_out d of
           Panicked \<Rightarrow> d
         | Returned \<Rightarrow>
             d\<lparr>sd_log := sd_log d @ [LogRequest (hr_Method r) (hr_Path r) (responseWriter_status (sd_ops d)) (GetRequestID r)]\<rparr>)"

text \<open>\<open>http.MaxBytesReader\<close>: the first \<open>n\<close> bytes and then an error, if there are more.\<close>

definition MaxBytesReader :: "nat \<Rightarrow> reader \<Rightarrow> reader" where
  "MaxBytesReader n b = (if length (fst b) > n then (take n (fst b), Some (Err ''http: request body too large'')) else b)"

definition MaxBodySize :: "nat \<Rightarrow> 's handler \<Rightarrow> 's handler" where
  "MaxBodySize maxBytes nxt w r s = nxt w (r\<lparr>hr_Body := map_option (MaxBytesReader maxBytes) (hr_Body r)\<rparr>) s"

fun Contains :: "string \<Rightarrow> string \<Rightarrow> bool" where
  "Contains [] sub = (sub = [])"
| "Contains (c # cs) sub = (take (length sub) (c # cs) = sub \<or> Contains cs sub)"

text \<open>A \<open>gzip.Writer\<close> after \<open>Reset\<close>, what it writes for each \<open>Write\<close>, and what for \<open>Close\<close>.\<close>

record 'g gzip =
  gz_new :: 'g
  gz_write :: "'g \<Rightarrow> string \<Rightarrow> string \<times> 'g"
  gz_close :: "'g \<Rightarrow> string"

fun gz_stream :: "'g gzip \<Rightarrow> 'g \<Rightarrow> string list \<Rightarrow> string" where
  "gz_stream gz g [] = gz_close gz g"
| "gz_stream gz g (b # bs) = (case gz_write gz g b of (out, g1) \<Rightarrow> out @ gz_stream gz g1 bs)"

definition gzip_ok :: "'g gzip \<Rightarrow> (string \<Rightarrow> string option) \<Rightarrow> bool" where
  "gzip_ok gz gunzip = (\<forall>bs. gunzip (gz_stream gz (gz_new gz) bs) = Some (concat bs))"

text \<open>The operations of a handler through \<open>gzipResponseWriter\<close>, and the deferred \<open>Close\<close>.\<close>

fun gzip_ops :: "'g gzip \<Rightarrow> 'g \<Rightarrow> wop list \<Rightarrow> wop list" where
  "gzip_ops gz g [] = [Write (gz_close gz g)]"
| "gzip_ops gz g (Write b # ops) = (case gz_write gz g b of (out, g1) \<Rightarrow> Write out # gzip_ops gz g1 ops)"
| "gzip_ops gz g (op # ops) = op # gzip_ops gz g ops"

definition accepts_gzip :: "http_request \<Rightarrow> bool" where
  "accepts_gzip r = Contains (hr_Header r ''Accept-Encoding'') ''gzip''"

definition Gzip :: "'g gzip \<Rightarrow> 's handler \<Rightarrow> 's handler" where
  "Gzip gz nxt w r s =
     (if \<not> accepts_gzip r then nxt w r s
      else let d = nxt (GzipResponseWriter w) r s
           in d\<lparr>sd_ops := [SetHeader ''Content-Encoding'' ''gzip'', DelHeader ''Content-Length''] @ gzip_ops gz (gz_new gz) (sd_ops d)\<rparr>)"

text \<open>The order in which \<open>NewRouter\<close> puts them around the multiplexer.\<close>

definition middleware :: "('s \<Rightarrow> string \<times> 's) \<Rightarrow> 'g gzip \<Rightarrow> nat \<Rightarrow> 's handler \<Rightarrow> 's handler" where
  "middleware newID gz maxBytes mux = RequestID newID (Recovery (Logging (MaxBodySize maxBytes (Gzip gz mux))))"

section \<open>Lemmas\<close>

text \<open>The request and the state that reach the multiplexer.\<close>

definition admitted :: "('s \<Rightarrow> string \<times> 's) \<Rightarrow> nat \<Rightarrow> http_request \<Rightarrow> 's \<Rightarrow> http_request \<times> 's" where
  "admitted newID n r s =
     (let (i, s) = (if hr_Header r ''X-Request-ID'' = [] then newID s else (hr_Header r ''X-Request-ID'', s))
      in (r\<lparr>hr_ctx := Some i, hr_Body := map_option (MaxBytesReader n) (hr_Body r)\<rparr>, s))"

lemma admitted_request:
  assumes "admitted newID n r s = (r1, s1)"
  shows "hr_Method r1 = hr_Method r" "hr_Path r1 = hr_Path r" "hr_Header r1 = hr_Header r" "accepts_gzip r1 = accepts_gzip r"
    "hr_Query r1 = hr_Query r" "hr_Body r1 = map_option (MaxBytesReader n) (hr_Body r)"
  using assms by (auto simp: admitted_def Let_def accepts_gzip_def split: prod.splits)

text \<open>The writer that reaches the multiplexer.\<close>

definition wrapped :: "http_request \<Rightarrow> writer \<Rightarrow> writer" where
  "wrapped r w = (if accepts_gzip r then GzipResponseWriter (ResponseWriter w) else ResponseWriter w)"

lemma wrapped_no_Hijacker: "\<not> is_Hijacker (wrapped r w)"
  by (simp add: wrapped_def)

definition encoded :: "'g gzip \<Rightarrow> http_request \<Rightarrow> wop list \<Rightarrow> wop list" where
  "encoded gz r ops =
     (if accepts_gzip r then [SetHeader ''Content-Encoding'' ''gzip'', DelHeader ''Content-Length''] @ gzip_ops gz (gz_new gz) ops else ops)"

lemma middleware_eq:
  assumes "admitted newID n r s = (r1, s1)"
  shows "middleware newID gz n mux w r s =
    (let d = mux (wrapped r1 w) r1 s1; d = d\<lparr>sd_ops := encoded gz r1 (sd_ops d)\<rparr>;
         d = (case sd_out d of
                Returned \<Rightarrow> d\<lparr>sd_log := sd_log d @ [LogRequest (hr_Method r) (hr_Path r) (responseWriter_status (sd_ops d)) (GetRequestID r1)]\<rparr>
              | Panicked \<Rightarrow> d\<lparr>sd_log := sd_log d @ [LogPanic (GetRequestID r1)],
                  sd_ops := sd_ops d @ http_Error ''{\"error\":\"internal server error\"}'' 500, sd_out := Returned\<rparr>)
     in d\<lparr>sd_ops := SetHeader ''X-Request-ID'' (GetRequestID r1) # sd_ops d\<rparr>)"
proof -
  obtain i s0 where i0: "(if hr_Header r ''X-Request-ID'' = [] then newID s else (hr_Header r ''X-Request-ID'', s)) = (i, s0)" (is "?p = _")
    by (cases ?p)
  have "r1 = r\<lparr>hr_ctx := Some i, hr_Body := map_option (MaxBytesReader n) (hr_Body r)\<rparr>" "s0 = s1"
    using assms unfolding admitted_def Let_def i0 by simp_all
  note i = i0 [unfolded this(2)] this(1)
  let ?d = "mux (wrapped r1 w) r1 s1"
  have g: "Gzip gz mux (ResponseWriter w) r1 s1 = ?d\<lparr>sd_ops := encoded gz r1 (sd_ops ?d)\<rparr>"
    by (simp add: Gzip_def wrapped_def encoded_def Let_def)
  have "middleware newID gz n mux w r s =
     (let d = Recovery (Logging (MaxBodySize n (Gzip gz mux))) w (r\<lparr>hr_ctx := Some i\<rparr>) s1 in d\<lparr>sd_ops := SetHeader ''X-Request-ID'' i # sd_ops d\<rparr>)"
    unfolding middleware_def RequestID_def Let_def i(1) by simp
  moreover have "MaxBodySize n (Gzip gz mux) (ResponseWriter w) (r\<lparr>hr_ctx := Some i\<rparr>) s1 = Gzip gz mux (ResponseWriter w) r1 s1" by (simp add: MaxBodySize_def i(2))
  moreover have "GetRequestID r1 = i" "GetRequestID (r\<lparr>hr_ctx := Some i\<rparr>) = i" by (simp_all add: GetRequestID_def i(2))
  ultimately show ?thesis
    by (cases "sd_out ?d") (simp_all add: Recovery_def Logging_def g Let_def)
qed

lemma middleware_returned:
  assumes "admitted newID n r s = (r1, s1)" "mux (wrapped r1 w) r1 s1 = \<lparr>sd_ops = ops, sd_log = lg, sd_out = Returned, sd_state = s2\<rparr>"
  shows "middleware newID gz n mux w r s =
    \<lparr>sd_ops = SetHeader ''X-Request-ID'' (GetRequestID r1) # encoded gz r1 ops,
     sd_log = lg @ [LogRequest (hr_Method r) (hr_Path r) (responseWriter_status (encoded gz r1 ops)) (GetRequestID r1)],
     sd_out = Returned, sd_state = s2\<rparr>"
  using assms by (simp add: middleware_eq accepts_gzip_def GetRequestID_def)

lemma middleware_panicked:
  assumes "admitted newID n r s = (r1, s1)" "mux (wrapped r1 w) r1 s1 = \<lparr>sd_ops = ops, sd_log = lg, sd_out = Panicked, sd_state = s2\<rparr>"
  shows "middleware newID gz n mux w r s =
    \<lparr>sd_ops = SetHeader ''X-Request-ID'' (GetRequestID r1) # encoded gz r1 ops @ http_Error ''{\"error\":\"internal server error\"}'' 500,
     sd_log = lg @ [LogPanic (GetRequestID r1)], sd_out = Returned, sd_state = s2\<rparr>"
  using assms by (simp add: middleware_eq accepts_gzip_def GetRequestID_def)

text \<open>Two connections that agree on the status and on all headers outside \<open>K\<close>.\<close>

definition agree :: "string set \<Rightarrow> conn \<Rightarrow> conn \<Rightarrow> bool" where
  "agree K c c' =
     ((\<forall>k. k \<notin> K \<longrightarrow> cn_header c k = cn_header c' k) \<and>
      (case (cn_sent c, cn_sent c') of
         (None, None) \<Rightarrow> True
       | (Some (code, h), Some (code', h')) \<Rightarrow> code = code' \<and> (\<forall>k. k \<notin> K \<longrightarrow> h k = h' k)
       | _ \<Rightarrow> False))"

lemma agree_sent: "agree K c c' \<Longrightarrow> sent_code c = sent_code c'"
  by (auto simp: agree_def sent_code_def split: option.splits prod.splits)

lemma agree_send: "agree K c c' \<Longrightarrow> agree K (send_header code c) (send_header code c')"
  by (auto simp: agree_def send_header_def split: option.splits prod.splits)

lemma agree_body: "agree K (c\<lparr>cn_body := b\<rparr>) (c'\<lparr>cn_body := b'\<rparr>) = agree K c c'"
  "agree K (c\<lparr>cn_body := b\<rparr>) c' = agree K c c'" "agree K c (c'\<lparr>cn_body := b'\<rparr>) = agree K c c'"
  by (simp_all add: agree_def)

lemma agree_step:
  assumes "agree K c c'"
  shows "agree K (conn_step op c) (conn_step op c')"
proof (cases op)
  case (Write b)
  note s = agree_send [OF assms, of 200]
  show ?thesis using s agree_sent [OF s] by (simp add: Write Let_def agree_body)
next
  case (WriteHeader code)
  then show ?thesis using agree_send [OF assms] by simp
qed (use assms in \<open>auto simp: agree_def\<close>)

lemma agree_write: "agree K c c' \<Longrightarrow> agree K (conn_step (Write b) c) (conn_step (Write b') c')"
  by (drule agree_send [of _ _ _ 200], frule agree_sent) (simp add: Let_def agree_body)

lemma agree_ops: "agree K c c' \<Longrightarrow> agree K (fold conn_step ops c) (fold conn_step ops c')"
  by (induction ops arbitrary: c c') (simp_all add: agree_step)

lemma agree_finish:
  assumes "agree K c c'"
  shows "rp_code (finish m c) = rp_code (finish m c')" "k \<notin> K \<Longrightarrow> rp_header (finish m c) k = rp_header (finish m c') k"
  using assms by (auto simp: agree_def finish_def split: option.splits prod.splits)

text \<open>The status a connection is going to have, and the bodies.\<close>

lemma finish_code: "rp_code (finish m c) = sent_code c" "rp_body (finish m c) = (if m = ''HEAD'' then [] else cn_body c)"
  by (auto simp: finish_def sent_code_def split: option.splits prod.splits)

lemma finish_guessed: "rp_guessed (finish m c) = guesses (rp_header (finish m c)) (cn_body c)"
  by (simp add: finish_def split: prod.splits)

lemma send_keeps: "cn_sent c \<noteq> None \<Longrightarrow> send_header code c = c"
  by (simp add: send_header_def)

lemma send_idem [simp]: "send_header 200 (send_header 200 c) = send_header 200 c"
  by (simp add: send_header_def)

lemma send_body [simp]: "cn_body (send_header code c) = cn_body c"
  by (simp add: send_header_def)

lemma sent_stays: "cn_sent c \<noteq> None \<Longrightarrow> cn_sent (fold conn_step ops c) = cn_sent c"
proof (induction ops arbitrary: c)
  case (Cons op ops)
  have "cn_sent (conn_step op c) = cn_sent c" using Cons.prems by (cases op) (simp_all add: send_keeps Let_def)
  then show ?case using Cons by simp
qed simp

fun writes :: "wop list \<Rightarrow> string list" where
  "writes [] = []"
| "writes (Write b # ops) = b # writes ops"
| "writes (op # ops) = writes ops"

lemma fold_code: "cn_sent c \<noteq> None \<Longrightarrow> sent_code (fold conn_step ops c) = sent_code c"
  by (simp add: sent_code_def sent_stays)

lemma body_ops:
  "cn_body (fold conn_step ops c) =
     cn_body c @ (if bodyAllowed (sent_code (fold conn_step ops c)) then concat (writes ops) else [])"
proof (induction ops arbitrary: c)
  case (Cons op ops)
  show ?case
  proof (cases op)
    case (Write b)
    have "cn_sent (conn_step (Write b) c) \<noteq> None" by (simp add: Let_def send_header_def)
    then have "sent_code (fold conn_step ops (conn_step (Write b) c)) = sent_code (conn_step (Write b) c)" by (rule fold_code)
    also have "\<dots> = sent_code (send_header 200 c)" by (simp add: Let_def sent_code_def)
    finally show ?thesis using Cons [of "conn_step (Write b) c"] by (simp add: Write Let_def)
  qed (simp_all add: Cons)
qed simp

lemma conn_body: "cn_body (fold conn_step ops new_conn) = (if bodyAllowed (rp_code (reply m ops)) then concat (writes ops) else [])"
  using body_ops [of ops new_conn] by (simp add: reply_def finish_code new_conn_def)

lemma reply_body:
  "rp_body (reply m ops) = (if m \<noteq> ''HEAD'' \<and> bodyAllowed (rp_code (reply m ops)) then concat (writes ops) else [])"
  using conn_body [of ops m] by (simp add: reply_def finish_code)

lemma reply_guessed:
  "rp_guessed (reply m ops) = guesses (rp_header (reply m ops)) (if bodyAllowed (rp_code (reply m ops)) then concat (writes ops) else [])"
  unfolding reply_def finish_guessed conn_body [of ops m, unfolded reply_def] by (rule refl)

lemma writes_append [simp]: "writes (xs @ ys) = writes xs @ writes ys"
  by (induction xs rule: writes.induct) simp_all

lemma writes_gzip: "concat (writes (gzip_ops gz g ops)) = gz_stream gz g (writes ops)"
  by (induction gz g ops rule: gzip_ops.induct) (simp_all split: prod.splits)

lemma agree_gzip:
  assumes "agree K c c'"
  shows "agree K (send_header 200 (fold conn_step ops c)) (fold conn_step (gzip_ops gz g ops) c')"
  using assms
proof (induction gz g ops arbitrary: c c' rule: gzip_ops.induct)
  case (1 gz g)
  show ?case using agree_send [OF 1, of 200] by (simp add: Let_def agree_body)
next
  case (2 gz g b ops)
  obtain out g1 where w: "gz_write gz g b = (out, g1)" by fastforce
  show ?case using 2(1) [OF w [symmetric] agree_write [OF 2(2), of b out]] by (simp add: w)
qed (simp_all add: agree_step del: conn_step.simps)

lemma finish_send: "finish m (send_header 200 c) = finish m c"
  by (simp add: finish_def send_header_def split: option.splits prod.splits)

lemma agree_set: "k \<in> K \<Longrightarrow> agree K c (conn_step (SetHeader k v) c)" "k \<in> K \<Longrightarrow> agree K c (conn_step (DelHeader k) c)"
  by (auto simp: agree_def split: option.splits prod.splits)

lemma agree_trans: "agree K a b \<Longrightarrow> agree K b c \<Longrightarrow> agree K a c"
  by (auto simp: agree_def split: option.splits prod.splits)

text \<open>The headers that the middleware may set or delete.\<close>

definition mw_headers :: "string set" where
  "mw_headers = {''X-Request-ID'', ''Content-Encoding'', ''Content-Length''}"

lemma encoded_reply:
  fixes ops :: "wop list" and gz :: "'g gzip" and r :: http_request and i m :: string
  defines "full \<equiv> reply m (SetHeader ''X-Request-ID'' i # encoded gz r ops)"
  shows "rp_code full = rp_code (reply m ops)" "k \<notin> mw_headers \<Longrightarrow> rp_header full k = rp_header (reply m ops) k"
proof -
  let ?c = "conn_step (SetHeader ''X-Request-ID'' i) new_conn"
  have "agree mw_headers (send_header 200 (fold conn_step ops new_conn)) (send_header 200 (fold conn_step (encoded gz r ops) ?c))"
  proof (cases "accepts_gzip r")
    case True
    let ?d = "conn_step (DelHeader ''Content-Length'') (conn_step (SetHeader ''Content-Encoding'' ''gzip'') ?c)"
    have "agree mw_headers new_conn ?d" 
      by (rule agree_trans [OF agree_set(1) agree_trans [OF agree_set(1) agree_set(2)]]) (simp_all add: mw_headers_def)
    from agree_send [OF agree_gzip [OF this], of 200 ops gz "gz_new gz"]
    show ?thesis using True by (simp add: encoded_def)
  next
    case False
    then show ?thesis using agree_send [OF agree_ops [OF agree_set(1)]] by (simp add: encoded_def mw_headers_def)
  qed
  note f = agree_finish [OF this, unfolded finish_send]
  show "rp_code full = rp_code (reply m ops)" "k \<notin> mw_headers \<Longrightarrow> rp_header full k = rp_header (reply m ops) k"
    using f by (simp_all add: full_def reply_def)
qed

text \<open>Without compression only the request identifier is added.\<close>

lemma plain_reply:
  "k \<noteq> ''X-Request-ID'' \<Longrightarrow> rp_header (reply m (SetHeader ''X-Request-ID'' i # ops)) k = rp_header (reply m ops) k"
  using agree_finish(2) [OF agree_ops [OF agree_set(1) [of "''X-Request-ID''" "{''X-Request-ID''}" new_conn i]], of k m ops]
  by (simp add: reply_def)

lemma encoded_body:
  assumes "gzip_ok gz gunzip" "m \<noteq> ''HEAD''" "bodyAllowed (rp_code (reply m ops))"
  shows "(if accepts_gzip r then gunzip else Some) (rp_body (reply m (SetHeader ''X-Request-ID'' i # encoded gz r ops))) = Some (rp_body (reply m ops))"
proof -
  let ?full = "SetHeader ''X-Request-ID'' i # encoded gz r ops"
  have "rp_body (reply m ?full) = concat (writes ?full)" using assms(2,3) by (simp add: reply_body [of m ?full] encoded_reply)
  moreover have "rp_body (reply m ops) = concat (writes ops)" using assms(2,3) by (simp add: reply_body)
  ultimately show ?thesis using assms(1) by (simp add: encoded_def writes_gzip gzip_ok_def)
qed

text \<open>A header that the operations do not touch keeps its value.\<close>

fun touches :: "string \<Rightarrow> wop \<Rightarrow> bool" where
  "touches k (SetHeader k' v) = (k' = k)"
| "touches k (DelHeader k') = (k' = k)"
| "touches k op = False"

definition holds_header :: "string \<Rightarrow> string option \<Rightarrow> conn \<Rightarrow> bool" where
  "holds_header k v c = (cn_header c k = v \<and> (\<forall>code h. cn_sent c = Some (code, h) \<longrightarrow> h k = v))"

lemma holds_send: "holds_header k v c \<Longrightarrow> holds_header k v (send_header code c)"
  by (auto simp: holds_header_def send_header_def)

lemma holds_step: "holds_header k v c \<Longrightarrow> \<not> touches k op \<Longrightarrow> holds_header k v (conn_step op c)"
  using holds_send [of k v c] by (cases op) (auto simp: Let_def, auto simp: holds_header_def)

lemma holds_ops: "holds_header k v c \<Longrightarrow> \<not> list_ex (touches k) ops \<Longrightarrow> holds_header k v (fold conn_step ops c)"
  by (induction ops arbitrary: c) (simp_all add: holds_step)

lemma touches_gzip: "list_ex (touches k) (gzip_ops gz g ops) = list_ex (touches k) ops"
  by (induction gz g ops rule: gzip_ops.induct) (simp_all split: prod.splits)

lemma kept_header:
  assumes "holds_header k v c" "\<not> list_ex (touches k) ops"
  shows "rp_header (finish m (fold conn_step ops c)) k = v"
  using holds_ops [OF assms] by (auto simp: finish_def holds_header_def split: option.splits prod.splits)

lemma request_id_header:
  assumes "\<not> list_ex (touches ''X-Request-ID'') ops"
  shows "rp_header (reply m (SetHeader ''X-Request-ID'' i # encoded gz r ops)) ''X-Request-ID'' = Some i"
proof -
  have "holds_header ''X-Request-ID'' (Some i) (conn_step (SetHeader ''X-Request-ID'' i) new_conn)"
    by (simp add: holds_header_def new_conn_def)
  moreover have "\<not> list_ex (touches ''X-Request-ID'') (encoded gz r ops)" using assms by (simp add: encoded_def touches_gzip)
  ultimately show ?thesis using kept_header by (simp add: reply_def)
qed

lemma encoding_header:
  assumes "\<not> list_ex (touches ''Content-Encoding'') ops" "accepts_gzip r"
  shows "rp_header (reply m (SetHeader ''X-Request-ID'' i # encoded gz r ops)) ''Content-Encoding'' = Some ''gzip''"
proof -
  let ?c = "conn_step (DelHeader ''Content-Length'') (conn_step (SetHeader ''Content-Encoding'' ''gzip'') (conn_step (SetHeader ''X-Request-ID'' i) new_conn))"
  have "holds_header ''Content-Encoding'' (Some ''gzip'') ?c" by (simp add: holds_header_def new_conn_def)
  moreover have "\<not> list_ex (touches ''Content-Encoding'') (gzip_ops gz (gz_new gz) ops)" using assms by (simp add: touches_gzip)
  ultimately have "rp_header (finish m (fold conn_step (gzip_ops gz (gz_new gz) ops) ?c)) ''Content-Encoding'' = Some ''gzip''" by (rule kept_header)
  then show ?thesis using assms(2) by (simp add: reply_def encoded_def)
qed

text \<open>A \<open>Content-Type\<close> is guessed for the same replies as without the middleware, but never for a compressed one.\<close>

lemma guessed_reply:
  assumes "\<not> list_ex (touches ''Content-Encoding'') ops"
  shows "rp_guessed (reply m (SetHeader ''X-Request-ID'' i # encoded gz r ops)) = (\<not> accepts_gzip r \<and> rp_guessed (reply m ops))"
proof (cases "accepts_gzip r")
  case True
  then show ?thesis using encoding_header [OF assms True, of m i gz] by (simp add: reply_guessed [of m "_ # _"] guesses_def)
next
  case False
  let ?full = "SetHeader ''X-Request-ID'' i # ops"
  have "encoded gz r ops = ops" "concat (writes ?full) = concat (writes ops)" using False by (simp_all add: encoded_def)
  moreover have "rp_code (reply m ?full) = rp_code (reply m ops)"
    using encoded_reply(1) [of m i gz r ops] False by (simp add: encoded_def)
  ultimately show ?thesis using False by (simp add: reply_guessed guesses_def plain_reply)
qed

text \<open>The logged status is the one sent if the handler sets it at most once and before it writes.\<close>

fun orderly :: "wop list \<Rightarrow> bool" where
  "orderly [] = True"
| "orderly (WriteHeader code # ops) = (200 \<le> code \<and> list_all (\<lambda>op. \<forall>code. op \<noteq> WriteHeader code) ops)"
| "orderly (Write b # ops) = list_all (\<lambda>op. \<forall>code. op \<noteq> WriteHeader code) ops"
| "orderly (op # ops) = orderly ops"

lemma status_kept: "list_all (\<lambda>op. \<forall>code. op \<noteq> WriteHeader code) ops \<Longrightarrow>
    fold (\<lambda>op st. case op of WriteHeader code \<Rightarrow> code | _ \<Rightarrow> st) ops st = st"
  by (induction ops) (auto split: wop.splits)

lemma orderly_code:
  assumes "orderly ops" "cn_sent c = None"
  shows "sent_code (fold conn_step ops c) = responseWriter_status ops"
  using assms
proof (induction ops arbitrary: c rule: orderly.induct)
  case (2 code ops)
  have "cn_sent (send_header code c) = Some (code, cn_header c)" using 2 by (simp add: send_header_def)
  then have "sent_code (fold conn_step ops (send_header code c)) = code" by (simp add: fold_code) (simp add: sent_code_def)
  then show ?case using 2 by (simp add: responseWriter_status_def status_kept)
next
  case (3 b ops)
  have "cn_sent (conn_step (Write b) c) = Some (200, cn_header c)" using 3 by (simp add: send_header_def Let_def)
  then have "sent_code (fold conn_step ops (conn_step (Write b) c)) = 200" by (simp add: fold_code del: conn_step.simps) (simp add: sent_code_def)
  then show ?case using 3 by (simp add: responseWriter_status_def status_kept)
qed (simp_all add: sent_code_def responseWriter_status_def)

lemma no_status_gzip:
  "list_all (\<lambda>op. \<forall>code. op \<noteq> WriteHeader code) (gzip_ops gz g ops) = list_all (\<lambda>op. \<forall>code. op \<noteq> WriteHeader code) ops"
  by (induction gz g ops rule: gzip_ops.induct) (simp_all split: prod.splits)

lemma orderly_gzip: "orderly ops \<Longrightarrow> orderly (gzip_ops gz g ops)"
  by (induction ops arbitrary: g rule: orderly.induct) (simp_all add: no_status_gzip split: prod.splits)

lemma orderly_encoded: "orderly ops \<Longrightarrow> orderly (encoded gz r ops)"
  by (simp add: encoded_def orderly_gzip)

lemma logged_status:
  assumes "orderly ops"
  shows "responseWriter_status (encoded gz r ops) = rp_code (reply m ops)"
proof -
  have "rp_code (reply m (SetHeader ''X-Request-ID'' [] # encoded gz r ops)) = responseWriter_status (SetHeader ''X-Request-ID'' [] # encoded gz r ops)"
    using orderly_encoded [OF assms, of gz r] orderly_code [of "SetHeader ''X-Request-ID'' [] # encoded gz r ops" new_conn]
    by (simp add: reply_def finish_code new_conn_def)
  then show ?thesis by (simp add: encoded_reply responseWriter_status_def)
qed

section \<open>An example compressor\<close>

text \<open>A format with a mark at the start, written with the first output, and one at the end.\<close>

definition ex_gzip :: "bool gzip" where
  "ex_gzip =
     \<lparr>gz_new = False, gz_write = (\<lambda>started b. (if started then b else ''GZ'' @ b, True)),
      gz_close = (\<lambda>started. if started then ''.'' else ''GZ.'')\<rparr>"

definition ex_gunzip :: "string \<Rightarrow> string option" where
  "ex_gunzip v = (if take 2 v = ''GZ'' \<and> drop 2 v \<noteq> [] then Some (butlast (drop 2 v)) else None)"

lemma ex_gzip_ok: "gzip_ok ex_gzip ex_gunzip"
proof -
  have s: "gz_stream ex_gzip True bs = concat bs @ ''.''" for bs by (induction bs) (simp_all add: ex_gzip_def)
  have "gz_stream ex_gzip False bs = ''GZ'' @ concat bs @ ''.''" for bs
  proof (cases bs)
    case (Cons b bs')
    have "gz_write ex_gzip False b = (''GZ'' @ b, True)" by (simp add: ex_gzip_def)
    then show ?thesis using s by (simp add: Cons)
  qed (simp add: ex_gzip_def)
  moreover have "gz_new ex_gzip = False" by (simp add: ex_gzip_def)
  ultimately show ?thesis by (simp add: gzip_ok_def ex_gunzip_def butlast_append)
qed

section \<open>Properties\<close>

text \<open>
  C18. What the middleware changes. The handler behind it gets the request with its body cut
  and an identifier, and a writer that is never an \<open>http.Hijacker\<close>. If the handler returns, the client gets the
  status it would have given alone with such a writer, all its headers but those that the
  middleware owns, and, unless it asked for \<open>HEAD\<close>, its body, compressed if and only if the client
  accepts \<open>gzip\<close>. The request identifier is added; a handler that sets no \<open>Content-Type\<close> gets the guess of
  \<open>net/http\<close> only without compression; the logged status is the one sent; and nothing else
  happens to the state.
\<close>

theorem middleware_transparent:
  assumes "gzip_ok gz gunzip" "admitted newID n r s = (r1, s1)"
    and "\<And>w'. \<not> is_Hijacker w' \<Longrightarrow> mux w' r1 s1 = \<lparr>sd_ops = ops, sd_log = lg, sd_out = Returned, sd_state = s2\<rparr>"
  shows "let d = middleware newID gz n mux w r s; full = reply (hr_Method r) (sd_ops d); plain = reply (hr_Method r) ops
    in sd_out d = Returned \<and> sd_state d = s2 \<and> rp_code full = rp_code plain \<and>
      (\<forall>k. k \<notin> mw_headers \<longrightarrow> rp_header full k = rp_header plain k) \<and>
      (\<not> list_ex (touches ''X-Request-ID'') ops \<longrightarrow> rp_header full ''X-Request-ID'' = Some (GetRequestID r1)) \<and>
      (if hr_Method r = ''HEAD'' then rp_body full = []
       else bodyAllowed (rp_code plain) \<longrightarrow> (if accepts_gzip r then gunzip else Some) (rp_body full) = Some (rp_body plain)) \<and>
      (\<not> list_ex (touches ''Content-Encoding'') ops \<longrightarrow> rp_guessed full = (\<not> accepts_gzip r \<and> rp_guessed plain)) \<and>
      (orderly ops \<longrightarrow> sd_log d = lg @ [LogRequest (hr_Method r) (hr_Path r) (rp_code full) (GetRequestID r1)])"
proof -
  note m = middleware_returned [where mux = mux, OF assms(2) assms(3) [OF wrapped_no_Hijacker]]
  have "hr_Method r \<noteq> ''HEAD'' \<Longrightarrow> bodyAllowed (rp_code (reply (hr_Method r) ops)) \<Longrightarrow>
      (if accepts_gzip r then gunzip else Some)
        (rp_body (reply (hr_Method r) (SetHeader ''X-Request-ID'' (GetRequestID r1) # encoded gz r1 ops))) =
      Some (rp_body (reply (hr_Method r) ops))"
    using encoded_body [OF assms(1), of "hr_Method r" ops r1] by (simp add: admitted_request [OF assms(2)])
  then show ?thesis
    by (simp add: m encoded_reply request_id_header logged_status guessed_reply reply_body [of "''HEAD''"] Let_def admitted_request [OF assms(2)])
qed

theorem middleware_transparent_witness:
  "let r = \<lparr>hr_Method = ''GET'', hr_Path = [''health''], hr_Query = (\<lambda>_. []),
             hr_Header = (\<lambda>k. if k = ''Accept-Encoding'' then ''deflate, gzip'' else []), hr_Body = None, hr_ctx = None\<rparr>;
       ops = [SetHeader ''Content-Type'' ''application/json'', WriteHeader 200, Write ''ok'', Write ''!''];
       d = middleware (\<lambda>s. (''id'', s)) ex_gzip 10 (\<lambda>w r s. \<lparr>sd_ops = ops, sd_log = [], sd_out = Returned, sd_state = s\<rparr>) Response r ()
   in rp_code (reply ''GET'' (sd_ops d)) = 200 \<and> ex_gunzip (rp_body (reply ''GET'' (sd_ops d))) = Some ''ok!'' \<and>
      sd_log d = [LogRequest ''GET'' [''health''] 200 ''id'']"
proof -
  let ?r = "\<lparr>hr_Method = ''GET'', hr_Path = [''health''], hr_Query = (\<lambda>_. []),
             hr_Header = (\<lambda>k. if k = ''Accept-Encoding'' then ''deflate, gzip'' else []), hr_Body = None, hr_ctx = None\<rparr>"
  let ?ops = "[SetHeader ''Content-Type'' ''application/json'', WriteHeader 200, Write ''ok'', Write ''!'']"
  let ?mux = "\<lambda>(w :: writer) (r :: http_request) s. \<lparr>sd_ops = ?ops, sd_log = [], sd_out = Returned, sd_state = s\<rparr>"
  have a: "admitted (\<lambda>s. (''id'', s)) 10 ?r () = (?r\<lparr>hr_ctx := Some ''id''\<rparr>, ())" by (simp add: admitted_def)
  have z: "accepts_gzip ?r" by (simp add: accepts_gzip_def)
  have p: "rp_code (reply ''GET'' ?ops) = 200" "rp_body (reply ''GET'' ?ops) = ''ok!''"
    by (simp_all add: reply_def finish_def send_header_def sent_code_def bodyAllowed_def new_conn_def Let_def)
  from middleware_transparent [OF ex_gzip_ok a, of ?mux ?ops "[]" "()" Response] show ?thesis
    using z p by (simp add: Let_def bodyAllowed_def GetRequestID_def)
qed

text \<open>
  C40. A panic and compression. A handler that panics before it has written anything is
  answered with 500 and the error text if the client does not accept \<open>gzip\<close>; if it does, the
  deferred \<open>Close\<close> of the compressor writes first, and the client gets 200, with the error
  text after an empty compressed stream (and no body at all for \<open>HEAD\<close>). Either way the server goes on.
\<close>

theorem panic_reply:
  assumes "admitted newID n r s = (r1, s1)"
    and "mux (wrapped r1 w) r1 s1 = \<lparr>sd_ops = [], sd_log = [], sd_out = Panicked, sd_state = s2\<rparr>"
  shows "let d = middleware newID gz n mux w r s; full = reply (hr_Method r) (sd_ops d)
    in sd_out d = Returned \<and> sd_log d = [LogPanic (GetRequestID r1)] \<and>
      rp_code full = (if accepts_gzip r then 200 else 500) \<and>
      rp_body full = (if hr_Method r = ''HEAD'' then []
        else (if accepts_gzip r then gz_close gz (gz_new gz) else []) @ ''{\"error\":\"internal server error\"}'' @ [CHR 0x0A])"
  by (simp add: middleware_panicked [where mux = mux, OF assms] encoded_def admitted_request [OF assms(1)] http_Error_def reply_def finish_def send_header_def
      sent_code_def bodyAllowed_def new_conn_def Let_def)

theorem panic_reply_witness:
  "let r = \<lparr>hr_Method = ''GET'', hr_Path = [''metrics''], hr_Query = (\<lambda>_. []), hr_Header = (\<lambda>k. ''gzip''), hr_Body = None, hr_ctx = None\<rparr>;
       d = middleware (\<lambda>s. (''id'', s)) ex_gzip 10 (\<lambda>w r s. \<lparr>sd_ops = [], sd_log = [], sd_out = Panicked, sd_state = s\<rparr>) Response r ()
   in rp_code (reply ''GET'' (sd_ops d)) = 200 \<and> rp_body (reply ''GET'' (sd_ops d)) = ''GZ.{\"error\":\"internal server error\"}'' @ [CHR 0x0A] \<and>
      sd_log d = [LogPanic ''gzip'']"
proof -
  let ?r = "\<lparr>hr_Method = ''GET'', hr_Path = [''metrics''], hr_Query = (\<lambda>_. []), hr_Header = (\<lambda>k. ''gzip''), hr_Body = None, hr_ctx = None\<rparr>"
  have a: "admitted (\<lambda>s. (''id'', s)) 10 ?r () = (?r\<lparr>hr_ctx := Some ''gzip''\<rparr>, ())" by (simp add: admitted_def)
  have z: "accepts_gzip ?r" by (simp add: accepts_gzip_def)
  from panic_reply [OF a, of "\<lambda>w r s. \<lparr>sd_ops = [], sd_log = [], sd_out = Panicked, sd_state = s\<rparr>" Response "()" ex_gzip]
  show ?thesis using z by (simp add: Let_def GetRequestID_def ex_gzip_def)
qed

end
