(* ===== verification/Router.thy ===== *)
theory Router
  imports Handlers Middleware
begin

text \<open>
  The router of \<open>internal/api/router.go\<close>: the patterns and their handlers, the choice that
  \<open>http.ServeMux\<close> makes between them, and the middleware around it.

  A path is the list of its segments, after the multiplexer has cleaned it (a path that is
  not clean is redirected before any pattern is tried); a trailing slash is a last segment
  \<open>/\<close>, which no wildcard matches. No two patterns of the service match the same request, so
  that the precedence rules of \<open>ServeMux\<close> do not matter (\<open>routes_unambiguous\<close>).

  The JSON encoding of responses, the decoding of bodies and \<open>websocket.Accept\<close> (of
  \<open>github.com/coder/websocket\<close>) are parameters; \<open>Accept\<close> is told whether its writer is an \<open>http.Hijacker\<close>. Beside the database, the queue and the template cache the API process has a
  hub and a metrics collector of its own.
\<close>

section \<open>Routes\<close>

datatype seg = Lit string | Wild string

datatype endpoint =
    Health | Ready | Metrics | Upgrade
  | NotifCreate | NotifBatchCreate | NotifGet | NotifGetBatch | NotifCancel | NotifList
  | TmplCreate | TmplGet | TmplUpdate | TmplDelete | TmplList

definition routes :: "(string \<times> seg list \<times> endpoint) list" where
  "routes =
    [(''GET'', [Lit ''health''], Health),
     (''GET'', [Lit ''ready''], Ready),
     (''GET'', [Lit ''metrics''], Metrics),
     (''GET'', [Lit ''ws'', Lit ''notifications''], Upgrade),
     (''POST'', [Lit ''api'', Lit ''v1'', Lit ''notifications''], NotifCreate),
     (''POST'', [Lit ''api'', Lit ''v1'', Lit ''notifications'', Lit ''batch''], NotifBatchCreate),
     (''GET'', [Lit ''api'', Lit ''v1'', Lit ''notifications'', Wild ''id''], NotifGet),
     (''GET'', [Lit ''api'', Lit ''v1'', Lit ''notifications'', Lit ''batch'', Wild ''batch_id''], NotifGetBatch),
     (''POST'', [Lit ''api'', Lit ''v1'', Lit ''notifications'', Wild ''id'', Lit ''cancel''], NotifCancel),
     (''GET'', [Lit ''api'', Lit ''v1'', Lit ''notifications''], NotifList),
     (''POST'', [Lit ''api'', Lit ''v1'', Lit ''templates''], TmplCreate),
     (''GET'', [Lit ''api'', Lit ''v1'', Lit ''templates'', Wild ''id''], TmplGet),
     (''PUT'', [Lit ''api'', Lit ''v1'', Lit ''templates'', Wild ''id''], TmplUpdate),
     (''DELETE'', [Lit ''api'', Lit ''v1'', Lit ''templates'', Wild ''id''], TmplDelete),
     (''GET'', [Lit ''api'', Lit ''v1'', Lit ''templates''], TmplList)]"

text \<open>The values of the wildcards, if the path matches.\<close>

fun match_path :: "seg list \<Rightarrow> string list \<Rightarrow> (string \<times> string) list option" where
  "match_path [] [] = Some []"
| "match_path (Lit x # ps) (y # ys) = (if x = y then match_path ps ys else None)"
| "match_path (Wild k # ps) (y # ys) =
     (if y = ''/'' then None else case match_path ps ys of None \<Rightarrow> None | Some vs \<Rightarrow> Some ((k, y) # vs))"
| "match_path _ _ = None"

definition match_method :: "string \<Rightarrow> string \<Rightarrow> bool" where
  "match_method pat m = (pat = m \<or> pat = ''GET'' \<and> m = ''HEAD'')"

definition route_matches :: "string \<Rightarrow> string list \<Rightarrow> string \<times> seg list \<times> endpoint \<Rightarrow> bool" where
  "route_matches m p rt = (match_method (fst rt) m \<and> match_path (fst (snd rt)) p \<noteq> None)"

definition find_route :: "string \<Rightarrow> string list \<Rightarrow> (endpoint \<times> (string \<times> string) list) option" where
  "find_route m p =
     (case filter (route_matches m p) routes of
        [] \<Rightarrow> None
      | (_, pat, e) # _ \<Rightarrow> (case match_path pat p of None \<Rightarrow> None | Some vs \<Rightarrow> Some (e, vs)))"

text \<open>The methods for which the path has a handler, in alphabetical order.\<close>

definition allowedMethods :: "string list \<Rightarrow> string list" where
  "allowedMethods p = filter (\<lambda>m. \<exists>rt \<in> set routes. route_matches m p rt) [''DELETE'', ''GET'', ''HEAD'', ''POST'', ''PUT'']"

fun Join :: "string list \<Rightarrow> string \<Rightarrow> string" where
  "Join [] sep = []"
| "Join [x] sep = x"
| "Join (x # y # xs) sep = x @ sep @ Join (y # xs) sep"

section \<open>The API server\<close>

record web =
  wb_Encode :: "body \<Rightarrow> string"
  wb_notification :: "reader option \<Rightarrow> createNotificationRequest result"
  wb_batch :: "reader option \<Rightarrow> createNotificationRequest list result"
  wb_template :: "reader option \<Rightarrow> createTemplateRequest result"
  wb_Accept :: "bool \<Rightarrow> http_request \<Rightarrow> err option \<times> wop list"

record ('p, 'r, 'h, 'm) server =
  sr_state :: "('p, 'r, 'h, 'm) api_state"
  sr_hub :: hub
  sr_metrics :: metrics

definition PathValue :: "(string \<times> string) list \<Rightarrow> string \<Rightarrow> string" where
  "PathValue vs k = (case map_of vs k of Some v \<Rightarrow> v | None \<Rightarrow> [])"

fun endpoint_request :: "web \<Rightarrow> http_request \<Rightarrow> (string \<times> string) list \<Rightarrow> endpoint \<Rightarrow> api_request option" where
  "endpoint_request wb r vs NotifCreate = Some (PostNotification (wb_notification wb (hr_Body r)))"
| "endpoint_request wb r vs NotifBatchCreate = Some (PostBatch (wb_batch wb (hr_Body r)))"
| "endpoint_request wb r vs NotifGet = Some (GetNotification (PathValue vs ''id''))"
| "endpoint_request wb r vs NotifGetBatch = Some (GetBatch (PathValue vs ''batch_id''))"
| "endpoint_request wb r vs NotifCancel = Some (PostCancel (PathValue vs ''id''))"
| "endpoint_request wb r vs NotifList = Some (GetNotifications (hr_Query r))"
| "endpoint_request wb r vs TmplCreate = Some (PostTemplate (wb_template wb (hr_Body r)))"
| "endpoint_request wb r vs TmplGet = Some (GetTemplate (PathValue vs ''id''))"
| "endpoint_request wb r vs TmplUpdate = Some (PutTemplate (PathValue vs ''id'') (wb_template wb (hr_Body r)))"
| "endpoint_request wb r vs TmplDelete = Some (DeleteTemplate (PathValue vs ''id''))"
| "endpoint_request wb r vs TmplList = Some GetTemplates"
| "endpoint_request wb r vs Ready = Some GetReady"
| "endpoint_request wb r vs Health = None"
| "endpoint_request wb r vs Metrics = None"
| "endpoint_request wb r vs Upgrade = None"

text \<open>A response on the wire: \<open>writeJSON\<close>, or \<open>WriteHeader\<close> alone when there is no body.\<close>

definition wire :: "web \<Rightarrow> response \<Rightarrow> wop list" where
  "wire wb r =
     (if rs_body r = NoBody then [WriteHeader (rs_code r)]
      else [SetHeader ''Content-Type'' ''application/json'', WriteHeader (rs_code r), Write (wb_Encode wb (rs_body r))])"

definition answered :: "wop list \<Rightarrow> 's \<Rightarrow> 's served" where
  "answered ops s = \<lparr>sd_ops = ops, sd_log = [], sd_out = Returned, sd_state = s\<rparr>"

text \<open>A new WebSocket client is known by the value of the tick counter.\<close>

definition serve_endpoint ::
  "web \<Rightarrow> ('p, 'r, 'h, 'm) api \<Rightarrow> endpoint \<Rightarrow> (string \<times> string) list \<Rightarrow> ('p, 'r, 'h, 'm) server handler" where
  "serve_endpoint wb a e vs wr r s =
     (case endpoint_request wb r vs e of
        Some q \<Rightarrow> (let (rs, st) = api_exec a q (sr_state s) in answered (wire wb rs) (s\<lparr>sr_state := st\<rparr>))
      | None \<Rightarrow>
          (case e of
             Metrics \<Rightarrow> answered (wire wb (MetricsHandler_Metrics (sr_hub s) (sr_metrics s))) s
           | Upgrade \<Rightarrow>
               (let (w, cache) = sr_state s; (x, ops) = wb_Accept wb (is_Hijacker wr) r
                in answered ops (s\<lparr>sr_state := (advance 1 w, cache), sr_hub := WebSocketHandler_Upgrade x (w_tick w) (sr_hub s)\<rparr>))
           | _ \<Rightarrow> answered (wire wb HealthHandler_Health) s))"

definition mux :: "web \<Rightarrow> ('p, 'r, 'h, 'm) api \<Rightarrow> ('p, 'r, 'h, 'm) server handler" where
  "mux wb a wr r s =
     (case find_route (hr_Method r) (hr_Path r) of
        Some (e, vs) \<Rightarrow> serve_endpoint wb a e vs wr r s
      | None \<Rightarrow>
          (case allowedMethods (hr_Path r) of
             [] \<Rightarrow> answered (http_Error ''404 page not found'' 404) s
           | ms \<Rightarrow> answered (SetHeader ''Allow'' (Join ms '', '') # http_Error ''Method Not Allowed'' 405) s))"

text \<open>
  What the documentation of \<open>websocket.Accept\<close> promises and its release 1.8.14 does for a writer
  that has neither \<open>Hijack\<close> nor \<open>Unwrap\<close>: it answers the request itself, after some headers, with an error status, and
  returns an error.
\<close>

definition accept_needs_Hijacker :: "web \<Rightarrow> bool" where
  "accept_needs_Hijacker wb =
     (\<forall>r. \<exists>e hs msg code. wb_Accept wb False r = (Some e, map (\<lambda>h. SetHeader (fst h) (snd h)) hs @ http_Error msg code) \<and> 400 \<le> code)"

definition uuid_New :: "('p, 'r, 'h, 'm) api \<Rightarrow> ('p, 'r, 'h, 'm) server \<Rightarrow> string \<times> ('p, 'r, 'h, 'm) server" where
  "uuid_New a s =
     (env_uuid (sv_env (api_sv a)) (w_tick (fst (sr_state s))), s\<lparr>sr_state := (advance 1 (fst (sr_state s)), snd (sr_state s))\<rparr>)"

definition maxBody :: nat where
  "maxBody = 5 * 2 ^ 20"

definition NewRouter :: "web \<Rightarrow> 'g gzip \<Rightarrow> ('p, 'r, 'h, 'm) api \<Rightarrow> ('p, 'r, 'h, 'm) server handler" where
  "NewRouter wb gz a = middleware (uuid_New a) gz maxBody (mux wb a)"

section \<open>Lemmas\<close>

text \<open>Every status of a handler is a final one, so that the reply has it.\<close>

lemma codes:
  "rs_code (writeJSON code b) = code" "rs_body (writeJSON code b) = b" "rs_code (writeError code m) = code" "rs_body (writeError code m) = ErrorBody m"
  by (simp_all add: writeJSON_def writeError_def)

lemmas handler_defs = NotificationHandler_Create_def NotificationHandler_BatchCreate_def NotificationHandler_Get_def
  NotificationHandler_GetBatch_def NotificationHandler_Cancel_def NotificationHandler_List_def TemplateHandler_Create_def
  TemplateHandler_Get_def TemplateHandler_Update_def TemplateHandler_Delete_def TemplateHandler_List_def HealthHandler_Ready_def

lemma api_exec_code: "200 \<le> rs_code (fst (api_exec a q st))"
  by (cases st; cases q) (auto simp: handler_defs keep_cache_def codes Let_def split: sum.splits option.splits prod.splits)

lemma wire_reply:
  assumes "200 \<le> rs_code r"
  shows "rp_code (reply m (wire wb r)) = rs_code r" "orderly (wire wb r)" "\<not> list_ex (touches ''X-Request-ID'') (wire wb r)"
  using assms by (simp_all add: wire_def reply_def finish_def send_header_def sent_code_def new_conn_def Let_def split: option.splits)

lemma mux_orderly:
  assumes "\<And>e vs. find_route (hr_Method r) (hr_Path r) = Some (e, vs) \<Longrightarrow> e \<noteq> Upgrade"
  shows "\<exists>ops s1. mux wb a wr r s = answered ops s1 \<and> orderly ops \<and> \<not> list_ex (touches ''X-Request-ID'') ops"
proof (cases "find_route (hr_Method r) (hr_Path r)")
  case None
  then show ?thesis by (cases "allowedMethods (hr_Path r)") (auto simp: mux_def answered_def http_Error_def)
next
  case (Some ev)
  obtain e vs where e: "ev = (e, vs)" by fastforce
  then have e': "e \<noteq> Upgrade" using assms Some by simp
  show ?thesis
  proof (cases "endpoint_request wb r vs e")
    case None
    have "200 \<le> rs_code HealthHandler_Health" "200 \<le> rs_code (MetricsHandler_Metrics (sr_hub s) (sr_metrics s))"
      by (simp_all add: HealthHandler_Health_def MetricsHandler_Metrics_def codes)
    then show ?thesis using Some e None e' wire_reply(2,3) by (cases e) (auto simp: mux_def serve_endpoint_def)
  next
    case q: (Some q)
    show ?thesis using Some e q wire_reply(2,3) [OF api_exec_code [of a q "sr_state s"], of wb]
      by (auto simp: mux_def serve_endpoint_def split: prod.splits)
  qed
qed

text \<open>What a pattern matches, segment by segment.\<close>

fun seg_ok :: "seg \<Rightarrow> string \<Rightarrow> bool" where
  "seg_ok (Lit x) y = (x = y)"
| "seg_ok (Wild k) y = (y \<noteq> ''/'')"

lemma match_path_iff: "match_path ps p \<noteq> None \<longleftrightarrow> list_all2 seg_ok ps p"
  by (induction ps p rule: match_path.induct) (auto split: option.splits)

text \<open>Two patterns for the same method differ in length or in a literal.\<close>

fun seg_apart :: "seg \<Rightarrow> seg \<Rightarrow> bool" where
  "seg_apart (Lit x) (Lit y) = (x \<noteq> y)"
| "seg_apart _ _ = False"

fun segs_apart :: "seg list \<Rightarrow> seg list \<Rightarrow> bool" where
  "segs_apart [] [] = False"
| "segs_apart (x # xs) (y # ys) = (seg_apart x y \<or> segs_apart xs ys)"
| "segs_apart _ _ = True"

definition apart :: "string \<times> seg list \<times> endpoint \<Rightarrow> string \<times> seg list \<times> endpoint \<Rightarrow> bool" where
  "apart x y = (fst x \<noteq> fst y \<and> fst x \<noteq> ''HEAD'' \<and> fst y \<noteq> ''HEAD'' \<or> segs_apart (fst (snd x)) (fst (snd y)))"

lemma seg_apart_ok: "seg_apart x y \<Longrightarrow> seg_ok x v \<Longrightarrow> \<not> seg_ok y v"
  by (cases "(x, y)" rule: seg_apart.cases) auto

lemma segs_apart_ok: "segs_apart xs ys \<Longrightarrow> list_all2 seg_ok xs p \<Longrightarrow> \<not> list_all2 seg_ok ys p"
  by (induction xs ys arbitrary: p rule: segs_apart.induct) (auto simp: list_all2_Cons1 dest: seg_apart_ok)

lemma apart_matches:
  assumes "apart x y" "route_matches m p x"
  shows "\<not> route_matches m p y"
proof
  assume y: "route_matches m p y"
  have l: "list_all2 seg_ok (fst (snd x)) p" "list_all2 seg_ok (fst (snd y)) p"
    using assms(2) y unfolding route_matches_def match_path_iff by blast+
  moreover have "\<not> (fst x \<noteq> fst y \<and> fst x \<noteq> ''HEAD'' \<and> fst y \<noteq> ''HEAD'')"
    using assms(2) y unfolding route_matches_def match_method_def by metis
  ultimately show False using assms(1) segs_apart_ok unfolding apart_def by blast
qed

lemma routes_apart: "sorted_wrt apart routes"
  by (simp add: routes_def apart_def)

lemma apart_filter:
  assumes "sorted_wrt apart xs"
  shows "length (filter (route_matches m p) xs) \<le> 1"
  using assms
proof (induction xs)
  case (Cons x xs)
  show ?case
  proof (cases "route_matches m p x")
    case True
    then have "filter (route_matches m p) xs = []" unfolding filter_empty_conv using Cons.prems apart_matches [OF _ True] by fastforce
    then show ?thesis by simp
  qed (use Cons in simp)
qed simp

section \<open>Properties\<close>

text \<open>
  The routes are unambiguous: at most one pattern matches a method and a path, so that
  the handler of a request does not depend on the order of the registrations or on the
  precedence of patterns.
\<close>

theorem routes_unambiguous: "length (filter (route_matches m p) routes) \<le> 1"
  by (rule apart_filter [OF routes_apart])

text \<open>
  A handler of the API on the state of the server: with the template cache, or on the stores alone.
\<close>

definition in_api ::
  "(('p, 'r, 'h, 'm) api_state \<Rightarrow> response \<times> ('p, 'r, 'h, 'm) api_state) \<Rightarrow>
     ('p, 'r, 'h, 'm) server \<Rightarrow> response \<times> ('p, 'r, 'h, 'm) server" where
  "in_api f s = (let (rs, st) = f (sr_state s) in (rs, s\<lparr>sr_state := st\<rparr>))"

definition in_stores ::
  "(('p, 'r, 'h) world \<Rightarrow> response \<times> ('p, 'r, 'h) world) \<Rightarrow>
     ('p, 'r, 'h, 'm) server \<Rightarrow> response \<times> ('p, 'r, 'h, 'm) server" where
  "in_stores f s = (let (rs, w) = f (fst (sr_state s)) in (rs, s\<lparr>sr_state := (w, snd (sr_state s))\<rparr>))"

text \<open>
  The API as \<open>openapi.yaml\<close> documents it: method, path and handler, for an identifier \<open>i\<close> in
  the path, the query and the body. The WebSocket is apart.
\<close>

definition documented ::
  "web \<Rightarrow> ('p, 'r, 'h, 'm) api \<Rightarrow> string \<Rightarrow> (string \<Rightarrow> string) \<Rightarrow> reader option \<Rightarrow>
     (string \<times> string list \<times> (('p, 'r, 'h, 'm) server \<Rightarrow> response \<times> ('p, 'r, 'h, 'm) server)) list" where
  "documented wb a i query body =
    [(''GET'', [''health''], \<lambda>s. (HealthHandler_Health, s)),
     (''GET'', [''ready''], in_stores (HealthHandler_Ready a)),
     (''GET'', [''metrics''], \<lambda>s. (MetricsHandler_Metrics (sr_hub s) (sr_metrics s), s)),
     (''POST'', [''api'', ''v1'', ''notifications''], in_api (NotificationHandler_Create a (wb_notification wb body))),
     (''GET'', [''api'', ''v1'', ''notifications''], in_stores (NotificationHandler_List a query)),
     (''POST'', [''api'', ''v1'', ''notifications'', ''batch''], in_api (NotificationHandler_BatchCreate a (wb_batch wb body))),
     (''GET'', [''api'', ''v1'', ''notifications'', ''batch'', i], in_stores (NotificationHandler_GetBatch a i)),
     (''GET'', [''api'', ''v1'', ''notifications'', i], in_stores (NotificationHandler_Get a i)),
     (''POST'', [''api'', ''v1'', ''notifications'', i, ''cancel''], in_stores (NotificationHandler_Cancel a i)),
     (''POST'', [''api'', ''v1'', ''templates''], in_stores (TemplateHandler_Create a (wb_template wb body))),
     (''GET'', [''api'', ''v1'', ''templates''], in_stores (TemplateHandler_List a)),
     (''GET'', [''api'', ''v1'', ''templates'', i], in_stores (TemplateHandler_Get a i)),
     (''PUT'', [''api'', ''v1'', ''templates'', i], in_stores (TemplateHandler_Update a i (wb_template wb body))),
     (''DELETE'', [''api'', ''v1'', ''templates'', i], in_stores (TemplateHandler_Delete a i))]"

lemmas find_defs = find_route_def routes_def route_matches_def match_method_def

lemma find_HEAD: "find_route ''HEAD'' p = find_route ''GET'' p"
proof -
  have "route_matches ''HEAD'' p rt = route_matches ''GET'' p rt" if "rt \<in> set routes" for rt
    using that by (auto simp: routes_def route_matches_def match_method_def)
  then have "filter (route_matches ''HEAD'' p) routes = filter (route_matches ''GET'' p) routes" by (rule filter_cong [OF refl])
  then show ?thesis by (simp only: find_route_def)
qed

lemma routed:
  assumes "(m, p, act) \<in> set (documented wb a i query body)" "i \<noteq> ''/''" "act s = (rs, s2)" "hr_Query r = query" "hr_Body r = body"
  shows "\<exists>e vs. find_route m p = Some (e, vs) \<and> serve_endpoint wb a e vs wr r s = answered (wire wb rs) s2"
proof -
  obtain w cache where st: "sr_state s = (w, cache)" by fastforce
  note defs = find_defs assms(2,4,5) st serve_endpoint_def PathValue_def keep_cache_def
  from assms(1) show ?thesis
    unfolding documented_def set_simps
    by (elim insertE emptyE; use assms(3) in \<open>auto simp: in_api_def in_stores_def defs split: prod.splits\<close>)
qed

lemma documented_code:
  assumes "(m, p, act) \<in> set (documented wb a i query body)" "act s = (rs, s2)"
  shows "200 \<le> rs_code rs"
  using assms unfolding documented_def set_simps
  by (elim insertE emptyE)
    (auto simp: in_api_def in_stores_def handler_defs HealthHandler_Health_def MetricsHandler_Metrics_def codes Let_def
      split: sum.splits option.splits prod.splits if_splits)

text \<open>
  C17. From the request on the wire to the handler and back. For each method and path of the
  documented API its handler runs once, on the identifier of the path, the query, or the body
  cut at 5 MB, and nothing else happens to the state. The reply has the status and the JSON of
  the handler's response, compressed if the client accepts it, and the request identifier. A
  \<open>HEAD\<close> request is served as the \<open>GET\<close> of its path, without the body. One line is logged, with the
  status sent.
\<close>

theorem http_served:
  assumes "gzip_ok gz gunzip" "admitted (uuid_New a) maxBody r s = (r1, s1)" "i \<noteq> ''/''"
    and "(if hr_Method r = ''HEAD'' then ''GET'' else hr_Method r, hr_Path r, act)
      \<in> set (documented wb a i (hr_Query r) (map_option (MaxBytesReader (5 * 1024 * 1024)) (hr_Body r)))"
    and "act s1 = (rs, s2)"
  shows "let d = NewRouter wb gz a wr r s; full = reply (hr_Method r) (sd_ops d)
    in sd_state d = s2 \<and> rp_code full = rs_code rs \<and> rp_header full ''X-Request-ID'' = Some (GetRequestID r1) \<and>
      (rs_body rs \<noteq> NoBody \<longrightarrow> rp_header full ''Content-Type'' = Some ''application/json'') \<and>
      (if hr_Method r = ''HEAD'' then rp_body full = []
       else rs_body rs \<noteq> NoBody \<and> bodyAllowed (rs_code rs) \<longrightarrow>
        (if accepts_gzip r then gunzip else Some) (rp_body full) = Some (wb_Encode wb (rs_body rs))) \<and>
      sd_log d = [LogRequest (hr_Method r) (hr_Path r) (rs_code rs) (GetRequestID r1)]"
proof -
  let ?m = "hr_Method r" and ?wr = "wrapped r1 wr"
  note ad = admitted_request [OF assms(2)]
  have max: "maxBody = 5 * 1024 * 1024" by (simp add: maxBody_def)
  have code: "200 \<le> rs_code rs" by (rule documented_code [OF assms(4,5)])
  note w = wire_reply [OF code]
  obtain e vs where e: "find_route (if ?m = ''HEAD'' then ''GET'' else ?m) (hr_Path r) = Some (e, vs)"
    "serve_endpoint wb a e vs ?wr r1 s1 = answered (wire wb rs) s2"
    using routed [OF assms(4,3,5), of r1 ?wr] ad max by auto
  then have "find_route ?m (hr_Path r) = Some (e, vs)" using find_HEAD by (simp split: if_splits)
  then have m: "mux wb a ?wr r1 s1 = \<lparr>sd_ops = wire wb rs, sd_log = [], sd_out = Returned, sd_state = s2\<rparr>"
    using e(2) by (simp add: mux_def answered_def ad)
  note mw = middleware_returned [where mux = "mux wb a", OF assms(2) m]
  have ct: "rs_body rs \<noteq> NoBody \<Longrightarrow> rp_header (reply ?m (wire wb rs)) ''Content-Type'' = Some ''application/json''"
    using code by (simp add: wire_def reply_def finish_def send_header_def new_conn_def Let_def)
  have "?m \<noteq> ''HEAD'' \<Longrightarrow> rs_body rs \<noteq> NoBody \<Longrightarrow> bodyAllowed (rs_code rs) \<Longrightarrow> rp_body (reply ?m (wire wb rs)) = wb_Encode wb (rs_body rs)"
    unfolding reply_body w(1) by (simp add: wire_def)
  then show ?thesis
    using w ct encoded_body [OF assms(1), of ?m "wire wb rs" r1 "GetRequestID r1"]
    by (simp add: NewRouter_def mw encoded_reply request_id_header logged_status [where m = ?m] ad reply_body [of "''HEAD''"] mw_headers_def Let_def)
qed

definition ex_web :: web where
  "ex_web =
     \<lparr>wb_Encode = (\<lambda>b. case b of ErrorBody m \<Rightarrow> m | _ \<Rightarrow> ''{}''), wb_notification = (\<lambda>_. Inl (Err ''EOF'')), wb_batch = (\<lambda>_. Inl (Err ''EOF'')),
      wb_template = (\<lambda>_. Inl (Err ''EOF'')), 
      wb_Accept = (\<lambda>hijacker r. if hijacker then (None, [WriteHeader 101]) else (Some (Err ''no Hijacker''), http_Error ''Not Implemented'' 501))\<rparr>"

definition ex_http :: "string \<Rightarrow> string list \<Rightarrow> http_request" where
  "ex_http m p =
     \<lparr>hr_Method = m, hr_Path = p, hr_Query = (\<lambda>_. []), hr_Header = (\<lambda>k. if k = ''X-Request-ID'' then ''r-1'' else ''gzip''),
      hr_Body = Some ([], None), hr_ctx = None\<rparr>"

lemma ex_admitted: "admitted (uuid_New a) n (ex_http m p) s = ((ex_http m p)\<lparr>hr_ctx := Some ''r-1''\<rparr>, s)" "accepts_gzip (ex_http m p)"
  by (simp_all add: admitted_def ex_http_def MaxBytesReader_def accepts_gzip_def)

theorem http_served_witness:
  "\<forall>(a :: ('p, 'r, 'h, 'm) api) s. let full = reply ''POST'' (sd_ops (NewRouter ex_web ex_gzip a Response (ex_http ''POST'' [''api'', ''v1'', ''notifications'']) s))
   in rp_code full = 400 \<and> ex_gunzip (rp_body full) = Some ''invalid request body'' \<and> rp_header full ''X-Request-ID'' = Some ''r-1''"
proof (intro allI)
  fix a :: "('p, 'r, 'h, 'm) api" and s :: "('p, 'r, 'h, 'm) server"
  let ?r = "ex_http ''POST'' [''api'', ''v1'', ''notifications'']" and ?b = "map_option (MaxBytesReader (5 * 1024 * 1024)) (Some ([], None))"
  let ?act = "in_api (NotificationHandler_Create a (wb_notification ex_web ?b)) :: ('p, 'r, 'h, 'm) server \<Rightarrow> _"
  have q: "?act s = (writeError 400 ''invalid request body'', s)"
    by (cases "sr_state s") (simp add: NotificationHandler_Create_def in_api_def ex_web_def)
  have d: "(if hr_Method ?r = ''HEAD'' then ''GET'' else hr_Method ?r, hr_Path ?r, ?act)
      \<in> set (documented ex_web a ''7'' (hr_Query ?r) (map_option (MaxBytesReader (5 * 1024 * 1024)) (hr_Body ?r)))"
    by (simp add: ex_http_def documented_def)
  have m: "hr_Method ?r = ''POST''" by (simp add: ex_http_def)
  from http_served [OF ex_gzip_ok ex_admitted(1) _ d q, of Response]
  show "let full = reply ''POST'' (sd_ops (NewRouter ex_web ex_gzip a Response ?r s))
    in rp_code full = 400 \<and> ex_gunzip (rp_body full) = Some ''invalid request body'' \<and> rp_header full ''X-Request-ID'' = Some ''r-1''"
    by (simp add: Let_def codes bodyAllowed_def ex_admitted(2) GetRequestID_def m) (simp add: ex_web_def)
qed

text \<open>The state of the server after a request.\<close>

definition served_state :: "web \<Rightarrow> 'g gzip \<Rightarrow> ('p, 'r, 'h, 'm) api \<Rightarrow> http_request \<Rightarrow> ('p, 'r, 'h, 'm) server \<Rightarrow> ('p, 'r, 'h, 'm) server" where
  "served_state wb gz a r s = sd_state (NewRouter wb gz a Response r s)"

lemma served_hub:
  assumes "accept_needs_Hijacker wb"
  shows "sr_hub (sd_state (NewRouter wb gz a wr r s)) = sr_hub s"
proof -
  obtain r1 s1 where ad: "admitted (uuid_New a) maxBody r s = (r1, s1)" by fastforce
  then have s1: "sr_hub s1 = sr_hub s" by (auto simp: admitted_def uuid_New_def Let_def split: if_splits)
  let ?wr = "wrapped r1 wr"
  have acc: "\<exists>x ops. wb_Accept wb (is_Hijacker ?wr) r1 = (Some x, ops)"
    using assms wrapped_no_Hijacker [of r1 wr] unfolding accept_needs_Hijacker_def by (metis (full_types))
  have serve: "sd_out (serve_endpoint wb a e vs ?wr r1 s1) = Returned \<and> sr_hub (sd_state (serve_endpoint wb a e vs ?wr r1 s1)) = sr_hub s1" for e vs
    using acc by (cases e) (auto simp: serve_endpoint_def answered_def WebSocketHandler_Upgrade_def Let_def split: prod.splits)
  have "sd_out (mux wb a ?wr r1 s1) = Returned \<and> sr_hub (sd_state (mux wb a ?wr r1 s1)) = sr_hub s1"
    using serve by (simp add: mux_def answered_def split: option.splits prod.splits list.splits)
  then obtain ops lg s2 where m: "mux wb a ?wr r1 s1 = \<lparr>sd_ops = ops, sd_log = lg, sd_out = Returned, sd_state = s2\<rparr>" "sr_hub s2 = sr_hub s1"
    by (cases "mux wb a ?wr r1 s1") simp
  show ?thesis using m(2) s1 by (simp add: NewRouter_def middleware_returned [where mux = "mux wb a", OF ad m(1)])
qed

text \<open>
  C37. No client can connect to the WebSocket. The response writer that the middleware hands to the
  upgrade is never an \<open>http.Hijacker\<close>, so \<open>websocket.Accept\<close> refuses it: whatever requests are sent, in any
  order, no client is ever registered in the hub, and \<open>GET /ws/notifications\<close> is answered with an error.
\<close>

theorem websocket_refused:
  assumes "accept_needs_Hijacker wb"
  shows "sr_hub (fold (served_state wb gz a) rs s) = sr_hub s \<and>
    (hr_Path r = [''ws'', ''notifications''] \<and> hr_Method r = ''GET'' \<longrightarrow> 400 \<le> rp_code (reply ''GET'' (sd_ops (NewRouter wb gz a wr r s))))"
proof (intro conjI impI)
  show "sr_hub (fold (served_state wb gz a) rs s) = sr_hub s"
    by (induction rs arbitrary: s) (simp_all add: served_state_def served_hub [OF assms])
next
  assume r: "hr_Path r = [''ws'', ''notifications''] \<and> hr_Method r = ''GET''"
  obtain r1 s1 where ad: "admitted (uuid_New a) maxBody r s = (r1, s1)" by fastforce
  let ?wr = "wrapped r1 wr"
  obtain e hs msg code where acc: "wb_Accept wb (is_Hijacker ?wr) r1 = (Some e, map (\<lambda>h. SetHeader (fst h) (snd h)) hs @ http_Error msg code)" "400 \<le> code"
    using assms wrapped_no_Hijacker [of r1 wr] unfolding accept_needs_Hijacker_def by (metis (full_types))
  let ?ops = "map (\<lambda>h. SetHeader (fst h) (snd h)) hs @ http_Error msg code"
  have f: "find_route ''GET'' [''ws'', ''notifications''] = Some (Upgrade, [])" by (simp add: find_defs)
  obtain s2 where m: "mux wb a ?wr r1 s1 = \<lparr>sd_ops = ?ops, sd_log = [], sd_out = Returned, sd_state = s2\<rparr>"
    using r acc(1) f by (cases "sr_state s1") (simp add: mux_def serve_endpoint_def answered_def admitted_request [OF ad] Let_def)
  have "cn_sent (fold conn_step (map (\<lambda>h. SetHeader (fst h) (snd h)) hs) c) = cn_sent c" for c by (induction hs arbitrary: c) auto
  then have "rp_code (reply ''GET'' ?ops) = code"
    using acc(2) by (simp add: reply_def finish_code http_Error_def send_header_def sent_code_def new_conn_def Let_def)
  then show "400 \<le> rp_code (reply ''GET'' (sd_ops (NewRouter wb gz a wr r s)))"
    using acc(2) by (simp add: NewRouter_def middleware_returned [where mux = "mux wb a", OF ad m] encoded_reply)
qed

theorem websocket_refused_witness:
  "\<forall>(a :: ('p, 'r, 'h, 'm) api) s. sr_hub (fold (served_state ex_web ex_gzip a) [ex_http ''GET'' [''ws'', ''notifications'']] s) = sr_hub s \<and>
     400 \<le> rp_code (reply ''GET'' (sd_ops (NewRouter ex_web ex_gzip a Response (ex_http ''GET'' [''ws'', ''notifications'']) s)))"
proof (intro allI)
  fix a :: "('p, 'r, 'h, 'm) api" and s :: "('p, 'r, 'h, 'm) server"
  let ?r = "ex_http ''GET'' [''ws'', ''notifications'']"
  have n: "\<exists>e hs msg code. wb_Accept ex_web False r = (Some e, map (\<lambda>h. SetHeader (fst h) (snd h)) hs @ http_Error msg code) \<and> 400 \<le> code" for r
    by (intro exI [of _ "Err ''no Hijacker''"] exI [of _ "[]"] exI [of _ "''Not Implemented''"] exI [of _ "501 :: int"]) (simp add: ex_web_def)
  have "accept_needs_Hijacker ex_web" unfolding accept_needs_Hijacker_def using n by blast
  from websocket_refused [OF this, of ex_gzip a "[?r]" s ?r Response]
  show "sr_hub (fold (served_state ex_web ex_gzip a) [?r] s) = sr_hub s \<and>
     400 \<le> rp_code (reply ''GET'' (sd_ops (NewRouter ex_web ex_gzip a Response ?r s)))"
    by (simp add: ex_http_def)
qed

text \<open>
  A request without a handler is refused with 404, or with 405 and the methods allowed if
  its path is known, and the state stays as it is (a request identifier apart).
\<close>

theorem unrouted_refused:
  assumes "gzip_ok gz gunzip" "admitted (uuid_New a) maxBody r s = (r1, s1)" "find_route (hr_Method r) (hr_Path r) = None"
  shows "let d = NewRouter wb gz a wr r s; full = reply (hr_Method r) (sd_ops d); ms = allowedMethods (hr_Path r)
    in sd_state d = s1 \<and> hr_Method r \<notin> set ms \<and> rp_code full = (if ms = [] then 404 else 405) \<and>
      rp_header full ''Allow'' = (if ms = [] then None else Some (Join ms '', ''))"
proof -
  let ?ms = "allowedMethods (hr_Path r)"
  let ?ops = "if ?ms = [] then http_Error ''404 page not found'' 404 else SetHeader ''Allow'' (Join ?ms '', '') # http_Error ''Method Not Allowed'' 405"
  have m: "mux wb a (wrapped r1 wr) r1 s1 = \<lparr>sd_ops = ?ops, sd_log = [], sd_out = Returned, sd_state = s1\<rparr>"
    using assms(3) by (cases ?ms) (simp_all add: mux_def answered_def admitted_request [OF assms(2)])
  have r: "rp_code (reply (hr_Method r) ?ops) = (if ?ms = [] then 404 else 405)" "rp_header (reply (hr_Method r) ?ops) ''Allow'' = (if ?ms = [] then None else Some (Join ?ms '', ''))"
    by (simp_all add: http_Error_def reply_def finish_def send_header_def new_conn_def sent_code_def bodyAllowed_def Let_def)
  have k: "''Allow'' \<notin> mw_headers" by (simp add: mw_headers_def)
  have "filter (route_matches (hr_Method r) (hr_Path r)) routes = []"
    using assms(3) by (auto simp: find_route_def route_matches_def dest!: filter_eq_ConsD split: list.splits option.splits)
  then have "hr_Method r \<notin> set ?ms" by (auto simp: allowedMethods_def filter_empty_conv)
  then show ?thesis
    using r k by (simp add: NewRouter_def middleware_returned [where mux = "mux wb a", OF assms(2) m] encoded_reply Let_def del: if_split)
qed

theorem unrouted_refused_witness:
  "\<forall>(a :: ('p, 'r, 'h, 'm) api) s. let full = reply ''PATCH'' (sd_ops (NewRouter ex_web ex_gzip a Response (ex_http ''PATCH'' [''api'', ''v1'', ''templates'', ''7'']) s))
   in rp_code full = 405 \<and> rp_header full ''Allow'' = Some ''DELETE, GET, HEAD, PUT''"
proof (intro allI)
  fix a :: "('p, 'r, 'h, 'm) api" and s :: "('p, 'r, 'h, 'm) server"
  let ?p = "[''api'', ''v1'', ''templates'', ''7'']"
  have f: "find_route ''PATCH'' ?p = None" "allowedMethods ?p = [''DELETE'', ''GET'', ''HEAD'', ''PUT'']" by code_simp+
  have h: "hr_Method (ex_http ''PATCH'' ?p) = ''PATCH''" "hr_Path (ex_http ''PATCH'' ?p) = ?p" by (simp_all add: ex_http_def)
  have f': "find_route (hr_Method (ex_http ''PATCH'' ?p)) (hr_Path (ex_http ''PATCH'' ?p)) = None" using f(1) h by simp
  from unrouted_refused [OF ex_gzip_ok ex_admitted(1) f', where a = a and s = s and wb = ex_web and wr = Response]
  show "let full = reply ''PATCH'' (sd_ops (NewRouter ex_web ex_gzip a Response (ex_http ''PATCH'' ?p) s))
    in rp_code full = 405 \<and> rp_header full ''Allow'' = Some ''DELETE, GET, HEAD, PUT''"
    by (simp add: Let_def h f(2))
qed

end
