(* ===== verification/Startup.thy ===== *)
theory Startup
  imports Config Router
begin

text \<open>
  Starting and stopping a process: \<open>NewInfra\<close> and \<open>Close\<close> of \<open>internal/app/infra.go\<close>, the
  server of \<open>internal/api/server.go\<close> and the two kinds of \<open>main\<close> under \<open>cmd\<close>, the API and the
  workers.

  What the libraries answer is a record of outcomes; what the process opens and closes is a
  list of events, so that the lemmas can speak of what is left open. A process does not
  return before its context is done, by a signal or by \<open>cancel\<close>.
\<close>

section \<open>Resources\<close>

datatype resource = Pool | SqlDB | RedisClient | TraceExporter

datatype boot_event = Open resource | Close resource | Migrated | Serving | Stopped

text \<open>The resources that are open after the events.\<close>

fun opened :: "boot_event list \<Rightarrow> resource set" where
  "opened [] = {}"
| "opened (Open r # es) = insert r (opened es)"
| "opened (Close r # es) = opened es - {r}"
| "opened (_ # es) = opened es"

text \<open>Events are kept with the latest first. The settings of the pool: Go's \<open>int32\<close> conversion wraps.\<close>

record poolConfig =
  pl_MaxConns :: "32 word"
  pl_MinConns :: "32 word"
  pl_MaxConnLifetime :: duration
  pl_MaxConnIdleTime :: duration
  pl_HealthCheckPeriod :: duration

record libraries =
  lb_env_Parse :: "config result"
  lb_ParseConfig :: "string \<Rightarrow> err option"
  lb_NewWithConfig :: "poolConfig \<Rightarrow> err option"
  lb_pool_Ping :: "err option"
  lb_sql_Open :: "string \<Rightarrow> err option"
  lb_SetDialect :: "err option"
  lb_goose_Up :: "err option"
  lb_redis_Ping :: "redisConfig \<Rightarrow> err option"
  lb_exporter :: "string \<Rightarrow> err option"
  lb_resource :: "err option"
  lb_ListenAndServe :: "string \<Rightarrow> err option"

section \<open>Infrastructure\<close>

definition Load :: "libraries \<Rightarrow> config result" where
  "Load lb = (case lb_env_Parse lb of Inl e \<Rightarrow> Inl e | Inr cfg \<Rightarrow> Inr cfg)"

definition Run_migrations :: "libraries \<Rightarrow> boot_event list \<Rightarrow> err option \<times> boot_event list" where
  "Run_migrations lb es =
     (case lb_SetDialect lb of
        Some e \<Rightarrow> (Some e, es)
      | None \<Rightarrow> (case lb_goose_Up lb of Some e \<Rightarrow> (Some e, es) | None \<Rightarrow> (None, Migrated # es)))"

definition InitTracing :: "libraries \<Rightarrow> string \<Rightarrow> boot_event list \<Rightarrow> err option \<times> boot_event list" where
  "InitTracing lb endpoint es =
     (case lb_exporter lb endpoint of
        Some e \<Rightarrow> (Some (Wrap ''create trace exporter'' e), es)
      | None \<Rightarrow>
          (case lb_resource lb of
             Some e \<Rightarrow> (Some (Wrap ''create resource'' e), Open TraceExporter # es)
           | None \<Rightarrow> (None, Open TraceExporter # es)))"

definition pool_config :: "databaseConfig \<Rightarrow> poolConfig" where
  "pool_config d =
     \<lparr>pl_MaxConns = word_of_int (db_MaxConns d), pl_MinConns = word_of_int (db_MinConns d), pl_MaxConnLifetime = db_MaxConnLifetime d,
      pl_MaxConnIdleTime = db_MaxConnIdleTime d, pl_HealthCheckPeriod = db_HealthCheckPeriod d\<rparr>"

text \<open>The part of \<open>NewInfra\<close> after the connection to PostgreSQL.\<close>

definition NewInfra_redis :: "libraries \<Rightarrow> config \<Rightarrow> boot_event list \<Rightarrow> config result \<times> boot_event list" where
  "NewInfra_redis lb cfg es =
     (let es = Open RedisClient # es
      in case lb_redis_Ping lb (cfg_Redis cfg) of
           Some e \<Rightarrow> (Inl (Wrap ''connect to redis'' e), Close Pool # es)
         | None \<Rightarrow>
             (Inr cfg, if tc_Enabled (cfg_Tracing cfg) then snd (InitTracing lb (tc_Endpoint (cfg_Tracing cfg)) es) else es))"

definition NewInfra_migrate :: "libraries \<Rightarrow> config \<Rightarrow> boot_event list \<Rightarrow> config result \<times> boot_event list" where
  "NewInfra_migrate lb cfg es =
     (case lb_sql_Open lb (DatabaseConfig_DSN (cfg_Database cfg)) of
        Some e \<Rightarrow> (Inl (Wrap ''open sql db for migrations'' e), Close Pool # es)
      | None \<Rightarrow>
          (case Run_migrations lb (Open SqlDB # es) of
             (Some e, es) \<Rightarrow> (Inl (Wrap ''run migrations'' e), Close Pool # Close SqlDB # es)
           | (None, es) \<Rightarrow> NewInfra_redis lb cfg (Close SqlDB # es)))"

definition NewInfra :: "libraries \<Rightarrow> config result \<times> boot_event list" where
  "NewInfra lb =
     (case Load lb of
        Inl e \<Rightarrow> (Inl (Wrap ''load config'' e), [])
      | Inr cfg \<Rightarrow>
          (case lb_ParseConfig lb (DatabaseConfig_DSN (cfg_Database cfg)) of
             Some e \<Rightarrow> (Inl (Wrap ''parse postgres config'' e), [])
           | None \<Rightarrow>
               (case lb_NewWithConfig lb (pool_config (cfg_Database cfg)) of
                  Some e \<Rightarrow> (Inl (Wrap ''connect to postgres'' e), [])
                | None \<Rightarrow>
                    (case lb_pool_Ping lb of
                       Some e \<Rightarrow> (Inl (Wrap ''ping postgres'' e), [Close Pool, Open Pool])
                     | None \<Rightarrow> NewInfra_migrate lb cfg [Open Pool]))))"

definition Infra_Close :: "boot_event list \<Rightarrow> boot_event list" where
  "Infra_Close es = Close RedisClient # Close Pool # es"

section \<open>Processes\<close>

record 's http_server =
  hs_Addr :: string
  hs_Handler :: "'s handler"
  hs_ReadTimeout :: duration
  hs_WriteTimeout :: duration

definition NewServer :: "'s handler \<Rightarrow> int \<Rightarrow> duration \<Rightarrow> duration \<Rightarrow> 's http_server" where
  "NewServer h port rt wt = \<lparr>hs_Addr = '':'' @ Itoa port, hs_Handler = h, hs_ReadTimeout = rt, hs_WriteTimeout = wt\<rparr>"

definition Server_Start :: "libraries \<Rightarrow> 's http_server \<Rightarrow> boot_event list \<Rightarrow> err option \<times> boot_event list" where
  "Server_Start lb srv es = (case lb_ListenAndServe lb (hs_Addr srv) of Some e \<Rightarrow> (Some e, es) | None \<Rightarrow> (None, Serving # es))"

definition Server_Shutdown :: "boot_event list \<Rightarrow> boot_event list" where
  "Server_Shutdown es = (if Serving \<in> set es then Stopped # es else es)"

text \<open>The state of a new API process.\<close>

definition new_api :: "('p, 'r, 'h) world \<Rightarrow> ('p, 'r, 'h, 'm) server" where
  "new_api w = \<lparr>sr_state = (w, NewEngine), sr_hub = NewHub, sr_metrics = NewMetricsCollector\<rparr>"

definition api_server :: "web \<Rightarrow> 'g gzip \<Rightarrow> ('p, 'r, 'h, 'm) api \<Rightarrow> config \<Rightarrow> ('p, 'r, 'h, 'm) server http_server" where
  "api_server wb gz a cfg =
     NewServer (NewRouter wb gz a) (srv_Port (cfg_Server cfg)) (srv_ReadTimeout (cfg_Server cfg)) (srv_WriteTimeout (cfg_Server cfg))"

text \<open>
  \<open>run\<close> of \<open>cmd/api\<close>: an error of \<open>Start\<close> cancels the context, as a signal does; then the
  server is shut down and the deferred \<open>Close\<close> runs. The result is the error that \<open>main\<close> turns
  into exit code 1.
\<close>

definition run :: "web \<Rightarrow> 'g gzip \<Rightarrow> ('p, 'r, 'h, 'm) api \<Rightarrow> libraries \<Rightarrow> err option \<times> boot_event list" where
  "run wb gz a lb =
     (case NewInfra lb of
        (Inl e, es) \<Rightarrow> (Some e, es)
      | (Inr cfg, es) \<Rightarrow>
          (let (_, es) = Server_Start lb (api_server wb gz a cfg) es
           in (None, Infra_Close (Server_Shutdown es))))"

definition exit_code :: "err option \<Rightarrow> int" where
  "exit_code e = (if e = None then 0 else 1)"

text \<open>
  The workers: \<open>RunWorker\<close> builds the dispatcher, starts it and the scheduler, and returns no error
  when the context is done. Building it panics if the size of the pool is negative; that is in
  \<open>main\<close>'s own goroutine, so that the deferred \<open>Close\<close> still runs before the process ends with code 2.
  A panic in a goroutine of the dispatcher (\<open>ds_panicked\<close> in \<open>Dispatcher\<close>) ends the process with code 2 at
  once, without it; \<open>panics\<close> says whether there is one before \<open>main\<close> returns.
\<close>

definition worker_dispatcher :: "config \<Rightarrow> channel \<Rightarrow> dispatcher option" where
  "worker_dispatcher cfg ch =
     NewSingleChannelDispatcher ch (wc_PoolSize (cfg_Worker cfg)) (wc_PollInterval (cfg_Worker cfg)) (wc_BatchSize (cfg_Worker cfg))"

definition RunWorker :: "(dispatcher \<Rightarrow> bool) \<Rightarrow> config \<Rightarrow> channel \<Rightarrow> boot_event list \<Rightarrow> int \<times> boot_event list" where
  "RunWorker panics cfg ch es =
     (case worker_dispatcher cfg ch of
        None \<Rightarrow> (2, Infra_Close es)
      | Some d \<Rightarrow> if panics d then (2, es) else (0, Infra_Close es))"

definition worker_main :: "channel \<Rightarrow> (dispatcher \<Rightarrow> bool) \<Rightarrow> libraries \<Rightarrow> int \<times> boot_event list" where
  "worker_main ch panics lb =
     (case NewInfra lb of
        (Inl e, es) \<Rightarrow> (1, es)
      | (Inr cfg, es) \<Rightarrow> RunWorker panics cfg ch es)"

definition main_email :: "(dispatcher \<Rightarrow> bool) \<Rightarrow> libraries \<Rightarrow> int \<times> boot_event list" where
  "main_email = worker_main ChannelEmail"

definition main_push :: "(dispatcher \<Rightarrow> bool) \<Rightarrow> libraries \<Rightarrow> int \<times> boot_event list" where
  "main_push = worker_main ChannelPush"

definition main_sms :: "(dispatcher \<Rightarrow> bool) \<Rightarrow> libraries \<Rightarrow> int \<times> boot_event list" where
  "main_sms = worker_main ChannelSMS"

section \<open>Lemmas\<close>

lemma NewInfra_open:
  assumes "NewInfra lb = (x, es)"
  shows "x = Inl e \<Longrightarrow> opened es \<subseteq> {RedisClient}"
    and "x = Inr cfg \<Longrightarrow> Migrated \<in> set es \<and> {Pool, RedisClient} \<subseteq> opened es \<and> SqlDB \<notin> opened es \<and>
      (tc_Enabled (cfg_Tracing cfg) \<or> TraceExporter \<notin> opened es)"
  using assms
  by (auto simp: NewInfra_def NewInfra_migrate_def NewInfra_redis_def Run_migrations_def InitTracing_def Let_def
      split: sum.splits option.splits prod.splits if_splits)

section \<open>Properties\<close>

text \<open>
  C31. Starting up and ending. If \<open>NewInfra\<close> fails, every connection to PostgreSQL that it has opened is
  closed again and a worker exits with 1; if it succeeds, the migrations have been applied, the connection they used
  is closed, and both pools are open. When the API ends, neither is. A worker whose dispatcher
  cannot be built (exactly if the size of its pool is negative) exits with 2 and has closed both;
  one of whose goroutines none panics exits with 0 and has closed both; if one panics, the process
  ends with 2 and the deferred \<open>Close\<close> has not run.
\<close>

theorem startup_releases:
  assumes "NewInfra lb = (x, es)"
  shows "case x of
      Inl e \<Rightarrow> Pool \<notin> opened es \<and> SqlDB \<notin> opened es \<and> run wb gz a lb = (Some e, es) \<and> worker_main ch panics lb = (1, es)
    | Inr cfg \<Rightarrow>
        let tracer = (if tc_Enabled (cfg_Tracing cfg) then {TraceExporter} else {}); (code, es') = worker_main ch panics lb
        in Migrated \<in> set es \<and> {Pool, RedisClient} \<subseteq> opened es \<and> SqlDB \<notin> opened es \<and>
          opened (snd (run wb gz a lb)) \<subseteq> tracer \<and> (worker_dispatcher cfg ch = None \<longleftrightarrow> wc_PoolSize (cfg_Worker cfg) < 0) \<and>
          (case worker_dispatcher cfg ch of
             None \<Rightarrow> code = 2 \<and> opened es' \<subseteq> tracer
           | Some d \<Rightarrow>
               if panics d then code = 2 \<and> {Pool, RedisClient} \<subseteq> opened es' else code = 0 \<and> opened es' \<subseteq> tracer)"
proof (cases x)
  case (Inl e)
  then show ?thesis using NewInfra_open(1) [OF assms Inl] assms by (auto simp: run_def worker_main_def)
next
  case (Inr cfg)
  let ?T = "if tc_Enabled (cfg_Tracing cfg) then {TraceExporter} else {}"
  have es: "Migrated \<in> set es" "{Pool, RedisClient} \<subseteq> opened es" "SqlDB \<notin> opened es"
    "opened es \<subseteq> {Pool, RedisClient} \<union> ?T"
    using NewInfra_open(2) [OF assms Inr] by (auto intro: resource.exhaust)
  then have closed: "opened (Infra_Close es) \<subseteq> ?T" by (auto simp: Infra_Close_def split: if_splits)
  have "opened (snd (run wb gz a lb)) \<subseteq> ?T"
    using es(4) assms Inr by (auto simp: run_def Server_Start_def Server_Shutdown_def Infra_Close_def split: prod.splits option.splits if_splits)
  moreover have "worker_dispatcher cfg ch = None \<longleftrightarrow> wc_PoolSize (cfg_Worker cfg) < 0"
    by (simp add: worker_dispatcher_def NewSingleChannelDispatcher_def NewPool_def)
  moreover have "worker_main ch panics lb = RunWorker panics cfg ch es" using assms Inr by (simp add: worker_main_def)
  ultimately show ?thesis
    using Inr es(1-3) closed by (cases "tc_Enabled (cfg_Tracing cfg)") (simp_all add: RunWorker_def Let_def split: option.splits)
qed

text \<open>Libraries that work, with the default settings, but for Redis and the listening socket as given.\<close>

definition ex_libs :: "err option \<Rightarrow> err option \<Rightarrow> libraries" where
  "ex_libs redis listen =
     \<lparr>lb_env_Parse = Inr default_config, lb_ParseConfig = (\<lambda>_. None), lb_NewWithConfig = (\<lambda>_. None), lb_pool_Ping = None,
      lb_sql_Open = (\<lambda>_. None), lb_SetDialect = None, lb_goose_Up = None, lb_redis_Ping = (\<lambda>_. redis), lb_exporter = (\<lambda>_. None),
      lb_resource = None, lb_ListenAndServe = (\<lambda>_. listen)\<rparr>"

lemmas startup_eval = NewInfra_def NewInfra_migrate_def NewInfra_redis_def Run_migrations_def Load_def ex_libs_def Let_def

lemma ex_started: "\<exists>es. NewInfra (ex_libs None listen) = (Inr default_config, es) \<and> Serving \<notin> set es"
  by (simp add: startup_eval) (simp add: default_config_def)

text \<open>
  With libraries that work, a worker exits with 0 and nothing open if no goroutine panics; if one
  does, as the shutdown of the example in \<open>Dispatcher\<close> shows, it exits with 2.
\<close>

theorem startup_releases_witness:
  "fst (worker_main ChannelSMS (\<lambda>_. False) (ex_libs None None)) = 0 \<and> opened (snd (worker_main ChannelSMS (\<lambda>_. False) (ex_libs None None))) = {} \<and>
   fst (worker_main ChannelSMS (\<lambda>_. True) (ex_libs None None)) = 2 \<and> Pool \<in> opened (snd (worker_main ChannelSMS (\<lambda>_. True) (ex_libs None None)))"
proof -
  obtain es where n: "NewInfra (ex_libs None None) = (Inr default_config, es)" using ex_started by blast
  have c: "wc_PoolSize (cfg_Worker default_config) = 10" "\<not> tc_Enabled (cfg_Tracing default_config)" by (simp_all add: default_config_def)
  obtain d where d: "worker_dispatcher default_config ChannelSMS = Some d"
    using startup_releases [OF n, of ex_web ex_gzip undefined ChannelSMS "\<lambda>_. False"] c by (auto simp: Let_def)
  show ?thesis
    using startup_releases [OF n, of ex_web ex_gzip undefined ChannelSMS "\<lambda>_. False"]
      startup_releases [OF n, of ex_web ex_gzip undefined ChannelSMS "\<lambda>_. True"] d c
    by (auto simp: Let_def split: prod.splits)
qed

text \<open>
  A server that cannot listen looks like a clean exit: when \<open>ListenAndServe\<close> fails (the
  port is taken), \<open>run\<close> shuts down and returns no error, and the process exits with 0 without
  having served anything.
\<close>

theorem listen_failure_exits_zero:
  assumes "NewInfra lb = (Inr cfg, es)" "Serving \<notin> set es" "lb_ListenAndServe lb (hs_Addr (api_server wb gz a cfg)) = Some e"
  shows "exit_code (fst (run wb gz a lb)) = 0 \<and> Serving \<notin> set (snd (run wb gz a lb))"
  using assms by (simp add: run_def Server_Start_def Server_Shutdown_def Infra_Close_def exit_code_def)

theorem listen_failure_exits_zero_witness:
  "\<forall>a :: ('p, 'r, 'h, 'm) api. exit_code (fst (run ex_web ex_gzip a (ex_libs None (Some (Err ''address already in use''))))) = 0"
proof
  fix a :: "('p, 'r, 'h, 'm) api"
  let ?lb = "ex_libs None (Some (Err ''address already in use''))"
  obtain es where n: "NewInfra ?lb = (Inr default_config, es)" "Serving \<notin> set es" using ex_started by blast
  have "lb_ListenAndServe ?lb x = Some (Err ''address already in use'')" for x by (simp add: ex_libs_def)
  from listen_failure_exits_zero [OF n this, of ex_web ex_gzip a] show "exit_code (fst (run ex_web ex_gzip a ?lb)) = 0" by blast
qed

end
