(* ===== verification/Spec2Isabelle.thy ===== *)
theory Spec2Isabelle
  imports Races Settled Startup
begin

text \<open>
  A verification development of the notification service under \<open>src/\<close>.

  The service. Clients create notifications over HTTP (\<open>internal/api\<close>), one by one or in
  batches, to be sent at once or at a given time. The API stores them in PostgreSQL
  (\<open>internal/repository/postgres\<close>), puts a message for each into a priority queue in Redis
  (\<open>internal/queue/redis\<close>) and answers. One worker process per channel (\<open>internal/app/worker.go\<close>,
  \<open>internal/worker\<close>) takes messages from the queue within a rate limit, claims the rows,
  sends them to a provider through a circuit breaker (\<open>internal/provider\<close>), and records the
  outcome: sent, queued again with a delay (\<open>internal/retry\<close>), or failed with a dead letter.
  Every worker process also runs a scheduler that queues notifications whose time has come
  and returns messages whose worker has disappeared. The content may come from a template
  (\<open>internal/template\<close>). Status changes go to WebSocket clients (\<open>internal/websocket\<close>) and
  counters (\<open>internal/observability\<close>).

  Theories, from the bottom up:

  \<^item> \<open>Prelude\<close>, \<open>Go_Text\<close>, \<open>Float64\<close>: Go errors, remote calls, generic lemmas; decimal text; IEEE
    binary64 arithmetic with rounding, for queue scores and retry delays.
  \<^item> \<open>Domain\<close>: the structs and enumerations of \<open>internal/domain\<close> and the queue message.
  \<^item> \<open>Redis\<close>, \<open>Postgres\<close>: the two services as records of operations with their documented laws
    as the locales \<open>redis_server\<close> and \<open>pg_server\<close>, and the SQL statements of \<open>queries.go\<close> on the
    tables of the migrations. Each is interpreted on a server in memory.
  \<^item> \<open>Queue\<close> (\<open>producer.go\<close>, \<open>consumer.go\<close>): Redis implements all six methods of the interfaces
    \<open>queue.Producer\<close> and \<open>queue.Consumer\<close> (locale \<open>message_queue\<close>); batches are moved in score order; what a member that does not decode does; priorities and age.
  \<^item> \<open>Rate_Limiter\<close> (\<open>ratelimiter.go\<close> with its Lua scripts): at most \<open>limit\<close> permits in any second,
    if entries do not collide, and what happens if they do.
  \<^item> \<open>Retry\<close> (\<open>strategy.go\<close>): bounds of the delay for every random draw.
  \<^item> \<open>Provider\<close> (\<open>circuitbreaker.go\<close>, \<open>webhook/client.go\<close>): the breaker refines an abstract open and
    closed breaker; concurrent calls as a step relation with an invariant.
  \<^item> \<open>Notification_Repo\<close> (\<open>postgres/notification.go\<close>, \<open>deadletter.go\<close>): the invariant of the tables,
    exclusive claims, atomic batches, round trip, pages; the interface \<open>notification_store\<close>.
  \<^item> \<open>Templates\<close> (\<open>postgres/template.go\<close>, \<open>template/engine.go\<close>): the invariant with templates and
    their foreign key; the cache against a reference renderer.
  \<^item> \<open>Hub\<close> (\<open>websocket\<close>, \<open>metrics.go\<close>): no broadcast blocks, who gets which event, counters.
  \<^item> \<open>Processor\<close>, \<open>Worker\<close> (\<open>processor.go\<close>, \<open>app/worker.go\<close>): the processor over the interfaces it
    holds, as a locale, and its interpretation on the wiring of \<open>RunWorker\<close>: no silent loss, at
    most one delivery per claim, safe batches.
  \<^item> \<open>Scheduler\<close> (\<open>scheduler.go\<close>): a poll is safe, returns while the services answer, and reclaims.
  \<^item> \<open>Dispatcher\<close> (\<open>dispatcher.go\<close>, \<open>pool.go\<close>): loops, goroutines, task channels and shutdown as a
    step relation with its invariant, and when a goroutine can panic.
  \<^item> \<open>Config\<close> (\<open>config.go\<close>): the settings and their defaults, \<open>DSN\<close>, \<open>itoa\<close>.
  \<^item> \<open>Handlers\<close> (\<open>api/handler\<close>): every handler, as what it does to the world and what it answers.
  \<^item> \<open>Api\<close>, \<open>Responses\<close>, \<open>Others\<close>, \<open>Service\<close>: the locale \<open>api_env\<close> of what the handlers rely on, proved
    for workers and schedulers that act between any two calls of a handler; what each kind of
    response means; races between the API and a worker.
  \<^item> \<open>Middleware\<close>, \<open>Router\<close> (\<open>api/middleware\<close>, \<open>router.go\<close>): from the request on the wire to the handler
    and back; the writers of the middleware, behind which no WebSocket can be opened.
  \<^item> \<open>Startup\<close> (\<open>infra.go\<close>, \<open>server.go\<close>, \<open>cmd\<close>): what is opened and closed, and how the processes end.
  \<^item> \<open>Threads\<close>: \<open>ProcessBatch\<close> and \<open>poll\<close> with the loop of \<open>Start\<close>, one remote call per step, and that a
    goroutine that runs alone does what the functions of \<open>Processor\<close> and \<open>Scheduler\<close> say.
  \<^item> \<open>System\<close>: any number of worker processes with their goroutines and schedulers, and the API that
    inserts, interleaved at every remote call, with crashes: who owns a row, and how often the
    provider is called.
  \<^item> \<open>Settled\<close>: the same with the status writes of the API and polls that outlive their lock: which rows
    workers and schedulers leave alone.
  \<^item> \<open>Races\<close>: a scheduled notification that is lost between a scheduler and a worker.
  \<^item> This theory: whole calls of workers and schedulers in any order.

  How code becomes definitions. A method is a function named after its receiver and its
  name, such as \<open>Processor_Process\<close>; it takes the state it works on and returns it changed,
  with its result. An error result is \<open>Inl\<close> or \<open>Some\<close> of a value of \<open>err\<close>. All state outside a
  component is one record \<open>world\<close>: the database, Redis, the provider, the breaker, the hub, the
  counters and a tick counter from which the clock, random draws and new UUIDs are read. A
  remote call can arrive and be answered, get lost, or arrive and lose its answer, as the
  network of the server says; no property assumes that calls succeed unless it says so. The
  value \<open>None\<close> of a function that otherwise returns a world is a panic, or for \<open>poll_loop\<close>, which
  is a partial function, that it does not return. There is no fuel in the development: all
  other loops are recursions with a termination proof. Counters are 64-bit words; times are
  unbounded integers of nanoseconds; scores and delays are rounded to binary64.

  Properties have numbers. Those that show what the code guarantees come first, those that
  show a failure (a lost message, a race, a stale template) last.

  Parameters, with the laws that the code relies on as locales or hypotheses: PostgreSQL,
  Redis, the HTTP service behind the provider, \<open>encoding/json\<close> for messages, events, requests and
  responses, \<open>text/template\<close>, \<open>compress/gzip\<close>, \<open>uuid\<close> and \<open>time\<close> parsing, \<open>math/rand\<close>, the clock, the
  \<open>env\<close> package, \<open>goose\<close>, OpenTelemetry and \<open>websocket.Accept\<close>.

  Left out of the interleavings of \<open>System\<close>: writes of the API to rows that workers know, whose
  races are in \<open>Service\<close>, and a poll that outlives the five seconds of the scheduler's lock. Both are
  steps in \<open>Settled\<close>. Redis keys do not expire in the model, except that the lock of the scheduler may
  be gone at any step of others; \<open>Rate_Limiter\<close> says why the expiry of its key may be left out.

  Not modelled: the construction of the logger and the text of log entries other than those of the middleware; timeouts and
  cancelled contexts, except as errors of calls and as the shutdown of the dispatcher; the
  redirect of paths that are not clean, which \<open>http.ServeMux\<close> does before it looks for a
  handler; the migration tool and the container set-up of the tests.
\<close>

lemma ex_claimed:
  "\<exists>n. rows (snd (NotificationRepo_UpdateStatus steady_pg ''1'' StatusProcessing (w_db ex_stored))) ''1'' = Some n \<and>
     n_Status n = StatusProcessing \<and> db_inv steady_pg (snd (NotificationRepo_UpdateStatus steady_pg ''1'' StatusProcessing (w_db ex_stored)))"
proof -
  have inv: "store_inv steady_pg (w_db ex_stored)" using ex_stored_facts(1) .
  have "fst (NotificationRepo_UpdateStatus steady_pg ''1'' StatusProcessing (w_db ex_stored)) = None"
    using spg.UpdateStatus_up [OF ex_networks(2) store_invD [OF inv]] by simp
  then obtain s where s: "NotificationRepo_UpdateStatus steady_pg ''1'' StatusProcessing (w_db ex_stored) = (None, s)" by (metis prod.collapse)
  obtain n0 where n0: "rows (w_db ex_stored) ''1'' = Some n0" using ex_stored_facts(2) by blast
  have "n_ID n0 = ''1''" using spg.repo.tbl_valid [OF store_invD [OF inv] n0] by blast
  then have "\<exists>n. rows s ''1'' = Some n \<and> n_Status n = StatusProcessing"
    using spg.update_ok_calls(1) [OF store_invD [OF inv] s] n0 by (auto simp: effect_def upd_rows_def set_status_def)
  moreover have "db_inv steady_pg s" using spg.repo_exec_inv [OF store_invD [OF inv], of "OpUpdateStatus ''1'' StatusProcessing"] s by simp
  ultimately show ?thesis using s by auto
qed

section \<open>Workers and schedulers together\<close>

text \<open>The messages of an action are valid ones.\<close>

fun valid_action :: "action \<Rightarrow> bool" where
  "valid_action (RunProcess msg) = valid_message msg"
| "valid_action (RunBatch msgs) = list_all valid_message msgs"
| "valid_action RunPoll = True"

text \<open>A status that neither a claim nor the scheduler starts from.\<close>

definition settled_status :: "status \<Rightarrow> bool" where
  "settled_status st = (\<not> claimable st \<and> st \<noteq> StatusScheduled)"

context scheduler_env
begin

lemma process_settled:
  assumes inv: "world_inv (sv_pg sv) w" and v: "valid_message msg" and row: "rows (w_db w) i = Some n" "settled_status (n_Status n)"
    and run: "Processor_Process (worker_processor sv) msg w = Some w'"
  shows "rows (w_db w') i = Some n"
proof (cases "m_NotificationID msg = i")
  case True
  obtain x s where c: "NotificationRepo_GetAndMarkProcessing (sv_pg sv) i (w_db w) = (x, s)" by fastforce
  have db: "db_inv (sv_pg sv) (w_db w)" using inv by (simp add: world_inv_def)
  have "\<not> claimable (n_Status n)" using row(2) by (simp add: settled_status_def)
  then obtain e where x: "x = Inl e" using repo.claim_ok [OF db] c row(1) by (cases x) fastforce+
  have "rows s i = Some n"
    using repo.claim_effect [OF db c] row \<open>\<not> claimable (n_Status n)\<close> by (auto simp: effect_def mark_def upd_rows_def)
  moreover have "w_db w' = s"
    using run c x True
    by (auto simp: Processor_Process_def worker_ops on_db_def Processor_ack_def on_redis_def split: if_splits prod.splits)
  ultimately show ?thesis by simp
next
  case False
  then show ?thesis using process_frame(2) [OF inv v refl run] row(1) by auto
qed

lemma act_settled:
  assumes "world_inv (sv_pg sv) w" "valid_action x" "rows (w_db w) i = Some n" "settled_status (n_Status n)"
  shows "rows (w_db (act sv x w)) i = Some n" "world_inv (sv_pg sv) (act sv x w)"
proof -
  have "rows (w_db (act sv x w)) i = Some n \<and> world_inv (sv_pg sv) (act sv x w)"
  proof (cases x)
    case (RunProcess msg)
    obtain w' where w': "Processor_Process (worker_processor sv) msg w = Some w'" "world_inv (sv_pg sv) w'"
      using process_outcome [OF assms(1) _ refl refl, of msg] assms(2) RunProcess by auto
    then show ?thesis using process_settled [OF assms(1) _ assms(3,4)] assms(2) RunProcess by simp
  next
    case (RunBatch msgs)
    obtain w' where w': "Processor_ProcessBatch (worker_processor sv) msgs w = Some w'" "world_inv (sv_pg sv) w'"
      "rows_ok (m_NotificationID ` set msgs) (rows (w_db w)) (rows (w_db w'))"
      using batch_outcome [OF assms(1), of msgs] assms(2) RunBatch by (auto simp: list_all_iff)
    have "rows (w_db w') i = rows (w_db w) i"
      using w'(3) assms(3,4) unfolding rows_ok_def settled_status_def by (metis option.inject)
    then show ?thesis using w'(1,2) assms(3) RunBatch by simp
  next
    case RunPoll
    show ?thesis
    proof (cases "Scheduler_poll sv w")
      case (Some w')
      have p: "world_inv (sv_pg sv) w'" "scheduled_row sv w w' i"
        using poll_schedules [OF Some assms(1)] by (simp_all add: schedules_def)
      then have "rows (w_db w') i = rows (w_db w) i" using assms(3,4) by (auto simp: scheduled_row_def settled_status_def)
      then show ?thesis using Some p(1) assms(3) RunPoll by simp
    qed (use assms RunPoll in simp)
  qed
  then show "rows (w_db (act sv x w)) i = Some n" "world_inv (sv_pg sv) (act sv x w)" by blast+
qed

lemma acts_settled:
  assumes "world_inv (sv_pg sv) w" "list_all valid_action xs" "rows (w_db w) i = Some n" "settled_status (n_Status n)"
  shows "rows (w_db (fold (act sv) xs w)) i = Some n"
  using assms
proof (induction xs arbitrary: w)
  case (Cons x xs)
  then show ?case using act_settled [OF Cons.prems(1) _ Cons.prems(3,4), of x] by simp
qed simp

end

section \<open>Properties\<close>

text \<open>
  What is settled stays settled. Whatever messages the workers process, one by one or in
  batches, and however often the schedulers run, the row of a notification that is sent,
  failed, cancelled or processing does not change. In particular a notification that a
  crashed worker has left in processing is never picked up again, although its message is
  put back into the queue.
\<close>

theorem settled_rows_stay:
  assumes "scheduler_env sv" "world_inv (sv_pg sv) w" "list_all valid_action xs"
    and "rows (w_db w) i = Some n" "n_Status n \<in> {StatusSent, StatusFailed, StatusCancelled, StatusProcessing}"
  shows "rows (w_db (fold (act sv) xs w)) i = Some n"
  by (rule scheduler_env.acts_settled [OF assms(1-4)]) (use assms(5) in \<open>auto simp: settled_status_def claimable_def status_defs\<close>)

theorem settled_rows_stay_witness:
  "\<exists>n. n_Status n = StatusProcessing \<and> (let w = ex_stored\<lparr>w_db := snd (NotificationRepo_UpdateStatus steady_pg ''1'' StatusProcessing (w_db ex_stored))\<rparr>
     in rows (w_db w) ''1'' = Some n \<and>
        rows (w_db (fold (act (ex_sched mem_up)) [RunProcess ex_msg1, RunPoll, RunBatch [ex_msg1, ex_msg1]] w)) ''1'' = Some n)"
proof -
  let ?s = "snd (NotificationRepo_UpdateStatus steady_pg ''1'' StatusProcessing (w_db ex_stored))"
  let ?w = "ex_stored\<lparr>w_db := ?s\<rparr>"
  let ?xs = "[RunProcess ex_msg1, RunPoll, RunBatch [ex_msg1, ex_msg1]]"
  obtain n where n: "rows ?s ''1'' = Some n" "n_Status n = StatusProcessing" "db_inv steady_pg ?s" using ex_claimed by blast
  have "world_inv (sv_pg (ex_sched mem_up)) ?w" using n(3) ex_stored_facts(3) by (simp add: world_inv_def metrics_ok_new)
  moreover have "list_all valid_action ?xs" by simp
  moreover have "rows (w_db ?w) ''1'' = Some n" using n(1) by simp
  ultimately have "rows (w_db (fold (act (ex_sched mem_up)) ?xs ?w)) ''1'' = Some n"
    by (rule settled_rows_stay [OF sched_up.scheduler_env_axioms]) (simp add: n(2))
  then show ?thesis using n by (intro exI [of _ n]) (simp add: Let_def del: fold_simps act.simps)
qed

end
